(* ===== verification/Prelude.thy ===== *)
theory Prelude
  imports Main "HOL-Library.AList"
begin

text \<open>
  What every theory of the development shares: Go's error values, the three ways a Go call can
  come back (a value, an error, a panic), the two loop shapes the operator is written with (append
  the result of each element, or thread a state through the elements; both leave at the first
  error), and the lemmas about them that the component proofs use.
\<close>

named_theorems result_simps \<open>rewriting of calls that may fail\<close>
named_theorems model_defs \<open>definitions of the operations, for unfolding in one go\<close>

section \<open>Errors, panics, results\<close>

text \<open>
  An error value keeps what the code observes of it: its text (\<open>Error()\<close>), which package-level
  error value it is or wraps (\<open>errors.Is\<close>), and the reason of an API status error
  (\<open>apierrors.IsNotFound\<close>, \<open>IsAlreadyExists\<close>). \<open>ErrWrap pre e post\<close> is
  \<open>fmt.Errorf("pre %w post", e)\<close>; an error printed with the verb \<open>v\<close> leaves only its text.
\<close>

datatype sentinel =
    WrongSourceType
  | UnknownVersion
  | UnsupportedConversion
  | IgnErrInvalidVersion
  | IgnErrUnknownVersion

datatype api_reason = NotFound | AlreadyExists | OtherReason

datatype error =
    ErrText string
  | ErrSentinel sentinel
  | ErrApi api_reason string
  | ErrWrap string error string

fun sentinel_text :: "sentinel \<Rightarrow> string" where
  "sentinel_text WrongSourceType = ''wrong source type for the conversion''"
| "sentinel_text UnknownVersion = ''the requested version is unknown''"
| "sentinel_text UnsupportedConversion = ''the requested conversion is not supported''"
| "sentinel_text IgnErrInvalidVersion = ''invalid config version (couldn't parse)''"
| "sentinel_text IgnErrUnknownVersion = ''unsupported config version''"

fun err_text :: "error \<Rightarrow> string" where
  "err_text (ErrText s) = s"
| "err_text (ErrSentinel s) = sentinel_text s"
| "err_text (ErrApi r s) = s"
| "err_text (ErrWrap pre e post) = pre @ err_text e @ post"

fun err_is :: "sentinel \<Rightarrow> error \<Rightarrow> bool" where
  "err_is s (ErrSentinel s') = (s = s')"
| "err_is s (ErrWrap pre e post) = err_is s e"
| "err_is s _ = False"

fun err_reason :: "error \<Rightarrow> api_reason option" where
  "err_reason (ErrApi r s) = Some r"
| "err_reason (ErrWrap pre e post) = err_reason e"
| "err_reason _ = None"

definition isNotFound :: "error \<Rightarrow> bool" where
  "isNotFound e \<longleftrightarrow> err_reason e = Some NotFound"

definition isAlreadyExists :: "error \<Rightarrow> bool" where
  "isAlreadyExists e \<longleftrightarrow> err_reason e = Some AlreadyExists"

datatype panic = NilDeref | NegativeRepeat | SemverMust error | TypeAssertion | PanicError error | PanicText string

datatype 'a result = Ok 'a | Err error | Panic panic

definition is_ok :: "'a result \<Rightarrow> bool" where
  "is_ok r \<longleftrightarrow> (case r of Ok _ \<Rightarrow> True | _ \<Rightarrow> False)"

definition no_panic :: "'a result \<Rightarrow> bool" where
  "no_panic r \<longleftrightarrow> (case r of Panic _ \<Rightarrow> False | _ \<Rightarrow> True)"

lemma is_ok_simps [simp]: "is_ok (Ok a)" "\<not> is_ok (Err e)" "\<not> is_ok (Panic p)"
  by (simp_all add: is_ok_def)

lemma is_ok_iff: "is_ok r \<longleftrightarrow> (\<exists>a. r = Ok a)"
  by (cases r) simp_all

lemma no_panic_simps [simp]: "no_panic (Ok a)" "no_panic (Err e)" "\<not> no_panic (Panic p)"
  by (simp_all add: no_panic_def)

fun rbind :: "'a result \<Rightarrow> ('a \<Rightarrow> 'b result) \<Rightarrow> 'b result" where
  "rbind (Ok a) f = f a"
| "rbind (Err e) f = Err e"
| "rbind (Panic p) f = Panic p"

text \<open>The \<open>if err != nil { return fmt.Errorf("pre %w post", err) }\<close> of the source.\<close>

fun rwrap :: "string \<Rightarrow> string \<Rightarrow> 'a result \<Rightarrow> 'a result" where
  "rwrap pre post (Err e) = Err (ErrWrap pre e post)"
| "rwrap pre post r = r"

lemma rbind_Ok_iff [result_simps]: "rbind r f = Ok b \<longleftrightarrow> (\<exists>a. r = Ok a \<and> f a = Ok b)"
  by (cases r) simp_all

lemma rbind_Err_iff: "rbind r f = Err e \<longleftrightarrow> r = Err e \<or> (\<exists>a. r = Ok a \<and> f a = Err e)"
  by (cases r) simp_all

lemma rbind_no_panic: "no_panic r \<Longrightarrow> (\<And>a. r = Ok a \<Longrightarrow> no_panic (f a)) \<Longrightarrow> no_panic (rbind r f)"
  by (cases r) simp_all

lemma rbind_Ok_right [simp]: "rbind r Ok = r"
  by (cases r) simp_all

lemma rbind_assoc: "rbind (rbind r f) g = rbind r (\<lambda>a. rbind (f a) g)"
  by (cases r) simp_all

lemma rwrap_Ok_iff [result_simps]: "rwrap pre post r = Ok a \<longleftrightarrow> r = Ok a"
  by (cases r) simp_all

lemma rwrap_no_panic [simp]: "no_panic (rwrap pre post r) = no_panic r"
  by (cases r) simp_all

section \<open>The two loops\<close>

text \<open>
  \<open>for x := range xs { y, err := f(x); if err != nil { return err }; out = append(out, y) }\<close>
\<close>

fun rmap_list :: "('a \<Rightarrow> 'b result) \<Rightarrow> 'a list \<Rightarrow> 'b list result" where
  "rmap_list f [] = Ok []"
| "rmap_list f (x # xs) = rbind (f x) (\<lambda>y. rbind (rmap_list f xs) (\<lambda>ys. Ok (y # ys)))"

text \<open>\<open>for x := range xs { s, err = f(s, x); if err != nil { return err } }\<close>\<close>

fun rfold :: "('s \<Rightarrow> 'a \<Rightarrow> 's result) \<Rightarrow> 's \<Rightarrow> 'a list \<Rightarrow> 's result" where
  "rfold f s [] = Ok s"
| "rfold f s (x # xs) = rbind (f s x) (\<lambda>s'. rfold f s' xs)"

lemma rmap_list_Ok_iff:
  "rmap_list f xs = Ok ys \<longleftrightarrow> list_all2 (\<lambda>x y. f x = Ok y) xs ys"
  by (induction xs arbitrary: ys) (auto simp: result_simps list_all2_Cons1)

lemma rmap_list_Ok_length: "rmap_list f xs = Ok ys \<Longrightarrow> length ys = length xs"
  by (auto simp: rmap_list_Ok_iff dest: list_all2_lengthD)

lemma rmap_list_Ok_nth: "rmap_list f xs = Ok ys \<Longrightarrow> i < length xs \<Longrightarrow> f (xs ! i) = Ok (ys ! i)"
  by (auto simp: rmap_list_Ok_iff dest: list_all2_nthD)

lemma rmap_list_is_ok: "is_ok (rmap_list f xs) \<longleftrightarrow> (\<forall>x\<in>set xs. is_ok (f x))"
proof (induction xs)
  case (Cons x xs)
  then show ?case by (cases "f x"; cases "rmap_list f xs") auto
qed simp

text \<open>The loop fails as its first failing element does.\<close>

lemma rmap_list_first_error:
  "\<forall>x\<in>set xs. is_ok (f x) \<Longrightarrow> f y = Err e \<Longrightarrow> rmap_list f (xs @ y # zs) = Err e"
  by (induction xs) (auto simp: is_ok_iff)

lemma rmap_list_first_panic:
  "\<forall>x\<in>set xs. is_ok (f x) \<Longrightarrow> f y = Panic p \<Longrightarrow> rmap_list f (xs @ y # zs) = Panic p"
  by (induction xs) (auto simp: is_ok_iff)

lemma rmap_list_no_panic: "\<forall>x\<in>set xs. no_panic (f x) \<Longrightarrow> no_panic (rmap_list f xs)"
  by (induction xs) (auto intro!: rbind_no_panic)

lemma rmap_list_cong [fundef_cong]:
  "xs = ys \<Longrightarrow> (\<And>x. x \<in> set ys \<Longrightarrow> f x = g x) \<Longrightarrow> rmap_list f xs = rmap_list g ys"
  by (induction xs arbitrary: ys) auto

lemma rfold_append: "rfold f s (xs @ ys) = rbind (rfold f s xs) (\<lambda>s'. rfold f s' ys)"
  by (induction xs arbitrary: s) (simp_all add: rbind_assoc)

lemma rfold_inv:
  assumes "rfold f s xs = Ok s'" and "P s"
    and "\<And>s x s'. x \<in> set xs \<Longrightarrow> P s \<Longrightarrow> f s x = Ok s' \<Longrightarrow> P s'"
  shows "P s'"
  using assms
proof (induction xs arbitrary: s)
  case (Cons x xs)
  from Cons.prems(1) obtain t where "f s x = Ok t" and "rfold f t xs = Ok s'"
    by (auto simp: result_simps)
  then show ?case using Cons.prems(2,3) Cons.IH [of t] by (meson list.set_intros)
qed simp

lemma rfold_no_panic: "(\<And>s x. x \<in> set xs \<Longrightarrow> no_panic (f s x)) \<Longrightarrow> no_panic (rfold f s xs)"
  by (induction xs arbitrary: s) (auto intro!: rbind_no_panic)

lemma rfold_Ok_fold: "(\<And>s x. x \<in> set xs \<Longrightarrow> f s x = Ok (g x s)) \<Longrightarrow> rfold f s xs = Ok (fold g xs s)"
  by (induction xs arbitrary: s) auto

section \<open>Lists\<close>


lemma distinct_map_snoc: "distinct (map f (xs @ [x])) \<longleftrightarrow> distinct (map f xs) \<and> f x \<notin> f ` set xs"
  by auto

lemma map_of_eqI_distinct:
  "distinct (map fst xs) \<Longrightarrow> distinct (map fst ys) \<Longrightarrow> set xs = set ys \<Longrightarrow> map_of xs = map_of ys"
  by (metis map_of_inject_set)

end
