(* ===== verification/GoStrings.thy ===== *)
theory GoStrings
  imports Prelude "HOL-Library.Char_ord" "HOL-Library.List_Lexorder"
begin

text \<open>
  The functions of Go's \<open>strings\<close>, \<open>strconv\<close> and \<open>fmt\<close> that the operator calls. A Go string is a
  byte sequence, here a \<^typ>\<open>string\<close> (a list of 8-bit characters); comparison of strings is the
  bytewise lexicographic order of \<open>HOL-Library.List_Lexorder\<close>.
\<close>

section \<open>Splitting and joining\<close>

text \<open>\<open>strings.SplitN(s, sep, 2)\<close> for a one-byte separator.\<close>

definition splitN2 :: "char \<Rightarrow> string \<Rightarrow> string list" where
  "splitN2 c s =
     (case dropWhile (\<lambda>x. x \<noteq> c) s of
        [] \<Rightarrow> [s]
      | _ # rest \<Rightarrow> [takeWhile (\<lambda>x. x \<noteq> c) s, rest])"

lemma splitN2_no_sep: "c \<notin> set s \<Longrightarrow> splitN2 c s = [s]"
proof -
  assume "c \<notin> set s"
  then have "dropWhile (\<lambda>x. x \<noteq> c) s = []" by (auto simp: dropWhile_eq_Nil_conv)
  then show ?thesis by (simp only: splitN2_def list.case)
qed

lemma splitN2_sep: "c \<notin> set a \<Longrightarrow> splitN2 c (a @ c # b) = [a, b]"
proof -
  assume "c \<notin> set a"
  then have "\<forall>x\<in>set a. x \<noteq> c" by blast
  then show ?thesis by (simp add: splitN2_def dropWhile_append2 takeWhile_append2)
qed

lemma splitN2_cases:
  "(c \<notin> set s \<and> splitN2 c s = [s]) \<or>
   (\<exists>a b. s = a @ c # b \<and> c \<notin> set a \<and> splitN2 c s = [a, b])"
proof (cases "c \<in> set s")
  case True
  then obtain a b where "s = a @ c # b" "c \<notin> set a" by (meson split_list_first)
  then show ?thesis using splitN2_sep by blast
qed (simp add: splitN2_no_sep)

text \<open>\<open>strings.Split(s, sep)\<close> for a one-byte separator.\<close>

fun split_on :: "char \<Rightarrow> string \<Rightarrow> string list" where
  "split_on c [] = [[]]"
| "split_on c (x # xs) =
     (if x = c then [] # split_on c xs
      else (case split_on c xs of [] \<Rightarrow> [[x]] | p # ps \<Rightarrow> (x # p) # ps))"

fun join_with :: "string \<Rightarrow> string list \<Rightarrow> string" where
  "join_with sep [] = []"
| "join_with sep [s] = s"
| "join_with sep (s # t # ss) = s @ sep @ join_with sep (t # ss)"

lemma split_on_not_Nil [simp]: "split_on c s \<noteq> []"
  by (induction s) (auto split: list.splits)

lemma join_split_on: "join_with [c] (split_on c s) = s"
proof (induction s)
  case (Cons x xs)
  then show ?case
    by (cases "split_on c xs"; cases "tl (split_on c xs)") (auto split: list.splits)
qed simp

lemma split_on_no_sep: "p \<in> set (split_on c s) \<Longrightarrow> c \<notin> set p"
  by (induction s arbitrary: p) (auto split: if_splits list.splits)

lemma split_on_inj: "split_on c s = split_on c t \<Longrightarrow> s = t"
  by (metis join_split_on)

text \<open>\<open>strings.TrimSuffix\<close>.\<close>

definition trim_suffix :: "string \<Rightarrow> string \<Rightarrow> string" where
  "trim_suffix s suf =
     (if length suf \<le> length s \<and> drop (length s - length suf) s = suf
      then take (length s - length suf) s else s)"

section \<open>Spaces\<close>

text \<open>
  \<open>strings.TrimSpace\<close> removes the runes with \<open>unicode.IsSpace\<close> at both ends. \<open>space_len\<close> is the number
  of bytes of such a rune in UTF-8 at the front of a string, 0 when there is none there;
  \<open>space_len_rev\<close> reads the bytes from the end backwards.
\<close>

definition byte :: "char \<Rightarrow> nat" where
  "byte c = of_char c"

definition ascii_space :: "nat \<Rightarrow> bool" where
  "ascii_space b \<longleftrightarrow> b = 32 \<or> 9 \<le> b \<and> b \<le> 13"

definition utf8_space2 :: "nat \<Rightarrow> nat \<Rightarrow> bool" where
  "utf8_space2 a b \<longleftrightarrow> a = 194 \<and> (b = 133 \<or> b = 160)"

definition utf8_space3 :: "nat \<Rightarrow> nat \<Rightarrow> nat \<Rightarrow> bool" where
  "utf8_space3 a b c \<longleftrightarrow>
     a = 225 \<and> b = 154 \<and> c = 128 \<or>
     a = 226 \<and> b = 128 \<and> (128 \<le> c \<and> c \<le> 138 \<or> c = 168 \<or> c = 169 \<or> c = 175) \<or>
     a = 226 \<and> b = 129 \<and> c = 159 \<or>
     a = 227 \<and> b = 128 \<and> c = 128"

fun space_len :: "string \<Rightarrow> nat" where
  "space_len [] = 0"
| "space_len [a] = (if ascii_space (byte a) then 1 else 0)"
| "space_len [a, b] =
     (if ascii_space (byte a) then 1 else if utf8_space2 (byte a) (byte b) then 2 else 0)"
| "space_len (a # b # c # s) =
     (if ascii_space (byte a) then 1 else if utf8_space2 (byte a) (byte b) then 2
      else if utf8_space3 (byte a) (byte b) (byte c) then 3 else 0)"

fun space_len_rev :: "string \<Rightarrow> nat" where
  "space_len_rev [] = 0"
| "space_len_rev [a] = (if ascii_space (byte a) then 1 else 0)"
| "space_len_rev [a, b] =
     (if ascii_space (byte a) then 1 else if utf8_space2 (byte b) (byte a) then 2 else 0)"
| "space_len_rev (a # b # c # s) =
     (if ascii_space (byte a) then 1 else if utf8_space2 (byte b) (byte a) then 2
      else if utf8_space3 (byte c) (byte b) (byte a) then 3 else 0)"

lemma space_len_shrinks: "0 < space_len s \<Longrightarrow> length s - space_len s < length s"
  by (cases s) auto

lemma space_len_rev_shrinks:
  "0 < space_len_rev s \<Longrightarrow> length s - space_len_rev s < length s"
  by (cases s) auto

function trim_left :: "string \<Rightarrow> string" where
  "trim_left s = (if space_len s = 0 then s else trim_left (drop (space_len s) s))"
  by pat_completeness auto
termination
  by (relation "measure length") (auto simp: space_len_shrinks)

function trim_left_rev :: "string \<Rightarrow> string" where
  "trim_left_rev s = (if space_len_rev s = 0 then s else trim_left_rev (drop (space_len_rev s) s))"
  by pat_completeness auto
termination
  by (relation "measure length") (auto simp: space_len_rev_shrinks)

declare trim_left.simps [simp del] trim_left_rev.simps [simp del]

definition trim_right :: "string \<Rightarrow> string" where
  "trim_right s = rev (trim_left_rev (rev s))"

definition trim_space :: "string \<Rightarrow> string" where
  "trim_space s = trim_right (trim_left s)"

lemma trim_left_not_space: "space_len (trim_left s) = 0"
  by (induction s rule: trim_left.induct) (subst trim_left.simps, auto)

lemma trim_left_rev_not_space: "space_len_rev (trim_left_rev s) = 0"
  by (induction s rule: trim_left_rev.induct) (subst trim_left_rev.simps, auto)

lemma trim_left_id: "space_len s = 0 \<Longrightarrow> trim_left s = s"
  by (simp add: trim_left.simps)

lemma trim_right_id: "space_len_rev (rev s) = 0 \<Longrightarrow> trim_right s = s"
  by (simp add: trim_right_def trim_left_rev.simps)

lemma trim_space_id: "space_len s = 0 \<Longrightarrow> space_len_rev (rev s) = 0 \<Longrightarrow> trim_space s = s"
  by (simp add: trim_space_def trim_left_id trim_right_id)

lemma trim_left_suffix: "\<exists>p. s = p @ trim_left s"
proof (induction s rule: trim_left.induct)
  case (1 s)
  show ?case
  proof (cases "space_len s = 0")
    case False
    with 1 obtain p where "drop (space_len s) s = p @ trim_left (drop (space_len s) s)" by blast
    then have "s = (take (space_len s) s @ p) @ trim_left (drop (space_len s) s)"
      by (metis append.assoc append_take_drop_id)
    with False show ?thesis by (metis trim_left.simps)
  qed (simp add: trim_left.simps)
qed

section \<open>Decimal numbers\<close>

fun dec_digits :: "nat \<Rightarrow> nat list" where
  "dec_digits n = (if n < 10 then [n] else dec_digits (n div 10) @ [n mod 10])"

declare dec_digits.simps [simp del]

definition digit_char :: "nat \<Rightarrow> char" where
  "digit_char d = char_of (48 + d)"

text \<open>\<open>%d\<close> of a non-negative number, and \<open>strconv.FormatInt(i, 10)\<close>.\<close>

definition fmt_nat :: "nat \<Rightarrow> string" where
  "fmt_nat n = List.map digit_char (dec_digits n)"

definition format_int :: "int \<Rightarrow> string" where
  "format_int i = (if i < 0 then CHR ''-'' # fmt_nat (nat (- i)) else fmt_nat (nat i))"

definition is_digit :: "char \<Rightarrow> bool" where
  "is_digit c \<longleftrightarrow> 48 \<le> byte c \<and> byte c \<le> 57"

fun parse_digits :: "nat \<Rightarrow> string \<Rightarrow> nat option" where
  "parse_digits acc [] = Some acc"
| "parse_digits acc (c # cs) =
     (if is_digit c then parse_digits (10 * acc + (byte c - 48)) cs else None)"

definition parse_nat :: "string \<Rightarrow> nat option" where
  "parse_nat s = (if s = [] then None else parse_digits 0 s)"

lemma dec_digits_small: "d \<in> set (dec_digits n) \<Longrightarrow> d < 10"
proof (induction n rule: dec_digits.induct)
  case (1 n)
  then show ?case by (cases "n < 10") (auto simp: dec_digits.simps [of n])
qed

lemma dec_digits_not_Nil [simp]: "dec_digits n \<noteq> []"
  by (subst dec_digits.simps) simp

lemma byte_digit_char: "d < 10 \<Longrightarrow> byte (digit_char d) = 48 + d"
  by (simp add: byte_def digit_char_def)

lemma is_digit_digit_char: "d < 10 \<Longrightarrow> is_digit (digit_char d)"
  by (simp add: is_digit_def byte_digit_char)

lemma parse_digits_append:
  "parse_digits acc (a @ b) = Option.bind (parse_digits acc a) (\<lambda>acc'. parse_digits acc' b)"
  by (induction a arbitrary: acc) auto

lemma parse_digits_dec_digits:
  "parse_digits 0 (List.map digit_char (dec_digits n)) = Some n"
proof (induction n rule: dec_digits.induct)
  case (1 n)
  show ?case
  proof (cases "n < 10")
    case True
    then show ?thesis by (simp add: dec_digits.simps [of n] is_digit_digit_char byte_digit_char)
  next
    case False
    with 1 show ?thesis
      by (simp add: dec_digits.simps [of n] parse_digits_append is_digit_digit_char byte_digit_char)
  qed
qed

lemma fmt_nat_not_Nil [simp]: "fmt_nat n \<noteq> []"
  by (simp add: fmt_nat_def)

lemma parse_fmt_nat [simp]: "parse_nat (fmt_nat n) = Some n"
  using parse_digits_dec_digits [of n] by (simp add: parse_nat_def fmt_nat_def)

lemma fmt_nat_inj [simp]: "fmt_nat m = fmt_nat n \<longleftrightarrow> m = n"
  by (metis option.inject parse_fmt_nat)

lemma fmt_nat_digits: "c \<in> set (fmt_nat n) \<Longrightarrow> is_digit c"
  by (auto simp: fmt_nat_def dest!: dec_digits_small intro: is_digit_digit_char)

lemma not_digit_minus [simp]: "\<not> is_digit CHR ''-''" "\<not> is_digit CHR ''+''" "\<not> is_digit CHR ''.''"
  by (simp_all add: is_digit_def byte_def)

lemma fmt_nat_hd_not_sign: "fmt_nat n \<noteq> CHR ''-'' # s" "fmt_nat n \<noteq> CHR ''+'' # s"
  by (metis fmt_nat_digits list.set_intros(1) not_digit_minus)+

lemma format_int_inj [simp]: "format_int i = format_int j \<longleftrightarrow> i = j"
  by (auto simp: format_int_def fmt_nat_hd_not_sign fmt_nat_hd_not_sign [symmetric])

text \<open>Evaluation of printed numbers.\<close>

lemma digit_char_eval:
  "digit_char 0 = CHR ''0''" "digit_char 1 = CHR ''1''" "digit_char (Suc 0) = CHR ''1''"
  "digit_char 2 = CHR ''2''" "digit_char 3 = CHR ''3''" "digit_char 4 = CHR ''4''"
  "digit_char 5 = CHR ''5''" "digit_char 6 = CHR ''6''" "digit_char 7 = CHR ''7''"
  "digit_char 8 = CHR ''8''" "digit_char 9 = CHR ''9''"
  by code_simp+

lemma fmt_nat_step:
  "fmt_nat n = (if n < 10 then [digit_char n] else fmt_nat (n div 10) @ [digit_char (n mod 10)])"
  by (simp add: fmt_nat_def dec_digits.simps [of n])

lemmas fmt_nat_eval = fmt_nat_step [of "numeral k"] fmt_nat_step [of 0] fmt_nat_step [of 1] fmt_nat_step [of "Suc 0"] digit_char_eval for k

text \<open>
  \<open>strconv.ParseInt(s, 10, 64)\<close> (and \<open>strconv.Atoi\<close>, which accepts and rejects the same strings on
  a 64-bit machine), with \<open>None\<close> for a syntax or a range error.
\<close>

definition parse_int64 :: "string \<Rightarrow> int option" where
  "parse_int64 s =
     (case s of
        [] \<Rightarrow> None
      | c # cs \<Rightarrow>
          let neg = (c = CHR ''-''); ds = (if neg \<or> c = CHR ''+'' then cs else s) in
          case parse_nat ds of
            None \<Rightarrow> None
          | Some n \<Rightarrow>
              if neg then (if n \<le> 2 ^ 63 then Some (- int n) else None)
              else (if n < 2 ^ 63 then Some (int n) else None))"

lemma parse_int64_range: "parse_int64 s = Some i \<Longrightarrow> - (2 ^ 63) \<le> i \<and> i < 2 ^ 63"
  by (auto simp: parse_int64_def Let_def split: list.splits option.splits if_splits)

lemma parse_format_int64:
  assumes "- (2 ^ 63) \<le> i" and "i < 2 ^ 63"
  shows "parse_int64 (format_int i) = Some i"
proof (cases "i < 0")
  case True
  with assms(1) show ?thesis by (simp add: parse_int64_def format_int_def)
next
  case False
  obtain c cs where cs: "fmt_nat (nat i) = c # cs" by (cases "fmt_nat (nat i)") auto
  have "is_digit c" using fmt_nat_digits [of c "nat i"] cs by simp
  then have "c \<noteq> CHR ''-''" "c \<noteq> CHR ''+''" by auto
  with False assms(2) cs parse_fmt_nat [of "nat i"] show ?thesis
    by (simp add: parse_int64_def format_int_def)
qed

section \<open>Quoting\<close>

text \<open>
  \<open>strconv.Quote\<close>, which the verb \<open>q\<close> uses. Printable runes stand for themselves; this model escapes
  the ASCII control characters and leaves the bytes from 128 on as they are (Go escapes those that
  are not a printable rune).
\<close>

definition hex_char :: "nat \<Rightarrow> char" where
  "hex_char d = (if d < 10 then char_of (48 + d) else char_of (87 + d))"

definition quote_char :: "char \<Rightarrow> string" where
  "quote_char c =
     (let b = byte c; bs = CHR 0x5C in
      if b = 34 \<or> b = 92 then [bs, c]
      else if b = 7 then [bs, CHR ''a''] else if b = 8 then [bs, CHR ''b'']
      else if b = 9 then [bs, CHR ''t''] else if b = 10 then [bs, CHR ''n'']
      else if b = 11 then [bs, CHR ''v''] else if b = 12 then [bs, CHR ''f'']
      else if b = 13 then [bs, CHR ''r'']
      else if b < 32 \<or> b = 127 then [bs, CHR ''x'', hex_char (b div 16), hex_char (b mod 16)]
      else [c])"

definition go_quote :: "string \<Rightarrow> string" where
  "go_quote s = [CHR 0x22] @ concat (List.map quote_char s) @ [CHR 0x22]"

section \<open>Repeating and replacing\<close>

text \<open>\<open>strings.Repeat\<close> panics on a negative count; \<open>strings.ReplaceAll\<close> is given here for a one-byte pattern.\<close>

definition go_repeat :: "string \<Rightarrow> int \<Rightarrow> string result" where
  "go_repeat s n = (if n < 0 then Panic NegativeRepeat else Ok (concat (replicate (nat n) s)))"

definition replace_all :: "char \<Rightarrow> string \<Rightarrow> string \<Rightarrow> string" where
  "replace_all c new s = concat (List.map (\<lambda>x. if x = c then new else [x]) s)"

lemma go_repeat_no_panic [simp]: "no_panic (go_repeat s n) \<longleftrightarrow> 0 \<le> n"
  by (simp add: go_repeat_def)

lemma split_on_append_no_sep:
  assumes "c \<notin> set p"
  shows "split_on c (p @ s) = (p @ hd (split_on c s)) # tl (split_on c s)"
  using assms by (induction p) (auto simp: hd_Cons_tl split: list.splits)

text \<open>Replacing every separator by itself and a pad puts the pad in front of every later part.\<close>

lemma split_on_replace_all:
  assumes "c \<notin> set pad"
  shows "split_on c (replace_all c (c # pad) s) =
    hd (split_on c s) # List.map ((@) pad) (tl (split_on c s))"
proof (induction s)
  case (Cons x s)
  have rep: "replace_all c (c # pad) (x # s) =
      (if x = c then c # pad @ replace_all c (c # pad) s else x # replace_all c (c # pad) s)"
    by (simp add: replace_all_def)
  obtain h t where ht: "split_on c s = h # t" by (cases "split_on c s") auto
  with Cons have IH: "split_on c (replace_all c (c # pad) s) = h # List.map ((@) pad) t" by simp
  show ?case
    by (simp add: rep split_on_append_no_sep [OF assms] ht IH)
qed (simp add: replace_all_def)

end
