(* ===== verification/Quantity.thy ===== *)
theory Quantity
  imports GoStrings "HOL-Library.Word" "HOL-Library.Signed_Division"
begin

text \<open>
  The observers of \<open>resource.Quantity\<close> that the operator uses, \<open>Sign\<close>, \<open>Value\<close> and \<open>String\<close>, from the
  copy of \<open>k8s.io/apimachinery/pkg/api/resource\<close> under \<open>src/vendor\<close>. A quantity is an \<open>int64Amount\<close>
  (value times a power of ten) or an \<open>inf.Dec\<close> (unscaled big integer and decimal scale). \<open>Value\<close> is
  kept at 64 bits with the overflows of the code: \<open>ScaledValue\<close> drops the flag that reports them.
  The text of a quantity (\<open>String\<close>) is an observer of its own, since only error messages use it.
\<close>

type_synonym int64 = "64 word"

definition go_div :: "int64 \<Rightarrow> int64 \<Rightarrow> int64" where
  "go_div a b = word_of_int (sint a sdiv sint b)"

definition go_mod :: "int64 \<Rightarrow> int64 \<Rightarrow> int64" where
  "go_mod a b = word_of_int (sint a smod sint b)"

definition mostNegative :: int64 where
  "mostNegative = word_of_int (- (2 ^ 63))"

datatype amount =
    Int64Amount int64 int
  | InfDecAmount int int

record quantity =
  q_amount :: amount
  q_string :: string

section \<open>Scaling\<close>

definition int64MultiplyScale :: "int64 \<Rightarrow> int64 \<Rightarrow> int64 \<times> bool" where
  "int64MultiplyScale a b =
     (if a = 0 \<or> a = 1 then (a * b, True)
      else if a = mostNegative \<and> b \<noteq> 1 then (0, False)
      else let c = a * b in (c, go_div c b = a))"

fun positiveScale_loop :: "nat \<Rightarrow> int64 \<Rightarrow> int64 \<times> bool" where
  "positiveScale_loop 0 v = (v, True)"
| "positiveScale_loop (Suc n) v =
     (let (v', ok) = int64MultiplyScale v 10
      in if ok then positiveScale_loop n v' else (0, False))"

definition positiveScaleInt64 :: "int64 \<Rightarrow> int \<Rightarrow> int64 \<times> bool" where
  "positiveScaleInt64 base scale =
     (if scale = 0 then (base, True)
      else if scale = 1 then int64MultiplyScale base 10
      else if scale = 2 then int64MultiplyScale base 100
      else if scale = 3 then int64MultiplyScale base 1000
      else if scale = 6 then int64MultiplyScale base 1000000
      else if scale = 9 then int64MultiplyScale base 1000000000
      else positiveScale_loop (nat scale) base)"

fun negativeScale_loop :: "nat \<Rightarrow> int64 \<Rightarrow> int64 \<Rightarrow> bool \<Rightarrow> int64 \<times> bool" where
  "negativeScale_loop 0 base v fraction =
     (if fraction then (if 0 <s base then v + 1 else v - 1, False) else (v, True))"
| "negativeScale_loop (Suc n) base v fraction =
     (let fraction' = (fraction \<or> go_mod v 10 \<noteq> 0); v' = go_div v 10
      in if v' = 0
         then (if fraction' then (if 0 <s base then 1 else - 1, False) else (0, True))
         else negativeScale_loop n base v' fraction')"

definition negativeScaleInt64 :: "int64 \<Rightarrow> int \<Rightarrow> int64 \<times> bool" where
  "negativeScaleInt64 base scale =
     (if scale = 0 then (base, True) else negativeScale_loop (nat scale) base base False)"

definition asScaledInt64 :: "int64 \<Rightarrow> int \<Rightarrow> int \<Rightarrow> int64 \<times> bool" where
  "asScaledInt64 v vscale scale =
     (if vscale < scale then (fst (negativeScaleInt64 v (scale - vscale)), True)
      else positiveScaleInt64 v (vscale - scale))"

text \<open>
  \<open>int64(math.Pow10(n))\<close>: exact up to \<open>10 ^ 18\<close>; a larger power does not fit and converts to the
  smallest \<open>int64\<close> on amd64 (Go leaves the value to the implementation).
\<close>

definition pow10_int64 :: "nat \<Rightarrow> int64" where
  "pow10_int64 n = (if n \<le> 18 then word_of_int (10 ^ n) else mostNegative)"

definition scaledValue :: "int \<Rightarrow> int \<Rightarrow> int \<Rightarrow> int64" where
  "scaledValue unscaled scale newScale =
     (let dif = scale - newScale in
      if dif = 0 then word_of_int unscaled
      else if dif < 0 then word_of_int unscaled * pow10_int64 (nat (- dif))
      else if unscaled < 2 ^ 63 - 1 \<and> dif < 19 then
        (let divide = pow10_int64 (nat dif); u = word_of_int unscaled; result = go_div u divide
         in if go_mod u divide \<noteq> 0 then result + 1 else result)
      else
        (let divisor = 10 ^ nat dif; result = unscaled div divisor
         in if unscaled mod divisor \<noteq> 0 then word_of_int result + 1 else word_of_int result))"

section \<open>Observers\<close>

fun amount_sign :: "amount \<Rightarrow> int" where
  "amount_sign (Int64Amount v s) = (if v = 0 then 0 else if 0 <s v then 1 else - 1)"
| "amount_sign (InfDecAmount u s) = sgn u"

definition quantity_Sign :: "quantity \<Rightarrow> int" where
  "quantity_Sign q = amount_sign (q_amount q)"

fun amount_scaledValue :: "amount \<Rightarrow> int \<Rightarrow> int64" where
  "amount_scaledValue (Int64Amount v s) scale = fst (asScaledInt64 v s scale)"
| "amount_scaledValue (InfDecAmount u s) scale = scaledValue u s (- scale)"

definition quantity_Value :: "quantity \<Rightarrow> int64" where
  "quantity_Value q = amount_scaledValue (q_amount q) 0"

definition quantity_String :: "quantity \<Rightarrow> string" where
  "quantity_String q = q_string q"

section \<open>Exactness below the 64-bit bound\<close>

lemma sint_of_range: "- (2 ^ 63) \<le> i \<Longrightarrow> i < 2 ^ 63 \<Longrightarrow> sint (word_of_int i :: int64) = i"
  by (simp add: sint_sbintrunc' signed_take_bit_int_eq_self)

lemma sint_int64_range: "- (2 ^ 63) \<le> sint (w :: int64)" "sint (w :: int64) < 2 ^ 63"
  using sint_ge [of w] sint_lt [of w] by simp_all

lemma word_of_sint: "word_of_int (sint (w :: int64)) = w"
  by simp

lemma sint_mult_exact:
  fixes a b :: int64
  assumes "- (2 ^ 63) \<le> sint a * sint b" and "sint a * sint b < 2 ^ 63"
  shows "sint (a * b) = sint a * sint b"
proof -
  have "word_of_int (sint a * sint b) = a * b" by simp
  then show ?thesis using sint_of_range [OF assms] by simp
qed

lemma sdiv_mult_self: "b \<noteq> 0 \<Longrightarrow> (a * b) sdiv b = (a :: int)"
  by (simp add: signed_divide_int_def sgn_mult abs_mult mult.assoc)
     (metis abs_sgn mult.commute mult.left_neutral mult_sgn_abs sgn_mult sgn_sgn zero_neq_one sgn_eq_0_iff
        linorder_neqE_linordered_idom sgn_neg sgn_pos minus_mult_minus)

lemma int64MultiplyScale_exact:
  assumes "- (2 ^ 63) < sint a * sint b" and "sint a * sint b < 2 ^ 63" and "1 < sint b"
  shows "sint (fst (int64MultiplyScale a b)) = sint a * sint b" "snd (int64MultiplyScale a b)"
proof -
  have ab: "sint (a * b) = sint a * sint b" using assms by (intro sint_mult_exact) auto
  have neg: "a \<noteq> mostNegative"
  proof
    assume "a = mostNegative"
    then have "sint a = - (2 ^ 63)" unfolding mostNegative_def by (simp add: sint_of_range)
    with assms(1,3) show False by simp
  qed
  have "go_div (a * b) b = a"
    using assms(3) by (simp add: go_div_def ab sdiv_mult_self)
  with ab neg show "sint (fst (int64MultiplyScale a b)) = sint a * sint b" "snd (int64MultiplyScale a b)"
    by (auto simp: int64MultiplyScale_def Let_def)
qed

lemma positiveScale_loop_exact:
  "\<bar>sint v * 10 ^ n\<bar> < 2 ^ 63 \<Longrightarrow>
     sint (fst (positiveScale_loop n v)) = sint v * 10 ^ n \<and> snd (positiveScale_loop n v)"
proof (induction n arbitrary: v)
  case (Suc n)
  have le: "\<bar>sint v * 10\<bar> \<le> \<bar>sint v * 10 ^ Suc n\<bar>"
    using mult_left_mono [of 1 "10 ^ n" "\<bar>sint v * 10\<bar>"] by (simp add: abs_mult)
  have ten: "sint (10 :: int64) = 10" by simp
  have step: "sint (fst (int64MultiplyScale v 10)) = sint v * 10" "snd (int64MultiplyScale v 10)"
    using int64MultiplyScale_exact [of v 10] le Suc.prems ten by auto
  then show ?case
    using Suc.IH [of "fst (int64MultiplyScale v 10)"] Suc.prems
    by (cases "int64MultiplyScale v 10") (simp add: mult.assoc)
qed simp

lemma positiveScaleInt64_exact:
  assumes "0 \<le> s" and "\<bar>sint v * 10 ^ nat s\<bar> < 2 ^ 63"
  shows "sint (fst (positiveScaleInt64 v s)) = sint v * 10 ^ nat s"
proof -
  have c: "sint (fst (int64MultiplyScale v b)) = sint v * sint b"
    if "sint b = 10 ^ nat s" and "1 < sint b" for b
    using int64MultiplyScale_exact [of v b] assms(2) that by auto
  show ?thesis
    using assms c [of 10] c [of 100] c [of 1000] c [of 1000000] c [of 1000000000]
      positiveScale_loop_exact [of v "nat s"]
    by (auto simp: positiveScaleInt64_def)
qed

text \<open>\<open>Value\<close> is exact on an \<open>int64Amount\<close> of non-negative scale that fits 64 bits.\<close>

lemma quantity_Value_exact:
  assumes "q_amount q = Int64Amount v s" and "0 \<le> s" and "\<bar>sint v * 10 ^ nat s\<bar> < 2 ^ 63"
  shows "sint (quantity_Value q) = sint v * 10 ^ nat s"
  using assms positiveScaleInt64_exact [of s v] by (simp add: quantity_Value_def asScaledInt64_def)

lemma quantity_Sign_pos: "q_amount q = Int64Amount v s \<Longrightarrow> quantity_Sign q \<le> 0 \<longleftrightarrow> sint v \<le> 0"
proof -
  have "v = 0 \<longleftrightarrow> sint v = 0" by (metis of_int_0 signed_0 word_of_sint)
  then show "q_amount q = Int64Amount v s \<Longrightarrow> quantity_Sign q \<le> 0 \<longleftrightarrow> sint v \<le> 0"
    by (simp add: quantity_Sign_def word_sless_alt)
qed

end
