(* ===== verification/ApiTypes.thy ===== *)
theory ApiTypes
  imports Quantity
begin

text \<open>
  The \<open>NodeSwap\<close> custom resource of \<open>src/api/v1alpha1/nodeswap_types.go\<close>, with the parts of the
  Kubernetes metadata and condition types that the operator reads or writes. A Go pointer is an
  \<^typ>\<open>'a option\<close> (\<open>nil\<close> is \<open>None\<close>), a Go map that may be \<open>nil\<close> an optional map.
\<close>

type_synonym swapType = string

definition FileBasedSwap :: swapType where "FileBasedSwap = ''file''"
definition SwapOnZram :: swapType where "SwapOnZram = ''zram''"
definition SwapOnDisk :: swapType where "SwapOnDisk = ''disk''"

lemmas swapType_defs = FileBasedSwap_def SwapOnZram_def SwapOnDisk_def

record swapFile =
  sf_Path :: string
  sf_Size :: quantity

record swapPartition =
  pt_PartLabel :: string

record swapZram =
  sz_Size :: quantity

record swapDisk =
  sd_SwapPartition :: swapPartition

record swapSpec =
  sw_Priority :: "32 word"
  sw_SwapType :: swapType
  sw_Disk :: "swapDisk option"
  sw_File :: "swapFile option"
  sw_Zram :: "swapZram option"

type_synonym swaps = "swapSpec list"

record nodeSwapSpec =
  sp_MachineConfigPoolSelector :: string
  sp_Swaps :: swaps
  sp_LogLevel :: "32 word option"

text \<open>\<open>metav1.Condition\<close>; the zero time is \<open>None\<close>.\<close>

record condition =
  c_Type :: string
  c_Status :: string
  c_ObservedGeneration :: int
  c_LastTransitionTime :: "int option"
  c_Reason :: string
  c_Message :: string

record nodeSwapStatus =
  st_Conditions :: "condition list"

text \<open>
  Of \<open>metav1.ObjectMeta\<close> what the operator and the machinery around it use. A resource version is opaque
  to every client; here it is the number of the write that stored the object.
\<close>

record ownerReference =
  or_APIVersion :: string
  or_Kind :: string
  or_Name :: string
  or_Controller :: "bool option"

record objectMeta =
  om_Name :: string
  om_Namespace :: string
  om_Labels :: "(string \<rightharpoonup> string) option"
  om_ResourceVersion :: nat
  om_OwnerReferences :: "ownerReference list"

text \<open>\<open>ObjectMeta{Name: name, Labels: labels}\<close>, everything else at its zero value.\<close>

abbreviation new_meta :: "string \<Rightarrow> (string \<rightharpoonup> string) option \<Rightarrow> objectMeta" where
  "new_meta name labels \<equiv> \<lparr>om_Name = name, om_Namespace = [], om_Labels = labels,
     om_ResourceVersion = 0, om_OwnerReferences = []\<rparr>"

record nodeSwap =
  ns_Meta :: objectMeta
  ns_Spec :: nodeSwapSpec
  ns_Status :: nodeSwapStatus

definition ConditionTrue :: string where "ConditionTrue = ''True''"
definition ConditionFalse :: string where "ConditionFalse = ''False''"

lemma condition_status_neq [simp]: "ConditionTrue \<noteq> ConditionFalse" "ConditionFalse \<noteq> ConditionTrue"
  by (simp_all add: ConditionTrue_def ConditionFalse_def)

end
