(* ===== verification/Semver.thy ===== *)
theory Semver
  imports GoStrings "HOL-Library.Product_Lexorder" "HOL-Library.Multiset"
begin

text \<open>
  \<open>semver.Version\<close> of \<open>github.com/coreos/go-semver\<close> (the copy under \<open>src/vendor\<close>), which the Ignition
  converter uses as its notion of a version: parsing, printing, \<open>Compare\<close> and \<open>Sort\<close>. The lemmas
  show that \<open>Compare\<close> is the comparison of a key in a linear order, so that it meets the contract
  \<open>version_order\<close> on which the converter's path search relies.
\<close>

section \<open>The interface\<close>

text \<open>What a client of a version comparison may use: it is antisymmetric and transitive.\<close>

locale version_order =
  fixes cmp :: "'v \<Rightarrow> 'v \<Rightarrow> int"
  assumes cmp_swap: "sgn (cmp b a) = - sgn (cmp a b)"
    and cmp_trans: "cmp a b \<le> 0 \<Longrightarrow> cmp b c \<le> 0 \<Longrightarrow> cmp a c \<le> 0"
begin

lemma cmp_refl: "cmp a a = 0"
  using cmp_swap [of a a] by (simp add: sgn_if split: if_splits)

lemma cmp_le_swap: "cmp b a \<le> 0 \<longleftrightarrow> 0 \<le> cmp a b"
  using cmp_swap [where a = a and b = b] by (auto simp: sgn_if split: if_splits)

lemma cmp_gt_swap: "0 < cmp b a \<longleftrightarrow> cmp a b < 0"
  using cmp_le_swap [of b a] by auto

lemma cmp_gt_trans: "0 < cmp a b \<Longrightarrow> 0 < cmp b c \<Longrightarrow> 0 < cmp a c"
  by (metis cmp_le_swap cmp_trans not_le order_le_less)

text \<open>A hop extends a way in its own direction: \<open>cmp a b \<le> 0\<close> is "upwards".\<close>

lemma direction_extends:
  assumes "(cmp a b \<le> 0) = (cmp b c \<le> 0)"
  shows "(cmp a c \<le> 0) = (cmp a b \<le> 0)"
  using assms cmp_trans [of a b c] cmp_gt_trans [of a b c] by (auto simp: not_le)

end

section \<open>Versions\<close>

record version =
  v_Major :: int
  v_Minor :: int
  v_Patch :: int
  v_PreRelease :: string
  v_Metadata :: string

definition mkVersion :: "int \<Rightarrow> int \<Rightarrow> version" where
  "mkVersion major minor =
     \<lparr>v_Major = major, v_Minor = minor, v_Patch = 0, v_PreRelease = [], v_Metadata = []\<rparr>"

text \<open>\<open>splitOff\<close>: the part before the delimiter and the part after it, empty when there is none.\<close>

definition splitOff :: "string \<Rightarrow> char \<Rightarrow> string \<times> string" where
  "splitOff input delim = (case splitN2 delim input of [a, b] \<Rightarrow> (a, b) | _ \<Rightarrow> (input, []))"

definition ident_char :: "char \<Rightarrow> bool" where
  "ident_char c \<longleftrightarrow> is_digit c \<or> 65 \<le> byte c \<and> byte c \<le> 90 \<or> 97 \<le> byte c \<and> byte c \<le> 122 \<or> c = CHR ''-''"

text \<open>The regular expression \<open>^[0-9A-Za-z-]+(\.[0-9A-Za-z-]+)*$\<close>, or the empty string.\<close>

definition validIdentifier :: "string \<Rightarrow> bool" where
  "validIdentifier s \<longleftrightarrow> s = [] \<or> list_all (\<lambda>p. p \<noteq> [] \<and> list_all ident_char p) (split_on CHR ''.'' s)"

definition parse_part :: "string \<Rightarrow> int result" where
  "parse_part s =
     (case parse_int64 s of
        Some i \<Rightarrow> Ok i
      | None \<Rightarrow> Err (ErrText (''strconv.ParseInt: parsing '' @ go_quote s)))"

definition NewVersion :: "string \<Rightarrow> version result" where
  "NewVersion s =
     (let (s1, metadata) = splitOff s CHR ''+''; (s2, preRelease) = splitOff s1 CHR ''-'' in
      case splitN2 CHR ''.'' s2 of
        [a, rest] \<Rightarrow>
          (case splitN2 CHR ''.'' rest of
             [b, c] \<Rightarrow>
               if \<not> validIdentifier preRelease
               then Err (ErrText (''failed to validate pre-release: '' @ preRelease @ '' is not a valid semver identifier''))
               else if \<not> validIdentifier metadata
               then Err (ErrText (''failed to validate metadata: '' @ metadata @ '' is not a valid semver identifier''))
               else rbind (parse_part a) (\<lambda>major. rbind (parse_part b) (\<lambda>minor. rbind (parse_part c) (\<lambda>patch.
                 Ok \<lparr>v_Major = major, v_Minor = minor, v_Patch = patch,
                     v_PreRelease = preRelease, v_Metadata = metadata\<rparr>)))
           | _ \<Rightarrow> Err (ErrText (s2 @ '' is not in dotted-tri format'')))
      | _ \<Rightarrow> Err (ErrText (s2 @ '' is not in dotted-tri format'')))"

text \<open>\<open>semver.New\<close> panics where \<open>NewVersion\<close> fails.\<close>

definition semver_New :: "string \<Rightarrow> version result" where
  "semver_New s = (case NewVersion s of Ok v \<Rightarrow> Ok v | Err e \<Rightarrow> Panic (SemverMust e) | Panic p \<Rightarrow> Panic p)"

definition version_String :: "version \<Rightarrow> string" where
  "version_String v =
     format_int (v_Major v) @ ''.'' @ format_int (v_Minor v) @ ''.'' @ format_int (v_Patch v)
     @ (if v_PreRelease v \<noteq> [] then ''-'' @ v_PreRelease v else [])
     @ (if v_Metadata v \<noteq> [] then ''+'' @ v_Metadata v else [])"

section \<open>Comparison\<close>

text \<open>\<open>Slice\<close> always has three elements, so the two slices are walked in step.\<close>

definition version_Slice :: "version \<Rightarrow> int list" where
  "version_Slice v = [v_Major v, v_Minor v, v_Patch v]"

fun recursiveCompare :: "(int \<times> int) list \<Rightarrow> int" where
  "recursiveCompare [] = 0"
| "recursiveCompare ((a, b) # rest) =
     (if a > b then 1 else if a < b then - 1 else recursiveCompare rest)"

fun recursivePreReleaseCompare :: "string list \<Rightarrow> string list \<Rightarrow> int" where
  "recursivePreReleaseCompare [] bs = (if bs \<noteq> [] then - 1 else 0)"
| "recursivePreReleaseCompare (a # as) [] = 1"
| "recursivePreReleaseCompare (a # as) (b # bs) =
     (case (parse_int64 a, parse_int64 b) of
        (Some _, None) \<Rightarrow> - 1
      | (None, Some _) \<Rightarrow> 1
      | (Some aI, Some bI) \<Rightarrow>
          if aI > bI then 1 else if aI < bI then - 1
          else if a > b then 1 else if a < b then - 1 else recursivePreReleaseCompare as bs
      | (None, None) \<Rightarrow>
          if a > b then 1 else if a < b then - 1 else recursivePreReleaseCompare as bs)"

definition preReleaseCompare :: "version \<Rightarrow> version \<Rightarrow> int" where
  "preReleaseCompare versionA versionB =
     (let a = v_PreRelease versionA; b = v_PreRelease versionB in
      if a = [] \<and> b \<noteq> [] then 1
      else if b = [] \<and> a \<noteq> [] then - 1
      else recursivePreReleaseCompare (split_on CHR ''.'' a) (split_on CHR ''.'' b))"

definition version_Compare :: "version \<Rightarrow> version \<Rightarrow> int" where
  "version_Compare v w =
     (let cmp = recursiveCompare (zip (version_Slice v) (version_Slice w))
      in if cmp \<noteq> 0 then cmp else preReleaseCompare v w)"

definition version_Equal :: "version \<Rightarrow> version \<Rightarrow> bool" where
  "version_Equal v w \<longleftrightarrow> version_Compare v w = 0"

definition version_LessThan :: "version \<Rightarrow> version \<Rightarrow> bool" where
  "version_LessThan v w \<longleftrightarrow> version_Compare v w < 0"

text \<open>
  \<open>semver.Sort\<close> is \<open>sort.Sort\<close>, which is an insertion sort on the short lists used here (up to twelve
  elements): each element moves left past the greater ones. \<open>insert_rev\<close> works on the sorted prefix
  read backwards.
\<close>

fun insert_rev :: "('a \<Rightarrow> 'a \<Rightarrow> bool) \<Rightarrow> 'a \<Rightarrow> 'a list \<Rightarrow> 'a list" where
  "insert_rev lt x [] = [x]"
| "insert_rev lt x (y # ys) = (if lt x y then y # insert_rev lt x ys else x # y # ys)"

definition semver_Sort :: "version list \<Rightarrow> version list" where
  "semver_Sort vs = rev (fold (insert_rev version_LessThan) vs [])"

section \<open>The key order\<close>

text \<open>
  A pre-release identifier as an ordered value: numeric identifiers come first, by number and then
  by spelling (\<open>01\<close> after \<open>1\<close>), the others by spelling.
\<close>

datatype ident = NumIdent int string | AlphaIdent string

instantiation ident :: linorder
begin

fun less_ident :: "ident \<Rightarrow> ident \<Rightarrow> bool" where
  "less_ident (NumIdent i s) (NumIdent j t) = (i < j \<or> i = j \<and> s < t)"
| "less_ident (NumIdent i s) (AlphaIdent t) = True"
| "less_ident (AlphaIdent s) (NumIdent j t) = False"
| "less_ident (AlphaIdent s) (AlphaIdent t) = (s < t)"

definition less_eq_ident :: "ident \<Rightarrow> ident \<Rightarrow> bool" where
  "less_eq_ident x y \<longleftrightarrow> x < y \<or> x = y"

instance
proof
  fix x y z :: ident
  show lt: "(x < y) = (x \<le> y \<and> \<not> y \<le> x)"
    by (cases x; cases y) (auto simp: less_eq_ident_def)
  show "x \<le> x" by (simp add: less_eq_ident_def)
  show "x \<le> y \<Longrightarrow> y \<le> z \<Longrightarrow> x \<le> z"
    by (cases x; cases y; cases z) (auto simp: less_eq_ident_def)
  show "x \<le> y \<Longrightarrow> y \<le> x \<Longrightarrow> x = y" using lt by (metis less_eq_ident_def)
  show "x \<le> y \<or> y \<le> x"
    by (cases x; cases y) (auto simp: less_eq_ident_def)
qed

end

definition ident_of :: "string \<Rightarrow> ident" where
  "ident_of s = (case parse_int64 s of Some i \<Rightarrow> NumIdent i s | None \<Rightarrow> AlphaIdent s)"

lemma ident_of_inj: "ident_of s = ident_of t \<Longrightarrow> s = t"
  by (auto simp: ident_of_def split: option.splits)

definition key_cmp :: "'k::linorder \<Rightarrow> 'k \<Rightarrow> int" where
  "key_cmp x y = (if x < y then - 1 else if x = y then 0 else 1)"

lemma recursivePreReleaseCompare_key:
  "recursivePreReleaseCompare as bs = key_cmp (List.map ident_of as) (List.map ident_of bs)"
proof (induction as bs rule: recursivePreReleaseCompare.induct)
  case (3 a as b bs)
  then show ?case
    by (auto simp: key_cmp_def ident_of_def split: option.splits)
qed (auto simp: key_cmp_def neq_Nil_conv)

definition pre_key :: "string \<Rightarrow> nat \<times> ident list" where
  "pre_key p = (if p = [] then (1, []) else (0, List.map ident_of (split_on CHR ''.'' p)))"

definition version_key :: "version \<Rightarrow> int \<times> int \<times> int \<times> nat \<times> ident list" where
  "version_key v = (v_Major v, v_Minor v, v_Patch v, pre_key (v_PreRelease v))"

lemma preReleaseCompare_key:
  "preReleaseCompare v w = key_cmp (pre_key (v_PreRelease v)) (pre_key (v_PreRelease w))"
  by (auto simp: preReleaseCompare_def pre_key_def recursivePreReleaseCompare_key key_cmp_def Let_def
      less_prod_def)

lemma version_Compare_key: "version_Compare v w = key_cmp (version_key v) (version_key w)"
  by (auto simp: version_Compare_def version_Slice_def version_key_def preReleaseCompare_key
      key_cmp_def less_prod_def Let_def)

lemma pre_key_inj: "pre_key p = pre_key q \<Longrightarrow> p = q"
proof -
  have "inj ident_of" by (rule injI) (rule ident_of_inj)
  then have "List.map ident_of xs = List.map ident_of ys \<Longrightarrow> xs = ys" for xs ys
    by (simp add: inj_map_eq_map)
  then show "pre_key p = pre_key q \<Longrightarrow> p = q"
    by (auto simp: pre_key_def split: if_splits dest: split_on_inj)
qed

lemma version_Compare_zero:
  "version_Compare v w = 0 \<longleftrightarrow> v = w\<lparr>v_Metadata := v_Metadata v\<rparr>"
proof -
  have "version_Compare v w = 0 \<longleftrightarrow> version_key v = version_key w"
    by (auto simp: version_Compare_key key_cmp_def)
  also have "\<dots> \<longleftrightarrow> v = w\<lparr>v_Metadata := v_Metadata v\<rparr>"
    by (cases v; cases w) (auto simp: version_key_def dest: pre_key_inj)
  finally show ?thesis .
qed

interpretation semver: version_order version_Compare
  by unfold_locales (auto simp: version_Compare_key key_cmp_def split: if_splits)

section \<open>Parsing and printing\<close>

lemma split_dots2:
  assumes "CHR ''.'' \<notin> set a" and "CHR ''.'' \<notin> set b"
  shows "splitN2 CHR ''.'' (a @ ''.'' @ b @ ''.'' @ c) = [a, b @ ''.'' @ c]"
    and "splitN2 CHR ''.'' (b @ ''.'' @ c) = [b, c]"
  using splitN2_sep [OF assms(1), of "b @ ''.'' @ c"] splitN2_sep [OF assms(2), of c] by simp_all


lemma set_join_with: "set (join_with [c] ps) \<subseteq> insert c (\<Union> (set ` set ps))"
  by (induction "[c]" ps rule: join_with.induct) auto

lemma set_split_on: "set s \<subseteq> insert c (\<Union> (set ` set (split_on c s)))"
  using set_join_with [of c "split_on c s"] by (simp add: join_split_on)

lemma validIdentifier_chars: "validIdentifier s \<Longrightarrow> x \<in> set s \<Longrightarrow> x = CHR ''.'' \<or> ident_char x"
  using set_split_on [of s "CHR ''.''"] by (fastforce simp: validIdentifier_def list_all_iff)

lemma not_ident_plus: "\<not> ident_char CHR ''+''"
  by (simp add: ident_char_def is_digit_def byte_def)

lemma validIdentifier_no_plus: "validIdentifier s \<Longrightarrow> CHR ''+'' \<notin> set s"
  using validIdentifier_chars [of s "CHR ''+''"] not_ident_plus by auto

text \<open>The versions that print in the form \<open>NewVersion\<close> reads.\<close>

definition wf_version :: "version \<Rightarrow> bool" where
  "wf_version v \<longleftrightarrow>
     0 \<le> v_Major v \<and> v_Major v < 2 ^ 63 \<and> 0 \<le> v_Minor v \<and> v_Minor v < 2 ^ 63 \<and>
     0 \<le> v_Patch v \<and> v_Patch v < 2 ^ 63 \<and>
     validIdentifier (v_PreRelease v) \<and> validIdentifier (v_Metadata v)"

lemma splitOff_some: "c \<notin> set a \<Longrightarrow> splitOff (a @ c # b) c = (a, b)"
  by (simp add: splitOff_def splitN2_sep)

lemma splitOff_none: "c \<notin> set a \<Longrightarrow> splitOff a c = (a, [])"
  by (simp add: splitOff_def splitN2_no_sep)

lemma splitOff_opt:
  "c \<notin> set a \<Longrightarrow> splitOff (a @ (if b \<noteq> [] then c # b else [])) c = (a, b)"
  by (simp add: splitOff_some splitOff_none)

lemma format_int_chars: "0 \<le> i \<Longrightarrow> x \<in> set (format_int i) \<Longrightarrow> is_digit x"
  by (auto simp: format_int_def dest: fmt_nat_digits)

lemma format_int_no_sep:
  assumes "0 \<le> i"
  shows "CHR ''.'' \<notin> set (format_int i)" "CHR ''-'' \<notin> set (format_int i)" "CHR ''+'' \<notin> set (format_int i)"
  using format_int_chars [OF assms] not_digit_minus by metis+

lemma parse_part_format: "0 \<le> i \<Longrightarrow> i < 2 ^ 63 \<Longrightarrow> parse_part (format_int i) = Ok i"
  by (simp add: parse_part_def parse_format_int64)

lemma NewVersion_String:
  assumes wf: "wf_version v"
  shows "NewVersion (version_String v) = Ok v"
proof -
  let ?a = "format_int (v_Major v)" and ?b = "format_int (v_Minor v)" and ?c = "format_int (v_Patch v)"
  let ?num = "?a @ ''.'' @ ?b @ ''.'' @ ?c"
  let ?pre = "if v_PreRelease v \<noteq> [] then CHR ''-'' # v_PreRelease v else []"
  let ?meta = "if v_Metadata v \<noteq> [] then CHR ''+'' # v_Metadata v else []"
  have str: "version_String v = (?num @ ?pre) @ ?meta"
    by (simp add: version_String_def)
  have nodot: "CHR ''.'' \<notin> set ?a" "CHR ''.'' \<notin> set ?b" "CHR ''.'' \<notin> set ?c"
    and nodash: "CHR ''-'' \<notin> set ?num" and noplus: "CHR ''+'' \<notin> set ?num"
    using wf by (auto simp: wf_version_def format_int_no_sep)
  then have "CHR ''+'' \<notin> set (?num @ ?pre)"
    using noplus wf validIdentifier_no_plus by (auto simp: wf_version_def)
  then have 1: "splitOff (version_String v) CHR ''+'' = (?num @ ?pre, v_Metadata v)"
    unfolding str by (rule splitOff_opt)
  have 2: "splitOff (?num @ ?pre) CHR ''-'' = (?num, v_PreRelease v)"
    using nodash by (rule splitOff_opt)
  have "NewVersion (version_String v) =
      Ok \<lparr>v_Major = v_Major v, v_Minor = v_Minor v, v_Patch = v_Patch v,
          v_PreRelease = v_PreRelease v, v_Metadata = v_Metadata v\<rparr>"
    using wf unfolding NewVersion_def 1 prod.case Let_def 2 split_dots2 [OF nodot(1,2)] list.case
    by (simp add: parse_part_format wf_version_def)
  then show ?thesis by simp
qed

section \<open>Sorting\<close>

lemma mset_insert_rev: "mset (insert_rev lt x ys) = add_mset x (mset ys)"
  by (induction ys) auto

lemma mset_fold_insert_rev: "mset (fold (insert_rev lt) xs ys) = mset xs + mset ys"
  by (induction xs arbitrary: ys) (simp_all add: mset_insert_rev)

lemma insert_rev_sorted:
  assumes "sorted_wrt (\<lambda>a b. version_Compare b a \<le> 0) ys"
  shows "sorted_wrt (\<lambda>a b. version_Compare b a \<le> 0) (insert_rev version_LessThan x ys)"
  using assms
proof (induction ys)
  case (Cons y ys)
  have set: "set (insert_rev version_LessThan x ys) = insert x (set ys)"
    using arg_cong [OF mset_insert_rev [of version_LessThan x ys], of set_mset] by simp
  show ?case
  proof (cases "version_LessThan x y")
    case True
    then have "version_Compare x y \<le> 0" by (simp add: version_LessThan_def)
    then show ?thesis using Cons True by (auto simp: set)
  next
    case False
    then have "version_Compare y x \<le> 0" by (simp add: version_LessThan_def semver.cmp_le_swap)
    then show ?thesis
      using False Cons.prems semver.cmp_trans by (auto simp: version_LessThan_def)
  qed
qed simp

lemma fold_insert_rev_sorted:
  "sorted_wrt (\<lambda>a b. version_Compare b a \<le> 0) ys \<Longrightarrow>
     sorted_wrt (\<lambda>a b. version_Compare b a \<le> 0) (fold (insert_rev version_LessThan) xs ys)"
  by (induction xs arbitrary: ys) (simp_all add: insert_rev_sorted)

section \<open>Properties\<close>

text \<open>
  \<open>Compare\<close> is the comparison of a key in a linear order (major, minor, patch, then the
  pre-release identifiers, a release after its pre-releases), and two versions compare as equal
  exactly when they differ at most in their build metadata.
\<close>

theorem version_Compare_total_order:
  "version_Compare v w = key_cmp (version_key v) (version_key w)
   \<and> (version_Equal v w \<longleftrightarrow> v = w\<lparr>v_Metadata := v_Metadata v\<rparr>)
   \<and> sgn (version_Compare w v) = - sgn (version_Compare v w)"
  unfolding version_Equal_def
  by (intro conjI version_Compare_key version_Compare_zero semver.cmp_swap)

text \<open>
  \<open>NewVersion\<close> reads back what \<open>String\<close> prints, for every version with non-negative 64-bit
  numbers and valid pre-release and metadata identifiers.
\<close>

theorem NewVersion_reads_String:
  assumes "wf_version v"
  shows "NewVersion (version_String v) = Ok v"
  by (rule NewVersion_String [OF assms])

theorem NewVersion_reads_String_witness:
  "NewVersion ''3.5.0-experimental'' =
     Ok \<lparr>v_Major = 3, v_Minor = 5, v_Patch = 0, v_PreRelease = ''experimental'', v_Metadata = []\<rparr>"
proof -
  let ?v = "\<lparr>v_Major = 3, v_Minor = 5, v_Patch = 0, v_PreRelease = ''experimental'', v_Metadata = []\<rparr>"
  have "wf_version ?v"
    by (simp add: wf_version_def validIdentifier_def ident_char_def is_digit_def byte_def)
  from NewVersion_reads_String [OF this] show ?thesis
    by (simp add: version_String_def format_int_def fmt_nat_eval)
qed

text \<open>
  \<open>semver.Sort\<close> permutes the list and orders it: no element is greater than a later one.
\<close>

theorem semver_Sort_correct:
  "mset (semver_Sort vs) = mset vs
   \<and> sorted_wrt (\<lambda>a b. \<not> version_LessThan b a) (semver_Sort vs)"
  using fold_insert_rev_sorted [of "[]" vs]
  by (simp add: semver_Sort_def mset_fold_insert_rev sorted_wrt_rev version_LessThan_def not_less
      semver.cmp_le_swap)

end
