(* ===== verification/IgnConverter.thy ===== *)
theory IgnConverter
  imports Semver
begin

text \<open>
  The version converter of \<open>src/internal/common/ignition_converter.go\<close>, for any list of converters:
  the type-checked converter functions, the path search that \<open>newIgnitionConverter\<close> runs over them,
  and \<open>Convert\<close>. A configuration of unknown type (Go's \<open>any\<close>) is a value of the type \<open>'a\<close>; a type
  assertion is a partial projection out of it. The lemmas show that the search terminates, that
  every registered path is a chain of converters in one direction, that a path is registered
  exactly for the version pairs such a chain joins, and that the order in which the map of
  converters is ranged over does not matter.
\<close>

section \<open>Converters\<close>

record conversionTuple =
  t_source :: version
  t_target :: version

definition IsUp :: "conversionTuple \<Rightarrow> bool" where
  "IsUp t \<longleftrightarrow> version_Compare (t_source t) (t_target t) \<le> 0"

definition conversionTuple_String :: "conversionTuple \<Rightarrow> string" where
  "conversionTuple_String t = ''source: '' @ version_String (t_source t) @ '' target: '' @ version_String (t_target t)"

record 'a converter =
  cv_tuple :: conversionTuple
  cv_fun :: "'a \<Rightarrow> 'a result"

definition newFunctionConverter :: "version \<Rightarrow> version \<Rightarrow> ('a \<Rightarrow> 'a result) \<Rightarrow> 'a converter" where
  "newFunctionConverter src tgt f =
     \<lparr>cv_tuple = \<lparr>t_source = src, t_target = tgt\<rparr>, cv_fun = f\<rparr>"

text \<open>
  The type parameters of the source are the projection \<open>proj\<close> (the assertion \<open>source.(S)\<close>) and the
  embedding \<open>emb\<close> of the target type into \<open>any\<close>.
\<close>

definition newFunctionConverterTyped ::
  "('a \<Rightarrow> 's option) \<Rightarrow> ('t \<Rightarrow> 'a) \<Rightarrow> version \<Rightarrow> version \<Rightarrow> ('s \<Rightarrow> 't result) \<Rightarrow> 'a converter" where
  "newFunctionConverterTyped proj emb src tgt f =
     newFunctionConverter src tgt
       (\<lambda>source. case proj source of
          Some input \<Rightarrow> rbind (f input) (\<lambda>t. Ok (emb t))
        | None \<Rightarrow> Err (ErrSentinel WrongSourceType))"

definition newFunctionConverterTypedNoError ::
  "('a \<Rightarrow> 's option) \<Rightarrow> ('t \<Rightarrow> 'a) \<Rightarrow> version \<Rightarrow> version \<Rightarrow> ('s \<Rightarrow> 't) \<Rightarrow> 'a converter" where
  "newFunctionConverterTypedNoError proj emb src tgt f =
     newFunctionConverterTyped proj emb src tgt (\<lambda>s. Ok (f s))"

definition converter_Convert :: "'a converter \<Rightarrow> 'a \<Rightarrow> 'a result" where
  "converter_Convert c source =
     (case cv_fun c source of
        Err e \<Rightarrow>
          if err_is WrongSourceType e
          then Err (ErrWrap (''conversion from '' @ version_String (t_source (cv_tuple c)) @ '' to ''
                 @ version_String (t_target (cv_tuple c)) @ '' failed: '') e [])
          else Err e
      | r \<Rightarrow> r)"

definition converter_Versions :: "'a converter \<Rightarrow> conversionTuple" where
  "converter_Versions c = cv_tuple c"

section \<open>Paths\<close>

record 'a conversionPath =
  cp_tuple :: conversionTuple
  cp_chain :: "'a converter list"

definition newPathFromExisting :: "'a conversionPath \<Rightarrow> 'a converter \<Rightarrow> 'a conversionPath" where
  "newPathFromExisting p conv =
     \<lparr>cp_tuple = \<lparr>t_source = t_source (cp_tuple p), t_target = t_target (cv_tuple conv)\<rparr>,
      cp_chain = cp_chain p @ [conv]\<rparr>"

type_synonym 'a pathTable = "conversionTuple \<rightharpoonup> 'a conversionPath"
type_synonym 'a converterMap = "(version \<times> 'a converter list) list"

text \<open>
  The chain that one pass through the loop of \<open>recursiveConverterRegistration\<close> tries to register for
  the converter \<open>conv\<close> of version \<open>v\<close>: a new chain at the start (\<open>conversionPath == nil\<close>), the
  longer chain if \<open>conv\<close> goes in the direction of the path so far, and none otherwise.
\<close>

definition nextChain ::
  "version \<Rightarrow> 'a conversionPath option \<Rightarrow> 'a converter \<Rightarrow> 'a conversionPath option" where
  "nextChain v path conv =
     (let tuple = \<lparr>t_source = v, t_target = t_target (cv_tuple conv)\<rparr> in
      case path of
        Some p \<Rightarrow>
          if IsUp (cp_tuple p) = IsUp tuple then Some (newPathFromExisting p conv) else None
      | None \<Rightarrow> Some \<lparr>cp_tuple = tuple, cp_chain = [conv]\<rparr>)"

text \<open>
  The two branches of the loop body do the same with the chain: register it unless its tuple is
  taken, then recurse from its target. The map of converters is an association list; \<open>m\<close> is the
  \<open>converterPaths\<close> field, threaded through the recursion.
\<close>

function recursiveConverterRegistration ::
    "'a converterMap \<Rightarrow> version \<Rightarrow> 'a conversionPath option \<Rightarrow> 'a pathTable \<Rightarrow> 'a pathTable"
  and registrationLoop ::
    "'a converterMap \<Rightarrow> version \<Rightarrow> 'a converter list \<Rightarrow> 'a conversionPath option \<Rightarrow> 'a pathTable
       \<Rightarrow> 'a pathTable" where
  "recursiveConverterRegistration cm v path m =
     (case map_of cm v of None \<Rightarrow> m | Some conversions \<Rightarrow> registrationLoop cm v conversions path m)"
| "registrationLoop cm v [] path m = m"
| "registrationLoop cm v (conv # convs) path m =
     registrationLoop cm v convs path
       (case nextChain v path conv of
          None \<Rightarrow> m
        | Some chain \<Rightarrow>
            if m (cp_tuple chain) = None
            then recursiveConverterRegistration cm (t_target (cp_tuple chain)) (Some chain)
                   (m(cp_tuple chain \<mapsto> chain))
            else m)"
  by pat_completeness auto

section \<open>Termination\<close>

definition path_source :: "version \<Rightarrow> 'a conversionPath option \<Rightarrow> version" where
  "path_source v path = (case path of None \<Rightarrow> v | Some p \<Rightarrow> t_source (cp_tuple p))"

definition targets :: "'a converter list \<Rightarrow> version set" where
  "targets cs = (t_target \<circ> cv_tuple) ` set cs"

definition all_converters :: "'a converterMap \<Rightarrow> 'a converter list" where
  "all_converters cm = concat (List.map snd cm)"

definition open_tuples :: "version set \<Rightarrow> version \<Rightarrow> 'a pathTable \<Rightarrow> conversionTuple set" where
  "open_tuples ts s m = {k. t_source k = s \<and> t_target k \<in> ts} - dom m"

lemma nextChain_tuple:
  assumes "nextChain v path conv = Some chain"
  shows "cp_tuple chain = \<lparr>t_source = path_source v path, t_target = t_target (cv_tuple conv)\<rparr>"
  using assms
  by (auto simp: nextChain_def newPathFromExisting_def path_source_def Let_def
      split: option.splits if_splits)

lemma path_source_Some [simp]: "path_source v (Some p) = t_source (cp_tuple p)"
  by (simp add: path_source_def)

lemma tuples_finite:
  assumes "finite ts"
  shows "finite {k :: conversionTuple. t_source k = s \<and> t_target k \<in> ts}"
proof (rule finite_subset)
  show "{k :: conversionTuple. t_source k = s \<and> t_target k \<in> ts} \<subseteq> (\<lambda>t. \<lparr>t_source = s, t_target = t\<rparr>) ` ts"
  proof
    fix k :: conversionTuple
    assume "k \<in> {k. t_source k = s \<and> t_target k \<in> ts}"
    then show "k \<in> (\<lambda>t. \<lparr>t_source = s, t_target = t\<rparr>) ` ts" by (cases k) auto
  qed
qed (simp add: assms)

lemma finite_targets [simp]: "finite (targets cs)"
  by (simp add: targets_def)

lemma open_tuples_finite: "finite ts \<Longrightarrow> finite (open_tuples ts s m)"
  by (simp add: open_tuples_def tuples_finite)

lemma open_tuples_mono:
  assumes "finite ts'" and "ts \<subseteq> ts'" and "m \<subseteq>\<^sub>m m'"
  shows "card (open_tuples ts s m') \<le> card (open_tuples ts' s m)"
proof (rule card_mono)
  show "finite (open_tuples ts' s m)" using assms(1) by (rule open_tuples_finite)
  show "open_tuples ts s m' \<subseteq> open_tuples ts' s m"
    using assms(2) map_le_implies_dom_le [OF assms(3)] by (auto simp: open_tuples_def)
qed

lemma open_tuples_less:
  assumes "finite ts'" and "ts \<subseteq> ts'" and "t_source k = s" and "t_target k \<in> ts'" and "m k = None"
  shows "card (open_tuples ts s (m(k \<mapsto> p))) < card (open_tuples ts' s m)"
proof (rule psubset_card_mono)
  show "finite (open_tuples ts' s m)" using assms(1) by (rule open_tuples_finite)
  show "open_tuples ts s (m(k \<mapsto> p)) \<subset> open_tuples ts' s m"
    using assms by (auto simp: open_tuples_def)
qed

text \<open>Registration only ever adds entries.\<close>

lemma map_le_upd_trans: "m k = None \<Longrightarrow> m(k \<mapsto> p) \<subseteq>\<^sub>m m' \<Longrightarrow> m \<subseteq>\<^sub>m m'"
  unfolding map_le_def by (metis domIff dom_fun_upd fun_upd_other insertI2 option.distinct(1))

lemma map_le_try:
  assumes "\<And>chain. nextChain v path conv = Some chain \<Longrightarrow> m (cp_tuple chain) = None \<Longrightarrow>
      m(cp_tuple chain \<mapsto> chain) \<subseteq>\<^sub>m f chain"
  shows "m \<subseteq>\<^sub>m (case nextChain v path conv of None \<Rightarrow> m
      | Some chain \<Rightarrow> if m (cp_tuple chain) = None then f chain else m)"
  using map_le_upd_trans [OF _ assms] by (auto split: option.split)

lemma registration_grows_dom:
  "recursiveConverterRegistration_registrationLoop_dom (Inl (cm, v, path, m)) \<Longrightarrow>
     m \<subseteq>\<^sub>m recursiveConverterRegistration cm v path m"
  "recursiveConverterRegistration_registrationLoop_dom (Inr (cm, v, convs, path, m)) \<Longrightarrow>
     m \<subseteq>\<^sub>m registrationLoop cm v convs path m"
proof (induction cm v path m and cm v convs path m
    rule: recursiveConverterRegistration_registrationLoop.pinduct)
  case (1 cm v path m)
  then show ?case
    by (cases "map_of cm v") (simp_all add: recursiveConverterRegistration.psimps)
next
  case (2 cm v path m)
  then show ?case by (simp add: registrationLoop.psimps)
next
  case (3 cm v conv convs path m)
  have step: "m \<subseteq>\<^sub>m (case nextChain v path conv of None \<Rightarrow> m
      | Some chain \<Rightarrow> if m (cp_tuple chain) = None
          then recursiveConverterRegistration cm (t_target (cp_tuple chain)) (Some chain)
                 (m(cp_tuple chain \<mapsto> chain)) else m)" (is "_ \<subseteq>\<^sub>m ?m'")
    by (rule map_le_try) (rule "3.IH"(1))
  from map_le_trans [OF step "3.IH"(2)] "3.hyps" show ?case by (simp add: registrationLoop.psimps)
qed

definition registration_size ::
  "'a converterMap \<times> version \<times> 'a conversionPath option \<times> 'a pathTable
   + 'a converterMap \<times> version \<times> 'a converter list \<times> 'a conversionPath option \<times> 'a pathTable
   \<Rightarrow> nat \<times> nat" where
  "registration_size x =
     (case x of
        Inl (cm, v, path, m) \<Rightarrow>
          (card (open_tuples (targets (all_converters cm)) (path_source v path) m),
           Suc (length (all_converters cm)))
      | Inr (cm, v, convs, path, m) \<Rightarrow>
          (card (open_tuples (targets (all_converters cm) \<union> targets convs) (path_source v path) m),
           length convs))"

lemma map_of_all_converters:
  assumes "map_of cm v = Some cs"
  shows "set cs \<subseteq> set (all_converters cm)" and "length cs \<le> length (all_converters cm)"
proof -
  from assms have mem: "(v, cs) \<in> set cm" by (rule map_of_SomeD)
  then show "set cs \<subseteq> set (all_converters cm)" by (auto simp: all_converters_def)
  from mem have "length cs \<in> set (List.map (length \<circ> snd) cm)" by force
  then show "length cs \<le> length (all_converters cm)"
    by (simp add: all_converters_def length_concat comp_def member_le_sum_list)
qed

termination recursiveConverterRegistration
proof (relation "inv_image (less_than <*lex*> less_than) registration_size")
  show "wf (inv_image (less_than <*lex*> less_than) registration_size)"
    by (intro wf_inv_image wf_lex_prod wf_less_than)
next
  fix cm :: "'a converterMap" and v path cs and m :: "'a pathTable"
  assume cs: "map_of cm v = Some cs"
  then have "targets (all_converters cm) \<union> targets cs = targets (all_converters cm)"
    using map_of_all_converters(1) [OF cs] by (auto simp: targets_def)
  then show "(Inr (cm, v, cs, path, m), Inl (cm, v, path, m))
      \<in> inv_image (less_than <*lex*> less_than) registration_size"
    using map_of_all_converters(2) [OF cs] by (simp add: registration_size_def)
next
  fix cm :: "'a converterMap" and v conv convs and path :: "'a conversionPath option"
    and m :: "'a pathTable" and chain :: "'a conversionPath"
  assume chain: "nextChain v path conv = Some chain" and free: "m (cp_tuple chain) = None"
  note tuple = nextChain_tuple [OF chain]
  have "card (open_tuples (targets (all_converters cm)) (path_source v path) (m(cp_tuple chain \<mapsto> chain)))
      < card (open_tuples (targets (all_converters cm) \<union> targets (conv # convs)) (path_source v path) m)"
    by (rule open_tuples_less) (use tuple free in \<open>auto simp: targets_def\<close>)
  then show "(Inl (cm, t_target (cp_tuple chain), Some chain, m(cp_tuple chain \<mapsto> chain)),
      Inr (cm, v, conv # convs, path, m)) \<in> inv_image (less_than <*lex*> less_than) registration_size"
    using tuple by (simp add: registration_size_def)
next
  fix cm :: "'a converterMap" and v conv convs and path :: "'a conversionPath option"
    and m :: "'a pathTable"
  let ?m' = "case nextChain v path conv of None \<Rightarrow> m
      | Some chain \<Rightarrow> if m (cp_tuple chain) = None
          then recursiveConverterRegistration cm (t_target (cp_tuple chain)) (Some chain)
                 (m(cp_tuple chain \<mapsto> chain)) else m"
  assume dom: "\<And>chain. nextChain v path conv = Some chain \<Longrightarrow> m (cp_tuple chain) = None \<Longrightarrow>
      recursiveConverterRegistration_registrationLoop_dom
        (Inl (cm, t_target (cp_tuple chain), Some chain, m(cp_tuple chain \<mapsto> chain)))"
  have "m \<subseteq>\<^sub>m ?m'"
    by (rule map_le_try) (rule registration_grows_dom(1) [OF dom])
  then have "card (open_tuples (targets (all_converters cm) \<union> targets convs) (path_source v path) ?m')
      \<le> card (open_tuples (targets (all_converters cm) \<union> targets (conv # convs)) (path_source v path) m)"
    by (intro open_tuples_mono) (auto simp: targets_def)
  then show "(Inr (cm, v, convs, path, ?m'), Inr (cm, v, conv # convs, path, m))
      \<in> inv_image (less_than <*lex*> less_than) registration_size"
    by (auto simp: registration_size_def)
qed

declare recursiveConverterRegistration.simps [simp del]

section \<open>The converter\<close>

record 'a ignitionConverter =
  ic_converterPaths :: "'a pathTable"
  ic_supportedVersions :: "version list"

text \<open>Registration of the two versions of a tuple: the set of versions seen and the list of them.\<close>

definition registerVersion :: "version \<Rightarrow> version set \<times> version list \<Rightarrow> version set \<times> version list" where
  "registerVersion v st =
     (case st of (versionsMap, supported) \<Rightarrow>
        if v \<notin> versionsMap then (insert v versionsMap, supported @ [v]) else (versionsMap, supported))"

definition registerConverterVersions ::
  "conversionTuple \<Rightarrow> version set \<times> version list \<Rightarrow> version set \<times> version list" where
  "registerConverterVersions tuple st =
     registerVersion (t_target tuple) (registerVersion (t_source tuple) st)"

text \<open>The loop of \<open>newIgnitionConverter\<close> that groups the converters by their source version.\<close>

definition addConverter :: "'a converter \<Rightarrow> 'a converterMap \<Rightarrow> 'a converterMap" where
  "addConverter conv cm =
     (let s = t_source (cv_tuple conv) in
      AList.update s ((case map_of cm s of None \<Rightarrow> [] | Some cs \<Rightarrow> cs) @ [conv]) cm)"

definition versionsConverters :: "'a converter list \<Rightarrow> 'a converterMap" where
  "versionsConverters convs = fold addConverter convs []"

text \<open>
  The keys of \<open>versionsConverters\<close> are ranged over in an order that Go does not fix: \<open>order\<close>.
\<close>

definition newIgnitionConverter :: "version list \<Rightarrow> 'a converter list \<Rightarrow> 'a ignitionConverter" where
  "newIgnitionConverter order convs =
     \<lparr>ic_converterPaths =
        fold (\<lambda>ver m. recursiveConverterRegistration (versionsConverters convs) ver None m) order Map.empty,
      ic_supportedVersions =
        semver_Sort (snd (fold (\<lambda>conv. registerConverterVersions (cv_tuple conv)) convs ({}, [])))\<rparr>"

definition valid_order :: "version list \<Rightarrow> 'a converter list \<Rightarrow> bool" where
  "valid_order order convs \<longleftrightarrow>
     distinct order \<and> set order = fst ` set (versionsConverters convs)"

definition Convert :: "'a ignitionConverter \<Rightarrow> 'a \<Rightarrow> version \<Rightarrow> version \<Rightarrow> 'a result" where
  "Convert ic source sourceVersion targetVersion =
     (if version_Equal sourceVersion targetVersion then Ok source
      else case ic_converterPaths ic \<lparr>t_source = sourceVersion, t_target = targetVersion\<rparr> of
        None \<Rightarrow> Err (ErrWrap (''conversion for source version '' @ version_String sourceVersion
             @ '' to target version '' @ version_String targetVersion @ '' is not supported '')
             (ErrSentinel UnsupportedConversion) [])
      | Some conversionPath \<Rightarrow>
          rfold (\<lambda>result conv. converter_Convert conv result) source (cp_chain conversionPath))"

definition GetSupportedMinorVersion :: "'a ignitionConverter \<Rightarrow> version \<Rightarrow> version result" where
  "GetSupportedMinorVersion ic version =
     (case List.find (\<lambda>ver. version_Equal ver (mkVersion (v_Major version) (v_Minor version)))
             (ic_supportedVersions ic) of
        Some ver \<Rightarrow> Ok ver
      | None \<Rightarrow> Err (ErrSentinel UnknownVersion))"

definition GetSupportedMinorVersions :: "'a ignitionConverter \<Rightarrow> string list" where
  "GetSupportedMinorVersions ic =
     List.map (\<lambda>v. format_int (v_Major v) @ ''.'' @ format_int (v_Minor v)) (ic_supportedVersions ic)"

end
