(* ===== verification/IgnTypes.thy ===== *)
theory IgnTypes
  imports IgnConverter
begin

text \<open>
  The Ignition configurations that pass through the operator. The spec 2.2 types follow
  \<open>src/vendor/github.com/coreos/ignition/config/v2_2/types/schema.go\<close> for the parts the code reads
  (files, units with drop-ins, users, the version); the sections and fields no code here inspects
  are carried along as one opaque text. The spec 3.x configurations, which the code only hands to
  library functions, are values of a type \<open>'c\<close>, tagged with the Go type they have.
\<close>

record ign2_file =
  f2_Path :: string
  f2_Rest :: string

record ign2_dropin =
  d2_Name :: string
  d2_Contents :: string

record ign2_unit =
  u2_Name :: string
  u2_Dropins :: "ign2_dropin list"
  u2_Rest :: string

record ign2_user =
  pu_Name :: string
  pu_SSHAuthorizedKeys :: "string list"
  pu_Rest :: string

record ign2_config =
  i2_Version :: string
  i2_Files :: "ign2_file list"
  i2_Units :: "ign2_unit list"
  i2_Users :: "ign2_user list"
  i2_Rest :: string

datatype ign3_type = V3_0 | V3_1 | V3_2 | V3_3 | V3_4 | V3_5

text \<open>Go's \<open>any\<close> holding a configuration: the dynamic type and the value.\<close>

datatype 'c ign_any =
    Ign2_2 ign2_config
  | Ign3 ign3_type 'c

fun as_ign2 :: "'c ign_any \<Rightarrow> ign2_config option" where
  "as_ign2 (Ign2_2 c) = Some c"
| "as_ign2 (Ign3 t c) = None"

fun as_ign3 :: "ign3_type \<Rightarrow> 'c ign_any \<Rightarrow> 'c option" where
  "as_ign3 t (Ign2_2 c) = None"
| "as_ign3 t (Ign3 t' c) = (if t' = t then Some c else None)"

text \<open>The \<open>MaxVersion\<close> of each types package.\<close>

definition ign2_MaxVersion :: version where
  "ign2_MaxVersion = mkVersion 2 2"

fun ign3_MaxVersion :: "ign3_type \<Rightarrow> version" where
  "ign3_MaxVersion V3_0 = mkVersion 3 0"
| "ign3_MaxVersion V3_1 = mkVersion 3 1"
| "ign3_MaxVersion V3_2 = mkVersion 3 2"
| "ign3_MaxVersion V3_3 = mkVersion 3 3"
| "ign3_MaxVersion V3_4 = mkVersion 3 4"
| "ign3_MaxVersion V3_5 = mkVersion 3 5"

text \<open>
  The translation functions of the libraries, named after their packages. The ones that cannot fail
  in Go return a plain configuration. \<open>tr_v22tov23\<close> is \<open>ign23.Translate\<close>; the result of spec 2.3 is
  only passed on to \<open>tr_v23tov30\<close>.
\<close>

record 'c translators =
  tr_v35tov34 :: "'c \<Rightarrow> 'c result"
  tr_v34tov35 :: "'c \<Rightarrow> 'c"
  tr_v34tov33 :: "'c \<Rightarrow> 'c result"
  tr_v33tov34 :: "'c \<Rightarrow> 'c"
  tr_v33tov32 :: "'c \<Rightarrow> 'c result"
  tr_v32tov33 :: "'c \<Rightarrow> 'c"
  tr_v32tov31 :: "'c \<Rightarrow> 'c result"
  tr_v32tov22 :: "'c \<Rightarrow> ign2_config result"
  tr_v22tov23 :: "ign2_config \<Rightarrow> 'c"
  tr_v23tov30 :: "'c \<Rightarrow> (string \<rightharpoonup> string) \<Rightarrow> 'c result"
  tr_v30tov31 :: "'c \<Rightarrow> 'c"
  tr_v31tov32 :: "'c \<Rightarrow> 'c"

section \<open>The converter list\<close>

definition typed33 ::
  "ign3_type \<Rightarrow> ign3_type \<Rightarrow> ('c \<Rightarrow> 'c result) \<Rightarrow> 'c ign_any converter" where
  "typed33 s t f = newFunctionConverterTyped (as_ign3 s) (Ign3 t) (ign3_MaxVersion s) (ign3_MaxVersion t) f"

definition typed33_noError ::
  "ign3_type \<Rightarrow> ign3_type \<Rightarrow> ('c \<Rightarrow> 'c) \<Rightarrow> 'c ign_any converter" where
  "typed33_noError s t f =
     newFunctionConverterTypedNoError (as_ign3 s) (Ign3 t) (ign3_MaxVersion s) (ign3_MaxVersion t) f"

definition v22tov32 :: "'c translators \<Rightarrow> ign2_config \<Rightarrow> 'c result" where
  "v22tov32 tr source =
     rbind (rwrap ''unable to convert Ignition spec v2 config to v3: '' []
              (tr_v23tov30 tr (tr_v22tov23 tr source) [''root'' \<mapsto> ''/'']))
       (\<lambda>v30. Ok (tr_v31tov32 tr (tr_v30tov31 tr v30)))"

definition buildConverterList :: "'c translators \<Rightarrow> 'c ign_any converter list" where
  "buildConverterList tr =
     [typed33 V3_5 V3_4 (tr_v35tov34 tr),
      typed33_noError V3_4 V3_5 (tr_v34tov35 tr),
      typed33 V3_4 V3_3 (tr_v34tov33 tr),
      typed33_noError V3_3 V3_4 (tr_v33tov34 tr),
      typed33 V3_3 V3_2 (tr_v33tov32 tr),
      typed33_noError V3_2 V3_3 (tr_v32tov33 tr),
      typed33 V3_2 V3_1 (tr_v32tov31 tr),
      newFunctionConverterTyped (as_ign3 V3_2) Ign2_2 (ign3_MaxVersion V3_2) ign2_MaxVersion (tr_v32tov22 tr),
      newFunctionConverterTyped as_ign2 (Ign3 V3_2) ign2_MaxVersion (ign3_MaxVersion V3_2) (v22tov32 tr),
      typed33_noError V3_0 V3_2 (\<lambda>source. tr_v31tov32 tr (tr_v30tov31 tr source))]"

end
