(* ===== verification/IgnPaths.thy ===== *)
theory IgnPaths
  imports IgnConverter
begin

text \<open>
  Correctness of the path search of \<open>newIgnitionConverter\<close>, for any list of converters. A way is a
  chain of converters all upwards or all downwards; the search registers a path for a pair of
  versions exactly when a way joins them, every registered path is such a way, and the table does
  not depend on the order of the outer loop.
\<close>

section \<open>Grouping by source version\<close>

lemma map_of_versionsConverters_fold:
  "map_of (fold addConverter convs cm) v =
     (let old = (case map_of cm v of None \<Rightarrow> [] | Some cs \<Rightarrow> cs);
          new = filter (\<lambda>c. t_source (cv_tuple c) = v) convs in
      if new = [] then map_of cm v else Some (old @ new))"
  by (induction convs arbitrary: cm)
    (auto simp: addConverter_def update_conv' Let_def split: option.splits)

lemma map_of_versionsConverters:
  "map_of (versionsConverters convs) v =
     (let new = filter (\<lambda>c. t_source (cv_tuple c) = v) convs in if new = [] then None else Some new)"
  by (simp add: versionsConverters_def map_of_versionsConverters_fold Let_def)

lemma versionsConverters_keys: "fst ` set (versionsConverters convs) = (t_source \<circ> cv_tuple) ` set convs"
proof -
  have "v \<in> fst ` set (versionsConverters convs) \<longleftrightarrow> map_of (versionsConverters convs) v \<noteq> None" for v
    by (simp add: map_of_eq_None_iff)
  moreover have "map_of (versionsConverters convs) v \<noteq> None \<longleftrightarrow> v \<in> (t_source \<circ> cv_tuple) ` set convs" for v
    by (auto simp: map_of_versionsConverters Let_def filter_empty_conv image_iff)
  ultimately show ?thesis by blast
qed

section \<open>What one call may change\<close>

text \<open>The loop's effect for one converter.\<close>

definition tryChain ::
  "'a converterMap \<Rightarrow> version \<Rightarrow> 'a conversionPath option \<Rightarrow> 'a converter \<Rightarrow> 'a pathTable \<Rightarrow> 'a pathTable" where
  "tryChain cm v path conv m =
     (case nextChain v path conv of
        None \<Rightarrow> m
      | Some chain \<Rightarrow>
          if m (cp_tuple chain) = None
          then recursiveConverterRegistration cm (t_target (cp_tuple chain)) (Some chain)
                 (m(cp_tuple chain \<mapsto> chain))
          else m)"

lemma tryChain_cases [case_names skip taken new]:
  obtains "nextChain v path conv = None" and "tryChain cm v path conv m = m"
  | chain where "nextChain v path conv = Some chain" and "m (cp_tuple chain) \<noteq> None"
      and "tryChain cm v path conv m = m"
  | chain where "nextChain v path conv = Some chain" and "m (cp_tuple chain) = None"
      and "tryChain cm v path conv m =
        recursiveConverterRegistration cm (t_target (cp_tuple chain)) (Some chain) (m(cp_tuple chain \<mapsto> chain))"
  by (cases "nextChain v path conv"; cases "m (cp_tuple (the (nextChain v path conv)))") (auto simp: tryChain_def)

lemma registrationLoop_Cons:
  "registrationLoop cm v (conv # convs) path m = registrationLoop cm v convs path (tryChain cm v path conv m)"
  by (simp add: tryChain_def)

lemma registrationLoop_fold: "registrationLoop cm v convs path m = fold (tryChain cm v path) convs m"
  by (induction convs arbitrary: m) (simp_all add: registrationLoop_Cons del: registrationLoop.simps(2))

text \<open>Induction over the calls: one step per converter tried.\<close>

lemma registration_induct [case_names recurse nil cons]:
  assumes "\<And>cm v path m. (\<And>cs. map_of cm v = Some cs \<Longrightarrow> Q cm v cs path m) \<Longrightarrow> P cm v path m"
    and "\<And>cm v path m. Q cm v [] path m"
    and "\<And>cm v conv convs path m.
      (\<And>chain. nextChain v path conv = Some chain \<Longrightarrow> m (cp_tuple chain) = None \<Longrightarrow>
         P cm (t_target (cp_tuple chain)) (Some chain) (m(cp_tuple chain \<mapsto> chain))) \<Longrightarrow>
      Q cm v convs path (tryChain cm v path conv m) \<Longrightarrow> Q cm v (conv # convs) path m"
  shows "P cm v path m" "Q cm v' convs path' m'"
  using assms
  by (induction cm v path m and cm v' convs path' m' rule: recursiveConverterRegistration_registrationLoop.induct)
    (simp_all add: tryChain_def)

lemma registration_grows:
  "m \<subseteq>\<^sub>m recursiveConverterRegistration cm v path m"
  "m' \<subseteq>\<^sub>m registrationLoop cm v' convs path' m'"
proof (induction cm v path m and cm v' convs path' m' rule: registration_induct)
  case (recurse cm v path m)
  then show ?case by (simp add: recursiveConverterRegistration.simps split: option.split)
next
  case (cons cm v conv convs path m)
  have "m \<subseteq>\<^sub>m tryChain cm v path conv m"
  proof (cases rule: tryChain_cases [of v path conv cm m])
    case (new chain)
    show ?thesis unfolding new(3) by (rule map_le_upd_trans [OF new(2) cons.IH(1) [OF new(1,2)]])
  qed simp_all
  with cons.IH(2) show ?case unfolding registrationLoop_Cons by (rule map_le_trans [rotated])
qed simp

lemma registration_source:
  "t_source k \<noteq> path_source v path \<Longrightarrow> recursiveConverterRegistration cm v path m k = m k"
  "t_source k \<noteq> path_source v' path' \<Longrightarrow> registrationLoop cm v' convs path' m' k = m' k"
proof (induction cm v path m and cm v' convs path' m' rule: registration_induct)
  case (recurse cm v path m)
  then show ?case by (simp add: recursiveConverterRegistration.simps split: option.split)
next
  case (cons cm v conv convs path m)
  have "tryChain cm v path conv m k = m k"
  proof (cases rule: tryChain_cases [of v path conv cm m])
    case (new chain)
    note tuple = nextChain_tuple [OF new(1)]
    have "tryChain cm v path conv m k = (m(cp_tuple chain \<mapsto> chain)) k"
      unfolding new(3) by (rule cons.IH(1) [OF new(1,2)]) (use cons.prems tuple in simp)
    then show ?thesis using cons.prems tuple by auto
  qed simp_all
  with cons.IH(2) [OF cons.prems] show ?case by (simp only: registrationLoop_Cons)
qed simp

lemma tryChain_source: "t_source k \<noteq> path_source v path \<Longrightarrow> tryChain cm v path conv m k = m k"
proof (cases rule: tryChain_cases [of v path conv cm m])
  case (new chain)
  then show "t_source k \<noteq> path_source v path \<Longrightarrow> ?thesis"
    using registration_source(1) [of k "t_target (cp_tuple chain)" "Some chain" cm "m(cp_tuple chain \<mapsto> chain)"]
      nextChain_tuple [OF new(1)] by auto
qed simp_all

text \<open>The entries of one source version depend on the entries of that source version only.\<close>

definition agree :: "version \<Rightarrow> 'a pathTable \<Rightarrow> 'a pathTable \<Rightarrow> bool" where
  "agree s m n \<longleftrightarrow> (\<forall>k. t_source k = s \<longrightarrow> m k = n k)"

lemma agree_upd: "agree s m n \<Longrightarrow> agree s (m(k \<mapsto> p)) (n(k \<mapsto> p))"
  by (simp add: agree_def)

lemma registration_local:
  "agree (path_source v path) m n \<Longrightarrow>
     agree (path_source v path) (recursiveConverterRegistration cm v path m)
       (recursiveConverterRegistration cm v path n)"
  "agree (path_source v' path') m' n \<Longrightarrow>
     agree (path_source v' path') (registrationLoop cm v' convs path' m') (registrationLoop cm v' convs path' n)"
proof (induction cm v path m and cm v' convs path' m' arbitrary: n and n rule: registration_induct)
  case (recurse cm v path m)
  then show ?case
    by (cases "map_of cm v") (simp_all add: recursiveConverterRegistration.simps)
next
  case (cons cm v conv convs path m)
  have "agree (path_source v path) (tryChain cm v path conv m) (tryChain cm v path conv n)"
  proof (cases "nextChain v path conv")
    case (Some chain)
    note tuple = nextChain_tuple [OF Some]
    with cons.prems have same: "m (cp_tuple chain) = n (cp_tuple chain)" by (simp add: agree_def)
    show ?thesis
    proof (cases "m (cp_tuple chain) = None")
      case True
      have src: "path_source (t_target (cp_tuple chain)) (Some chain) = path_source v path"
        by (simp add: tuple)
      have "agree (path_source v path)
          (recursiveConverterRegistration cm (t_target (cp_tuple chain)) (Some chain) (m(cp_tuple chain \<mapsto> chain)))
          (recursiveConverterRegistration cm (t_target (cp_tuple chain)) (Some chain) (n(cp_tuple chain \<mapsto> chain)))"
        using cons.IH(1) [OF Some True, of "n(cp_tuple chain \<mapsto> chain)"] agree_upd [OF cons.prems]
        unfolding src by blast
      then show ?thesis
        by (simp only: tryChain_def Some option.case True same [symmetric] if_True simp_thms)
    qed (use Some same cons.prems in \<open>auto simp: tryChain_def\<close>)
  qed (use cons.prems in \<open>simp add: tryChain_def\<close>)
  then show ?case unfolding registrationLoop_Cons by (rule cons.IH(2))
qed simp


text \<open>
  The entries of a source version are those its own iteration of the outer loop registers, from any
  table; so the order of the iterations does not matter.
\<close>

lemma registration_None_other:
  "t_source k \<noteq> v \<Longrightarrow> recursiveConverterRegistration cm v None m k = m k"
  using registration_source(1) [of k v None cm m] by (simp add: path_source_def)

lemma outer_loop_other:
  "t_source k \<notin> set order \<Longrightarrow>
     fold (\<lambda>ver m. recursiveConverterRegistration cm ver None m) order m k = m k"
  by (induction order arbitrary: m) (auto simp: registration_None_other)

lemma outer_loop_entries:
  assumes "distinct order" and "\<And>k. t_source k \<in> set order \<Longrightarrow> m k = None"
  shows "fold (\<lambda>ver m. recursiveConverterRegistration cm ver None m) order m k =
    (if t_source k \<in> set order
     then recursiveConverterRegistration cm (t_source k) None Map.empty k else m k)"
  using assms
proof (induction order arbitrary: m)
  case (Cons v order)
  let ?m = "recursiveConverterRegistration cm v None m"
  show ?case
  proof (cases "t_source k = v")
    case True
    have "agree v m Map.empty" using Cons.prems(2) by (simp add: agree_def)
    then have "?m k = recursiveConverterRegistration cm v None Map.empty k"
      using registration_local(1) [of v None m Map.empty cm] True by (simp add: agree_def path_source_def)
    moreover have "t_source k \<notin> set order" using Cons.prems(1) True by auto
    ultimately show ?thesis using True by (simp add: outer_loop_other)
  next
    case False
    have "\<And>k. t_source k \<in> set order \<Longrightarrow> ?m k = None"
      using Cons.prems by (metis distinct.simps(2) list.set_intros(2) registration_None_other)
    then show ?thesis
      using Cons.IH [of ?m] Cons.prems(1) False by (simp add: registration_None_other)
  qed
qed simp

lemma newIgnitionConverter_paths:
  assumes "valid_order order convs"
  shows "ic_converterPaths (newIgnitionConverter order convs) k =
    (if t_source k \<in> (t_source \<circ> cv_tuple) ` set convs
     then recursiveConverterRegistration (versionsConverters convs) (t_source k) None Map.empty k
     else None)"
  using assms outer_loop_entries [of order Map.empty "versionsConverters convs" k]
  by (simp add: newIgnitionConverter_def valid_order_def versionsConverters_keys)

section \<open>Every registered path is a way\<close>

fun chain_links :: "version \<Rightarrow> 'a converter list \<Rightarrow> version \<Rightarrow> bool" where
  "chain_links s [] t = (s = t)"
| "chain_links s (c # cs) t = (t_source (cv_tuple c) = s \<and> chain_links (t_target (cv_tuple c)) cs t)"

lemma chain_links_snoc:
  "chain_links s cs u \<Longrightarrow> t_source (cv_tuple c) = u \<Longrightarrow> chain_links s (cs @ [c]) (t_target (cv_tuple c))"
  by (induction cs arbitrary: s) auto

definition path_ok :: "'a converter list \<Rightarrow> 'a conversionPath \<Rightarrow> bool" where
  "path_ok convs p \<longleftrightarrow>
     cp_chain p \<noteq> [] \<and> chain_links (t_source (cp_tuple p)) (cp_chain p) (t_target (cp_tuple p)) \<and>
     (\<forall>c\<in>set (cp_chain p). c \<in> set convs \<and> IsUp (cv_tuple c) = IsUp (cp_tuple p))"

definition table_ok :: "'a converter list \<Rightarrow> 'a pathTable \<Rightarrow> bool" where
  "table_ok convs m \<longleftrightarrow> (\<forall>k p. m k = Some p \<longrightarrow> cp_tuple p = k \<and> path_ok convs p)"

definition start_ok :: "'a converter list \<Rightarrow> version \<Rightarrow> 'a conversionPath option \<Rightarrow> bool" where
  "start_ok convs v path \<longleftrightarrow>
     (case path of None \<Rightarrow> True | Some p \<Rightarrow> path_ok convs p \<and> t_target (cp_tuple p) = v)"

definition map_ok :: "'a converter list \<Rightarrow> 'a converterMap \<Rightarrow> bool" where
  "map_ok convs cm \<longleftrightarrow>
     (\<forall>v. map_of cm v = (let cs = filter (\<lambda>c. t_source (cv_tuple c) = v) convs in if cs = [] then None else Some cs))"

lemma map_ok_versionsConverters: "map_ok convs (versionsConverters convs)"
  by (simp add: map_ok_def map_of_versionsConverters)

lemma tuple_eta [simp]: "\<lparr>t_source = t_source k, t_target = t_target k\<rparr> = (k :: conversionTuple)"
  by simp

text \<open>Extending a path keeps its direction (by the laws of the version order).\<close>

lemma nextChain_path_ok:
  assumes "start_ok convs v path" and "conv \<in> set convs" and "t_source (cv_tuple conv) = v"
    and chain: "nextChain v path conv = Some chain"
  shows "path_ok convs chain"
proof (cases path)
  case None
  with chain have "chain = \<lparr>cp_tuple = cv_tuple conv, cp_chain = [conv]\<rparr>"
    using assms(3) by (auto simp: nextChain_def Let_def)
  with assms(2) show ?thesis by (simp add: path_ok_def)
next
  case (Some p)
  let ?u = "t_target (cv_tuple conv)"
  have p: "path_ok convs p" "t_target (cp_tuple p) = v" using assms(1) Some by (simp_all add: start_ok_def)
  have tuple: "\<lparr>t_source = v, t_target = ?u\<rparr> = cv_tuple conv" using assms(3) by auto
  have dir: "IsUp (cp_tuple p) = IsUp (cv_tuple conv)" and c: "chain = newPathFromExisting p conv"
    using chain Some tuple by (auto simp: nextChain_def Let_def split: if_splits)
  have "IsUp (cp_tuple chain) = IsUp (cp_tuple p)"
    using semver.direction_extends [of "t_source (cp_tuple p)" v ?u] dir p(2) assms(3)
    by (simp add: c newPathFromExisting_def IsUp_def)
  then show ?thesis
    using p assms(2,3) dir
    by (auto simp: path_ok_def c newPathFromExisting_def intro: chain_links_snoc)
qed

lemma registration_table_ok:
  "map_ok cs cm \<Longrightarrow> start_ok cs v path \<Longrightarrow> table_ok cs m \<Longrightarrow>
     table_ok cs (recursiveConverterRegistration cm v path m)"
  "map_ok cs cm \<Longrightarrow> start_ok cs v' path' \<Longrightarrow> \<forall>c\<in>set convs. c \<in> set cs \<and> t_source (cv_tuple c) = v' \<Longrightarrow>
     table_ok cs m' \<Longrightarrow> table_ok cs (registrationLoop cm v' convs path' m')"
proof (induction cm v path m and cm v' convs path' m' rule: registration_induct)
  case (recurse cm v path m)
  show ?case
  proof (cases "map_of cm v")
    case (Some vs)
    have "\<forall>c\<in>set vs. c \<in> set cs \<and> t_source (cv_tuple c) = v"
      using recurse.prems(1) Some by (auto simp: map_ok_def Let_def split: if_splits)
    with recurse.IH [OF Some] recurse.prems Some show ?thesis
      by (simp add: recursiveConverterRegistration.simps)
  qed (use recurse.prems in \<open>simp add: recursiveConverterRegistration.simps\<close>)
next
  case (cons cm v conv convs path m)
  have "table_ok cs (tryChain cm v path conv m)"
  proof (cases rule: tryChain_cases [of v path conv cm m])
    case (new chain)
    have ok: "path_ok cs chain" using nextChain_path_ok [OF cons.prems(2) _ _ new(1)] cons.prems(3) by simp
    then have "start_ok cs (t_target (cp_tuple chain)) (Some chain)" by (simp add: start_ok_def)
    moreover have "table_ok cs (m(cp_tuple chain \<mapsto> chain))"
      using cons.prems(4) ok by (simp add: table_ok_def)
    ultimately show ?thesis unfolding new(3) by (rule cons.IH(1) [OF new(1,2) cons.prems(1)])
  qed (use cons.prems(4) in simp_all)
  moreover have "\<forall>c\<in>set convs. c \<in> set cs \<and> t_source (cv_tuple c) = v" using cons.prems(3) by simp
  ultimately show ?case unfolding registrationLoop_Cons using cons.IH(2) [OF cons.prems(1,2)] by blast
qed simp

lemma newIgnitionConverter_table_ok:
  assumes "valid_order order convs"
  shows "table_ok convs (ic_converterPaths (newIgnitionConverter order convs))"
proof -
  have "table_ok convs (recursiveConverterRegistration (versionsConverters convs) v None Map.empty)" for v
    by (rule registration_table_ok(1)) (simp_all add: map_ok_versionsConverters start_ok_def table_ok_def)
  then show ?thesis
    by (auto simp: table_ok_def newIgnitionConverter_paths [OF assms] split: if_splits)
qed

section \<open>Every way is registered\<close>

inductive way :: "'a converter list \<Rightarrow> bool \<Rightarrow> version \<Rightarrow> version \<Rightarrow> bool" for convs up where
  hop: "c \<in> set convs \<Longrightarrow> IsUp (cv_tuple c) = up \<Longrightarrow>
     way convs up (t_source (cv_tuple c)) (t_target (cv_tuple c))"
| step: "way convs up s t \<Longrightarrow> c \<in> set convs \<Longrightarrow> t_source (cv_tuple c) = t \<Longrightarrow> IsUp (cv_tuple c) = up \<Longrightarrow>
     way convs up s (t_target (cv_tuple c))"

lemma way_direction: "way convs up s t \<Longrightarrow> IsUp \<lparr>t_source = s, t_target = t\<rparr> = up"
proof (induction rule: way.induct)
  case (step s t c)
  then show ?case
    using semver.direction_extends [of s t "t_target (cv_tuple c)"] by (simp add: IsUp_def)
qed simp

lemma way_source: "way convs up s t \<Longrightarrow> s \<in> (t_source \<circ> cv_tuple) ` set convs"
  by (induction rule: way.induct) auto

lemma chain_links_append:
  "chain_links s (as @ bs) t \<longleftrightarrow> (\<exists>u. chain_links s as u \<and> chain_links u bs t)"
  by (induction as arbitrary: s) auto

lemma chain_links_way:
  "chain_links s cs t \<Longrightarrow> cs \<noteq> [] \<Longrightarrow> \<forall>c\<in>set cs. c \<in> set convs \<and> IsUp (cv_tuple c) = up \<Longrightarrow> way convs up s t"
proof (induction cs arbitrary: t rule: rev_induct)
  case (snoc c cs)
  from snoc.prems(1) obtain u where u: "chain_links s cs u" "t_source (cv_tuple c) = u" "t = t_target (cv_tuple c)"
    by (auto simp: chain_links_append)
  show ?case
  proof (cases "cs = []")
    case True
    with u snoc.prems(3) show ?thesis using way.hop [of c convs up] by simp
  next
    case False
    then have "way convs up s u" using snoc.IH [OF u(1)] snoc.prems(3) by simp
    with u(2,3) snoc.prems(3) show ?thesis using way.step by fastforce
  qed
qed simp

definition closed_new :: "'a converter list \<Rightarrow> version \<Rightarrow> 'a pathTable \<Rightarrow> 'a pathTable \<Rightarrow> bool" where
  "closed_new convs s m m' \<longleftrightarrow>
     (\<forall>c\<in>set convs. let k = \<lparr>t_source = s, t_target = t_source (cv_tuple c)\<rparr> in
        m' k \<noteq> None \<longrightarrow> m k = None \<longrightarrow> IsUp (cv_tuple c) = IsUp k \<longrightarrow>
        m' \<lparr>t_source = s, t_target = t_target (cv_tuple c)\<rparr> \<noteq> None)"

lemma map_le_keeps: "m \<subseteq>\<^sub>m m' \<Longrightarrow> m k \<noteq> None \<Longrightarrow> m' k \<noteq> None"
  by (metis domIff map_le_def)

lemma closed_new_trans:
  "closed_new convs s m m' \<Longrightarrow> closed_new convs s m' m'' \<Longrightarrow> m' \<subseteq>\<^sub>m m'' \<Longrightarrow> closed_new convs s m m''"
  unfolding closed_new_def Let_def by (meson map_le_keeps)

lemma closed_new_refl: "closed_new convs s m m"
  by (auto simp: closed_new_def Let_def)

lemma nextChain_Some_iff:
  "nextChain v (Some p) conv \<noteq> None \<longleftrightarrow> IsUp (cp_tuple p) = IsUp \<lparr>t_source = v, t_target = t_target (cv_tuple conv)\<rparr>"
  by (simp add: nextChain_def Let_def)

text \<open>A chain put into the table keeps it closed, when what is registered after it is.\<close>

lemma closed_new_put:
  fixes cs :: "'a converter list"
  assumes closed: "closed_new cs s (m(cp_tuple chain \<mapsto> chain)) m'"
    and chain: "t_source (cp_tuple chain) = s"
    and here: "\<And>c. c \<in> set cs \<Longrightarrow> t_source (cv_tuple c) = t_target (cp_tuple chain) \<Longrightarrow>
      nextChain (t_target (cp_tuple chain)) (Some chain) c \<noteq> None \<Longrightarrow>
      m' \<lparr>t_source = s, t_target = t_target (cv_tuple c)\<rparr> \<noteq> None"
  shows "closed_new cs s m m'"
  unfolding closed_new_def Let_def
proof (intro ballI impI)
  fix c :: "'a converter"
  let ?kc = "\<lparr>t_source = s, t_target = t_source (cv_tuple c)\<rparr>"
  assume c: "c \<in> set cs" "m' ?kc \<noteq> None" "m ?kc = None" "IsUp (cv_tuple c) = IsUp ?kc"
  show "m' \<lparr>t_source = s, t_target = t_target (cv_tuple c)\<rparr> \<noteq> None"
  proof (cases "?kc = cp_tuple chain")
    case True
    then have t: "t_source (cv_tuple c) = t_target (cp_tuple chain)" by (metis conversionTuple.select_convs(2))
    with c(4) True have "nextChain (t_target (cp_tuple chain)) (Some chain) c \<noteq> None"
      unfolding nextChain_Some_iff by (metis tuple_eta)
    then show ?thesis by (rule here [OF c(1) t])
  next
    case False
    then have "(m(cp_tuple chain \<mapsto> chain)) ?kc = None" using c(3) by simp
    with closed c(1,2,4) show ?thesis unfolding closed_new_def Let_def by blast
  qed
qed

lemma registration_closed:
  "map_ok cs cm \<Longrightarrow>
     closed_new cs (path_source v path) m (recursiveConverterRegistration cm v path m) \<and>
     (\<forall>c\<in>set cs. t_source (cv_tuple c) = v \<longrightarrow> nextChain v path c \<noteq> None \<longrightarrow>
        recursiveConverterRegistration cm v path m
          \<lparr>t_source = path_source v path, t_target = t_target (cv_tuple c)\<rparr> \<noteq> None)"
  "map_ok cs cm \<Longrightarrow>
     closed_new cs (path_source v' path') m' (registrationLoop cm v' convs path' m') \<and>
     (\<forall>c\<in>set convs. nextChain v' path' c \<noteq> None \<longrightarrow>
        registrationLoop cm v' convs path' m'
          \<lparr>t_source = path_source v' path', t_target = t_target (cv_tuple c)\<rparr> \<noteq> None)"
proof (induction cm v path m and cm v' convs path' m' rule: registration_induct)
  case (recurse cm v path m)
  show ?case
  proof (cases "map_of cm v")
    case None
    then have "\<forall>c\<in>set cs. t_source (cv_tuple c) \<noteq> v"
      using recurse.prems by (auto simp: map_ok_def Let_def filter_empty_conv split: if_splits)
    with None show ?thesis by (simp add: recursiveConverterRegistration.simps closed_new_refl)
  next
    case (Some vs)
    then have "set vs = {c \<in> set cs. t_source (cv_tuple c) = v}"
      using recurse.prems by (auto simp: map_ok_def Let_def split: if_splits)
    with Some recurse.IH [OF Some recurse.prems] show ?thesis
      by (simp add: recursiveConverterRegistration.simps)
  qed
next
  case (cons cm v conv convs path m)
  let ?s = "path_source v path" and ?m' = "tryChain cm v path conv m"
  let ?k = "\<lparr>t_source = ?s, t_target = t_target (cv_tuple conv)\<rparr>"
  have "closed_new cs ?s m ?m' \<and> (nextChain v path conv \<noteq> None \<longrightarrow> ?m' ?k \<noteq> None)"
  proof (cases rule: tryChain_cases [of v path conv cm m])
    case (new chain)
    note k = nextChain_tuple [OF new(1)]
    let ?m1 = "m(cp_tuple chain \<mapsto> chain)"
    have src: "path_source (t_target (cp_tuple chain)) (Some chain) = ?s" by (simp add: k)
    note IH = cons.IH(1) [OF new(1,2) cons.prems, unfolded src, folded new(3)]
    have le: "?m1 \<subseteq>\<^sub>m ?m'" unfolding new(3) by (rule registration_grows)
    have "?m1 (cp_tuple chain) \<noteq> None" by simp
    then have reg: "?m' ?k \<noteq> None" using map_le_keeps [OF le] k by metis
    have "closed_new cs ?s m ?m'"
      by (rule closed_new_put [OF conjunct1 [OF IH]]) (use k IH in \<open>simp, blast\<close>)
    with reg show ?thesis by simp
  next
    case (taken chain)
    then show ?thesis using nextChain_tuple [OF taken(1)] by (simp add: closed_new_refl)
  qed (simp add: closed_new_refl)
  moreover note IH = cons.IH(2) [OF cons.prems]
  moreover have "?m' \<subseteq>\<^sub>m registrationLoop cm v convs path ?m'" by (rule registration_grows)
  ultimately show ?case
    unfolding registrationLoop_Cons by (auto intro: closed_new_trans dest: map_le_keeps)
qed (simp add: closed_new_refl)

lemma way_registered:
  assumes "way convs up s t"
  shows "recursiveConverterRegistration (versionsConverters convs) s None Map.empty
           \<lparr>t_source = s, t_target = t\<rparr> \<noteq> None"
  using assms
proof (induction rule: way.induct)
  case (hop c)
  have "nextChain (t_source (cv_tuple c)) None c \<noteq> None" by (simp add: nextChain_def)
  with hop show ?case
    using registration_closed(1) [OF map_ok_versionsConverters [of convs], of "t_source (cv_tuple c)" None Map.empty]
    by (simp add: path_source_def del: tuple_eta)
next
  case (step s t c)
  let ?m = "recursiveConverterRegistration (versionsConverters convs) s None Map.empty"
  have closed: "closed_new convs s Map.empty ?m"
    using registration_closed(1) [OF map_ok_versionsConverters [of convs], of s None Map.empty]
    by (simp add: path_source_def)
  have "IsUp (cv_tuple c) = IsUp \<lparr>t_source = s, t_target = t_source (cv_tuple c)\<rparr>"
    using way_direction [OF step.hyps(1)] step.hyps(3,4) by simp
  with closed step show ?case by (auto simp: closed_new_def Let_def)
qed

lemma registered_iff_way:
  assumes order: "valid_order order convs"
  shows "ic_converterPaths (newIgnitionConverter order convs) k \<noteq> None \<longleftrightarrow>
    (\<exists>up. way convs up (t_source k) (t_target k))"
proof
  assume "\<exists>up. way convs up (t_source k) (t_target k)"
  then obtain up where w: "way convs up (t_source k) (t_target k)" ..
  then show "ic_converterPaths (newIgnitionConverter order convs) k \<noteq> None"
    using way_registered [OF w] way_source [OF w] by (simp add: newIgnitionConverter_paths [OF order])
next
  assume "ic_converterPaths (newIgnitionConverter order convs) k \<noteq> None"
  then obtain p where "ic_converterPaths (newIgnitionConverter order convs) k = Some p" by blast
  then have "cp_tuple p = k" "path_ok convs p"
    using newIgnitionConverter_table_ok [OF order] by (auto simp: table_ok_def)
  then have "way convs (IsUp k) (t_source k) (t_target k)"
    unfolding path_ok_def by (intro chain_links_way) auto
  then show "\<exists>up. way convs up (t_source k) (t_target k)" ..
qed

end
