(* ===== verification/IgnTable.thy ===== *)
theory IgnTable
  imports IgnTypes IgnPaths
begin

text \<open>
  The converter instance that the package builds, \<open>newIgnitionConverter(buildConverterList())\<close>: which
  conversions it supports, by which chain of library functions, and what \<open>Convert\<close> returns.
\<close>

definition ignitionConverter :: "version list \<Rightarrow> 'c translators \<Rightarrow> 'c ign_any ignitionConverter" where
  "ignitionConverter order tr = newIgnitionConverter order (buildConverterList tr)"

definition IgnitionConverterSingleton :: "version list \<Rightarrow> 'c translators \<Rightarrow> 'c ign_any ignitionConverter" where
  "IgnitionConverterSingleton order tr = ignitionConverter order tr"

definition converter_sources :: "version list" where
  "converter_sources = [mkVersion 3 5, mkVersion 3 4, mkVersion 3 3, mkVersion 3 2, mkVersion 2 2, mkVersion 3 0]"

text \<open>An order in which Go may range over the six source versions.\<close>

definition source_order :: "version list \<Rightarrow> bool" where
  "source_order order \<longleftrightarrow> distinct order \<and> set order = set converter_sources"

section \<open>The hops\<close>

lemma mkVersion_inj [simp]: "mkVersion a b = mkVersion c d \<longleftrightarrow> a = c \<and> b = d"
  by (simp add: mkVersion_def)

lemma Compare_mkVersion:
  "version_Compare (mkVersion a b) (mkVersion c d) =
     (if a > c then 1 else if a < c then - 1 else if b > d then 1 else if b < d then - 1 else 0)"
  by (simp add: version_Compare_def version_Slice_def preReleaseCompare_def mkVersion_def
      parse_int64_def)

lemma Equal_mkVersion [simp]:
  "version_Equal (mkVersion a b) (mkVersion c d) \<longleftrightarrow> a = c \<and> b = d"
  by (auto simp: version_Equal_def Compare_mkVersion)

lemma IsUp_mkVersion:
  "IsUp \<lparr>t_source = mkVersion a b, t_target = mkVersion c d\<rparr> \<longleftrightarrow> a < c \<or> a = c \<and> b \<le> d"
  by (auto simp: IsUp_def Compare_mkVersion)

lemma typed33_tuple [simp]:
  "cv_tuple (typed33 s t f) = \<lparr>t_source = ign3_MaxVersion s, t_target = ign3_MaxVersion t\<rparr>"
  "cv_tuple (typed33_noError s t g) = \<lparr>t_source = ign3_MaxVersion s, t_target = ign3_MaxVersion t\<rparr>"
  by (simp_all add: typed33_def typed33_noError_def newFunctionConverterTypedNoError_def
      newFunctionConverterTyped_def newFunctionConverter_def)

lemma newFunctionConverterTyped_tuple [simp]:
  "cv_tuple (newFunctionConverterTyped proj emb s t f) = \<lparr>t_source = s, t_target = t\<rparr>"
  by (simp add: newFunctionConverterTyped_def newFunctionConverter_def)

lemma sources_buildConverterList:
  "(\<lambda>c. t_source (cv_tuple c)) ` set (buildConverterList tr) = set converter_sources"
  by (auto simp: buildConverterList_def converter_sources_def ign2_MaxVersion_def)

lemma valid_order_iff: "valid_order order (buildConverterList tr) \<longleftrightarrow> source_order order"
  by (simp add: valid_order_def source_order_def versionsConverters_keys sources_buildConverterList)

lemma sources_of:
  "filter (\<lambda>c. t_source (cv_tuple c) = v) (buildConverterList tr) =
    (if v = mkVersion 3 5 then [typed33 V3_5 V3_4 (tr_v35tov34 tr)]
     else if v = mkVersion 3 4 then
       [typed33_noError V3_4 V3_5 (tr_v34tov35 tr), typed33 V3_4 V3_3 (tr_v34tov33 tr)]
     else if v = mkVersion 3 3 then
       [typed33_noError V3_3 V3_4 (tr_v33tov34 tr), typed33 V3_3 V3_2 (tr_v33tov32 tr)]
     else if v = mkVersion 3 2 then
       [typed33_noError V3_2 V3_3 (tr_v32tov33 tr), typed33 V3_2 V3_1 (tr_v32tov31 tr),
        newFunctionConverterTyped (as_ign3 V3_2) Ign2_2 (ign3_MaxVersion V3_2) ign2_MaxVersion (tr_v32tov22 tr)]
     else if v = mkVersion 2 2 then
       [newFunctionConverterTyped as_ign2 (Ign3 V3_2) ign2_MaxVersion (ign3_MaxVersion V3_2) (v22tov32 tr)]
     else if v = mkVersion 3 0 then
       [typed33_noError V3_0 V3_2 (\<lambda>source. tr_v31tov32 tr (tr_v30tov31 tr source))]
     else [])"
  by (auto simp: buildConverterList_def ign2_MaxVersion_def)

lemma map_of_sources:
  "map_of (versionsConverters (buildConverterList tr)) v =
     (let cs = filter (\<lambda>c. t_source (cv_tuple c) = v) (buildConverterList tr) in if cs = [] then None else Some cs)"
  by (rule map_of_versionsConverters)

lemmas registration_eval =
  recursiveConverterRegistration.simps nextChain_def newPathFromExisting_def IsUp_mkVersion
  map_of_sources sources_of ign2_MaxVersion_def Let_def

text \<open>The chains from spec 3.0 and from spec 2.2 up to 3.5.\<close>

definition chain_up :: "'c translators \<Rightarrow> 'c ign_any converter list" where
  "chain_up tr =
     [typed33_noError V3_2 V3_3 (tr_v32tov33 tr), typed33_noError V3_3 V3_4 (tr_v33tov34 tr),
      typed33_noError V3_4 V3_5 (tr_v34tov35 tr)]"

lemma path_30_35:
  assumes "source_order order"
  shows "map_option cp_chain (ic_converterPaths (ignitionConverter order tr)
      \<lparr>t_source = mkVersion 3 0, t_target = mkVersion 3 5\<rparr>) =
    Some (typed33_noError V3_0 V3_2 (\<lambda>source. tr_v31tov32 tr (tr_v30tov31 tr source)) # chain_up tr)"
  using assms unfolding ignitionConverter_def
  by (simp add: newIgnitionConverter_paths valid_order_iff sources_buildConverterList converter_sources_def
      chain_up_def registration_eval)


lemma path_22_35:
  assumes "source_order order"
  shows "map_option cp_chain (ic_converterPaths (ignitionConverter order tr)
      \<lparr>t_source = mkVersion 2 2, t_target = mkVersion 3 5\<rparr>) =
    Some (newFunctionConverterTyped as_ign2 (Ign3 V3_2) ign2_MaxVersion (ign3_MaxVersion V3_2) (v22tov32 tr)
          # chain_up tr)"
  using assms unfolding ignitionConverter_def
  by (simp add: newIgnitionConverter_paths valid_order_iff sources_buildConverterList converter_sources_def
      chain_up_def registration_eval)

lemma path_35_22:
  assumes "source_order order"
  shows "map_option cp_chain (ic_converterPaths (ignitionConverter order tr)
      \<lparr>t_source = mkVersion 3 5, t_target = mkVersion 2 2\<rparr>) =
    Some [typed33 V3_5 V3_4 (tr_v35tov34 tr), typed33 V3_4 V3_3 (tr_v34tov33 tr),
          typed33 V3_3 V3_2 (tr_v33tov32 tr),
          newFunctionConverterTyped (as_ign3 V3_2) Ign2_2 (ign3_MaxVersion V3_2) ign2_MaxVersion (tr_v32tov22 tr)]"
  using assms unfolding ignitionConverter_def
  by (simp add: newIgnitionConverter_paths valid_order_iff sources_buildConverterList converter_sources_def
      registration_eval)

section \<open>The supported pairs\<close>

text \<open>All the pairs a path is registered for, source by source.\<close>

definition supported_targets :: "version \<Rightarrow> version list" where
  "supported_targets v =
     (if v = mkVersion 3 5 then [mkVersion 3 4, mkVersion 3 3, mkVersion 3 2, mkVersion 3 1, mkVersion 2 2]
      else if v = mkVersion 3 4 then [mkVersion 3 5, mkVersion 3 3, mkVersion 3 2, mkVersion 3 1, mkVersion 2 2]
      else if v = mkVersion 3 3 then [mkVersion 3 4, mkVersion 3 5, mkVersion 3 2, mkVersion 3 1, mkVersion 2 2]
      else if v = mkVersion 3 2 then [mkVersion 3 3, mkVersion 3 4, mkVersion 3 5, mkVersion 3 1, mkVersion 2 2]
      else if v = mkVersion 2 2 then [mkVersion 3 2, mkVersion 3 3, mkVersion 3 4, mkVersion 3 5]
      else if v = mkVersion 3 0 then [mkVersion 3 2, mkVersion 3 3, mkVersion 3 4, mkVersion 3 5]
      else [])"

lemma supported_pairs:
  assumes "source_order order"
  shows "ic_converterPaths (ignitionConverter order tr) k \<noteq> None \<longleftrightarrow>
    t_target k \<in> set (supported_targets (t_source k))"
  using assms unfolding ignitionConverter_def
  by (cases k) (simp add: newIgnitionConverter_paths valid_order_iff sources_buildConverterList converter_sources_def
      registration_eval supported_targets_def)

section \<open>The supported versions\<close>

lemma supported_versions:
  "ic_supportedVersions (ignitionConverter order tr) =
     [mkVersion 2 2, mkVersion 3 0, mkVersion 3 1, mkVersion 3 2, mkVersion 3 3, mkVersion 3 4, mkVersion 3 5]"
  by (simp add: ignitionConverter_def newIgnitionConverter_def buildConverterList_def registerConverterVersions_def
      registerVersion_def ign2_MaxVersion_def semver_Sort_def version_LessThan_def Compare_mkVersion)

lemma supported_minor_versions:
  "GetSupportedMinorVersions (ignitionConverter order tr) =
     [''2.2'', ''3.0'', ''3.1'', ''3.2'', ''3.3'', ''3.4'', ''3.5'']"
  by (simp add: GetSupportedMinorVersions_def supported_versions mkVersion_def format_int_def fmt_nat_eval)

section \<open>What Convert returns\<close>

lemma converter_Convert_typed:
  "converter_Convert (typed33_noError s t g) (Ign3 s c) = Ok (Ign3 t (g c))"
  by (simp add: converter_Convert_def typed33_noError_def newFunctionConverterTypedNoError_def
      newFunctionConverterTyped_def newFunctionConverter_def)

definition upgrade_from_32 :: "'c translators \<Rightarrow> 'c \<Rightarrow> 'c" where
  "upgrade_from_32 tr c = tr_v34tov35 tr (tr_v33tov34 tr (tr_v32tov33 tr c))"

lemma chain_up_run:
  "rfold (\<lambda>result conv. converter_Convert conv result) (Ign3 V3_2 c) (chain_up tr) =
     Ok (Ign3 V3_5 (upgrade_from_32 tr c))"
  by (simp add: chain_up_def converter_Convert_typed upgrade_from_32_def)

lemma Convert_path:
  assumes "map_option cp_chain (ic_converterPaths ic \<lparr>t_source = s, t_target = t\<rparr>) = Some chain"
    and "\<not> version_Equal s t"
  shows "Convert ic x s t = rfold (\<lambda>result conv. converter_Convert conv result) x chain"
  using assms by (auto simp: Convert_def)

lemma Convert_30_35:
  assumes "source_order order"
  shows "Convert (ignitionConverter order tr) (Ign3 V3_0 c) (mkVersion 3 0) (mkVersion 3 5) =
    Ok (Ign3 V3_5 (upgrade_from_32 tr (tr_v31tov32 tr (tr_v30tov31 tr c))))"
  using chain_up_run [of "tr_v31tov32 tr (tr_v30tov31 tr c)" tr]
  by (simp add: Convert_path [OF path_30_35 [OF assms]] converter_Convert_typed)

lemma converter_Convert_22:
  "converter_Convert (newFunctionConverterTyped as_ign2 (Ign3 V3_2) s t f) (Ign2_2 c) =
    (case f c of
       Ok x \<Rightarrow> Ok (Ign3 V3_2 x)
     | Err e \<Rightarrow> if err_is WrongSourceType e
         then Err (ErrWrap (''conversion from '' @ version_String s @ '' to '' @ version_String t @ '' failed: '') e [])
         else Err e
     | Panic p \<Rightarrow> Panic p)"
  by (simp add: converter_Convert_def newFunctionConverterTyped_def newFunctionConverter_def split: result.split)

text \<open>
  From spec 2.2 the only step that can fail is the translation from 2.3 to 3.0; its error comes back
  with the text the converter adds.
\<close>

lemma Convert_22_35:
  assumes "source_order order"
  shows "Convert (ignitionConverter order tr) (Ign2_2 c) (mkVersion 2 2) (mkVersion 3 5) =
    rbind (converter_Convert
        (newFunctionConverterTyped as_ign2 (Ign3 V3_2) ign2_MaxVersion (ign3_MaxVersion V3_2) (v22tov32 tr)) (Ign2_2 c))
      (\<lambda>r. rfold (\<lambda>result conv. converter_Convert conv result) r (chain_up tr))"
  by (simp add: Convert_path [OF path_22_35 [OF assms]])

lemma Convert_22_35_Ok_iff:
  assumes "source_order order"
  shows "Convert (ignitionConverter order tr) (Ign2_2 c) (mkVersion 2 2) (mkVersion 3 5) = Ok r \<longleftrightarrow>
    (\<exists>c30. tr_v23tov30 tr (tr_v22tov23 tr c) [''root'' \<mapsto> ''/''] = Ok c30 \<and>
       r = Ign3 V3_5 (upgrade_from_32 tr (tr_v31tov32 tr (tr_v30tov31 tr c30))))"
  unfolding Convert_22_35 [OF assms]
  by (cases "tr_v23tov30 tr (tr_v22tov23 tr c) [''root'' \<mapsto> ''/'']")
    (auto simp: converter_Convert_22 v22tov32_def chain_up_run)

end
