(* ===== verification/IgnDedup.thy ===== *)
theory IgnDedup
  imports IgnTypes
begin

text \<open>
  The removal of duplicates from a spec 2 configuration, of \<open>src/internal/common/helpers.go\<close>:
  \<open>dedupePasswdUserSSHKeys\<close> and \<open>removeIgnDuplicateFilesUnitsUsers\<close>. Its three loops share one
  contract, the locale \<open>keyed_dedup\<close>: remember the keys seen, append an element with a new key,
  and keep the list of keys as it is otherwise. The lemmas show what each loop keeps.
\<close>

section \<open>The interface\<close>

text \<open>The first occurrence of every element; \<^const>\<open>remdups\<close> keeps the last.\<close>

definition first_occurrences :: "'k list \<Rightarrow> 'k list" where
  "first_occurrences ks = rev (remdups (rev ks))"

lemma first_occurrences_set [simp]: "set (first_occurrences ks) = set ks"
  by (simp add: first_occurrences_def)

lemma first_occurrences_distinct [simp]: "distinct (first_occurrences ks)"
  by (simp add: first_occurrences_def)

lemma first_occurrences_Nil [simp]: "first_occurrences [] = []"
  by (simp add: first_occurrences_def)

lemma first_occurrences_snoc:
  "first_occurrences (ks @ [k]) = (if k \<in> set ks then first_occurrences ks else first_occurrences ks @ [k])"
  by (simp add: first_occurrences_def)

lemma first_occurrences_rev: "first_occurrences (rev ks) = rev (remdups ks)"
  by (simp add: first_occurrences_def)

locale keyed_dedup =
  fixes key :: "'a \<Rightarrow> 'k" and step :: "'a \<Rightarrow> 'k set \<times> 'a list \<Rightarrow> 'k set \<times> 'a list"
  assumes step_known: "key x \<in> known \<Longrightarrow>
      fst (step x (known, out)) = known \<and> List.map key (snd (step x (known, out))) = List.map key out"
    and step_new: "key x \<notin> known \<Longrightarrow> step x (known, out) = (insert (key x) known, out @ [x])"
begin

lemma run_keys:
  "fst (fold step xs ({}, [])) = key ` set xs \<and>
   List.map key (snd (fold step xs ({}, []))) = first_occurrences (List.map key xs)"
proof (induction xs rule: rev_induct)
  case (snoc x xs)
  obtain known out where st: "fold step xs ({}, []) = (known, out)" by fastforce
  with snoc have "known = key ` set xs" and "List.map key out = first_occurrences (List.map key xs)"
    by simp_all
  then show ?case
    using step_known [of x known out] step_new [of x known out]
    by (cases "key x \<in> known") (auto simp: st first_occurrences_snoc)
qed simp

lemma run_distinct: "distinct (List.map key (snd (fold step xs ({}, []))))"
  using run_keys [of xs] by simp

lemma run_mem_key: "key ` set (snd (fold step xs ({}, []))) = key ` set xs"
  using arg_cong [OF conjunct2 [OF run_keys [of xs]], of set] by simp

end

section \<open>SSH keys\<close>

definition sshKeyStep :: "string \<Rightarrow> string set \<times> string list \<Rightarrow> string set \<times> string list" where
  "sshKeyStep sshKey st =
     (case st of (knownSSHKeys, dedupedSSHKeys) \<Rightarrow>
        if sshKey \<in> knownSSHKeys then (knownSSHKeys, dedupedSSHKeys)
        else (insert sshKey knownSSHKeys, dedupedSSHKeys @ [sshKey]))"

definition dedupePasswdUserSSHKeys :: "ign2_user \<Rightarrow> ign2_user" where
  "dedupePasswdUserSSHKeys passwdUser =
     passwdUser\<lparr>pu_SSHAuthorizedKeys :=
       snd (fold sshKeyStep (pu_SSHAuthorizedKeys passwdUser) ({}, []))\<rparr>"

interpretation ssh: keyed_dedup "\<lambda>k. k" sshKeyStep
  by unfold_locales (auto simp: sshKeyStep_def)

lemma dedupePasswdUserSSHKeys_keys:
  "pu_SSHAuthorizedKeys (dedupePasswdUserSSHKeys u) = first_occurrences (pu_SSHAuthorizedKeys u)"
  using ssh.run_keys [of "pu_SSHAuthorizedKeys u"] by (simp add: dedupePasswdUserSSHKeys_def)

lemma dedupePasswdUserSSHKeys_other [simp]:
  "pu_Name (dedupePasswdUserSSHKeys u) = pu_Name u" "pu_Rest (dedupePasswdUserSSHKeys u) = pu_Rest u"
  by (simp_all add: dedupePasswdUserSSHKeys_def)

section \<open>Files\<close>

definition fileStep :: "ign2_file \<Rightarrow> string set \<times> ign2_file list \<Rightarrow> string set \<times> ign2_file list" where
  "fileStep file st =
     (case st of (filePathMap, outFiles) \<Rightarrow>
        if f2_Path file \<in> filePathMap then (filePathMap, outFiles)
        else (insert (f2_Path file) filePathMap, outFiles @ [file]))"

definition dedupFiles :: "ign2_file list \<Rightarrow> ign2_file list" where
  "dedupFiles files = snd (fold fileStep (rev files) ({}, []))"

interpretation files: keyed_dedup f2_Path fileStep
  by unfold_locales (auto simp: fileStep_def)

lemma dedupFiles_paths: "List.map f2_Path (dedupFiles files) = rev (remdups (List.map f2_Path files))"
  using files.run_keys [of "rev files"]
  by (simp add: dedupFiles_def rev_map [symmetric] first_occurrences_rev)

lemma find_snoc:
  "List.find P (xs @ [x]) = (case List.find P xs of None \<Rightarrow> if P x then Some x else None | Some y \<Rightarrow> Some y)"
  by (induction xs) auto

lemma fileStep_pair:
  "fileStep f (known, out) =
     (if f2_Path f \<in> known then (known, out) else (insert (f2_Path f) known, out @ [f]))"
  by (simp add: fileStep_def)

lemma fileStep_find:
  "fold fileStep fs ({}, []) = (known, out) \<Longrightarrow>
     List.find (\<lambda>f. f2_Path f = p) out = List.find (\<lambda>f. f2_Path f = p) fs"
proof (induction fs arbitrary: known out rule: rev_induct)
  case (snoc f fs)
  obtain known' out' where st: "fold fileStep fs ({}, []) = (known', out')" by fastforce
  have known: "known' = f2_Path ` set fs" using files.run_keys [of fs] by (simp add: st)
  have some: "f2_Path f \<in> known' \<Longrightarrow> List.find (\<lambda>g. f2_Path g = f2_Path f) fs \<noteq> None"
    by (auto simp: known find_None_iff)
  show ?case
    using snoc.prems snoc.IH [OF st] some
    by (auto simp: st fileStep_pair find_snoc split: if_splits option.splits)
qed simp

lemma dedupFiles_find:
  "List.find (\<lambda>f. f2_Path f = p) (dedupFiles files) = List.find (\<lambda>f. f2_Path f = p) (rev files)"
  by (metis dedupFiles_def fileStep_find surjective_pairing)

section \<open>Units\<close>

text \<open>The innermost loops: a drop-in of an older unit is appended unless one of that name is there.\<close>

definition addDropin :: "ign2_dropin \<Rightarrow> ign2_dropin list \<Rightarrow> ign2_dropin list" where
  "addDropin newDropin existing =
     (if list_ex (\<lambda>d. d2_Name d = d2_Name newDropin) existing then existing else existing @ [newDropin])"

definition appendDropins :: "ign2_unit \<Rightarrow> ign2_unit \<Rightarrow> ign2_unit" where
  "appendDropins old new = new\<lparr>u2_Dropins := fold addDropin (u2_Dropins old) (u2_Dropins new)\<rparr>"

definition unitStep :: "ign2_unit \<Rightarrow> string set \<times> ign2_unit list \<Rightarrow> string set \<times> ign2_unit list" where
  "unitStep unit st =
     (case st of (unitNameMap, outUnits) \<Rightarrow>
        let unitName = u2_Name unit in
        if unitName \<in> unitNameMap then
          (unitNameMap,
           if u2_Dropins unit \<noteq> []
           then List.map (\<lambda>out. if u2_Name out = unitName then appendDropins unit out else out) outUnits
           else outUnits)
        else (insert unitName unitNameMap, outUnits @ [unit]))"

definition dedupUnits :: "ign2_unit list \<Rightarrow> ign2_unit list" where
  "dedupUnits units = snd (fold unitStep (rev units) ({}, []))"

lemma appendDropins_name [simp]: "u2_Name (appendDropins old new) = u2_Name new"
  by (simp add: appendDropins_def)

interpretation units: keyed_dedup u2_Name unitStep
  by unfold_locales (auto simp: unitStep_def Let_def)

lemma dedupUnits_names: "List.map u2_Name (dedupUnits units) = rev (remdups (List.map u2_Name units))"
  using units.run_keys [of "rev units"]
  by (simp add: dedupUnits_def rev_map [symmetric] first_occurrences_rev)

text \<open>What the units of one name, the one with the highest priority first, become.\<close>

fun mergeUnits :: "ign2_unit list \<Rightarrow> ign2_unit option" where
  "mergeUnits [] = None"
| "mergeUnits (u # older) = Some (fold appendDropins older u)"

lemma mergeUnits_snoc:
  "mergeUnits (us @ [u]) = (case mergeUnits us of None \<Rightarrow> Some u | Some v \<Rightarrow> Some (appendDropins u v))"
  by (cases us) simp_all

lemma mergeUnits_None: "mergeUnits us = None \<longleftrightarrow> us = []"
  by (cases us) simp_all

lemma find_map_name:
  "(\<And>u. u2_Name (f u) = u2_Name u) \<Longrightarrow>
     List.find (\<lambda>u. u2_Name u = n) (List.map f us) = map_option f (List.find (\<lambda>u. u2_Name u = n) us)"
  by (induction us) auto

lemma find_name: "List.find (\<lambda>u. u2_Name u = n) us = Some v \<Longrightarrow> u2_Name v = n"
  by (auto simp: find_Some_iff)

lemma appendDropins_nil: "u2_Dropins u = [] \<Longrightarrow> appendDropins u v = v"
  by (simp add: appendDropins_def)

lemma append_none_map:
  "u2_Dropins u = [] \<Longrightarrow>
     List.map (\<lambda>v. if u2_Name v = u2_Name u then appendDropins u v else v) out = out"
  by (rule map_idI) (simp add: appendDropins_nil)

lemma unitStep_pair:
  "unitStep u (known, out) =
     (if u2_Name u \<in> known
      then (known, List.map (\<lambda>v. if u2_Name v = u2_Name u then appendDropins u v else v) out)
      else (insert (u2_Name u) known, out @ [u]))"
  using append_none_map [of u out] by (simp add: unitStep_def Let_def)

lemma unitStep_find:
  "fold unitStep us ({}, []) = (known, out) \<Longrightarrow>
     List.find (\<lambda>u. u2_Name u = n) out = mergeUnits (filter (\<lambda>u. u2_Name u = n) us)"
proof (induction us arbitrary: known out rule: rev_induct)
  case (snoc u us)
  obtain known' out' where st: "fold unitStep us ({}, []) = (known', out')" by fastforce
  have known: "known' = u2_Name ` set us" using units.run_keys [of us] by (simp add: st)
  have none: "filter (\<lambda>v. u2_Name v = u2_Name u) us = [] \<longleftrightarrow> u2_Name u \<notin> known'"
    by (auto simp: known filter_empty_conv image_iff)
  then have some: "u2_Name u \<in> known' \<Longrightarrow> mergeUnits (filter (\<lambda>v. u2_Name v = u2_Name u) us) \<noteq> None"
    by (simp add: mergeUnits_None)
  show ?case
    using snoc.prems snoc.IH [OF st] none some
    by (auto simp: st unitStep_pair find_snoc find_map_name mergeUnits_snoc dest!: find_name
        split: if_splits option.splits)
qed simp

lemma dedupUnits_find:
  "List.find (\<lambda>u. u2_Name u = n) (dedupUnits units) = mergeUnits (filter (\<lambda>u. u2_Name u = n) (rev units))"
  by (metis dedupUnits_def unitStep_find surjective_pairing)

section \<open>Users\<close>

definition unexpectedUser :: "ign2_user \<Rightarrow> error" where
  "unexpectedUser u =
     ErrText (''unexpected user with name: '' @ pu_Name u @ ''. Only core user is supported'')"

text \<open>The loop over the users, \<open>i\<close> from \<open>len(users) - 2\<close> down to 0, that collects the keys.\<close>

definition userStep :: "ign2_user \<Rightarrow> ign2_user \<Rightarrow> ign2_user result" where
  "userStep outUser user =
     (if pu_Name user \<noteq> ''core'' then Err (unexpectedUser user)
      else Ok (outUser\<lparr>pu_SSHAuthorizedKeys := pu_SSHAuthorizedKeys outUser @ pu_SSHAuthorizedKeys user\<rparr>))"

definition dedupUsers :: "ign2_user list \<Rightarrow> ign2_user list result" where
  "dedupUsers users =
     (case rev users of
        [] \<Rightarrow> Ok users
      | outUser # older \<Rightarrow>
          if pu_Name outUser \<noteq> ''core'' then Err (unexpectedUser outUser)
          else rbind (rfold userStep outUser older) (\<lambda>u. Ok [dedupePasswdUserSSHKeys u]))"

definition removeIgnDuplicateFilesUnitsUsers :: "ign2_config \<Rightarrow> ign2_config result" where
  "removeIgnDuplicateFilesUnitsUsers ignConfig =
     (let outFiles = dedupFiles (i2_Files ignConfig);
          outUnits = dedupUnits (i2_Units ignConfig) in
      rbind (dedupUsers (i2_Users ignConfig)) (\<lambda>users.
        Ok (ignConfig\<lparr>i2_Users := users, i2_Files := outFiles, i2_Units := outUnits\<rparr>)))"

lemma rfold_userStep:
  "\<forall>u\<in>set us. pu_Name u = ''core'' \<Longrightarrow>
     rfold userStep outUser us =
       Ok (outUser\<lparr>pu_SSHAuthorizedKeys :=
         pu_SSHAuthorizedKeys outUser @ concat (List.map pu_SSHAuthorizedKeys us)\<rparr>)"
  by (induction us arbitrary: outUser) (auto simp: userStep_def)

lemma rfold_userStep_Err:
  "\<exists>u\<in>set us. pu_Name u \<noteq> ''core'' \<Longrightarrow>
     \<exists>u\<in>set us. pu_Name u \<noteq> ''core'' \<and> rfold userStep outUser us = Err (unexpectedUser u)"
  by (induction us arbitrary: outUser) (auto simp: userStep_def)

lemma dedupUsers_core:
  assumes "\<forall>u\<in>set users. pu_Name u = ''core''"
  shows "dedupUsers users =
    Ok (if users = [] then []
        else [(last users)\<lparr>pu_SSHAuthorizedKeys :=
          first_occurrences (concat (List.map pu_SSHAuthorizedKeys (rev users)))\<rparr>])"
proof (cases users rule: rev_cases)
  case (snoc us u)
  then have "\<forall>v\<in>set (rev us). pu_Name v = ''core''" using assms by simp
  from rfold_userStep [OF this, of u] show ?thesis
    using assms snoc dedupePasswdUserSSHKeys_keys by (simp add: dedupUsers_def dedupePasswdUserSSHKeys_def)
qed (simp add: dedupUsers_def)

lemma dedupUsers_Err:
  assumes "\<exists>u\<in>set users. pu_Name u \<noteq> ''core''"
  shows "\<exists>u\<in>set users. pu_Name u \<noteq> ''core'' \<and> dedupUsers users = Err (unexpectedUser u)"
proof (cases users rule: rev_cases)
  case (snoc us u)
  show ?thesis
  proof (cases "pu_Name u = ''core''")
    case True
    with assms snoc have "\<exists>v\<in>set (rev us). pu_Name v \<noteq> ''core''" by auto
    from rfold_userStep_Err [OF this, of u] show ?thesis
      using True snoc by (auto simp: dedupUsers_def)
  qed (simp add: dedupUsers_def snoc)
qed (use assms in simp)

section \<open>The whole configuration\<close>

lemma removeDuplicates_Ok_users:
  "is_ok (removeIgnDuplicateFilesUnitsUsers c) \<longleftrightarrow> (\<forall>u\<in>set (i2_Users c). pu_Name u = ''core'')"
proof (cases "\<forall>u\<in>set (i2_Users c). pu_Name u = ''core''")
  case True
  then show ?thesis by (simp add: removeIgnDuplicateFilesUnitsUsers_def dedupUsers_core)
next
  case False
  then have "\<exists>u\<in>set (i2_Users c). pu_Name u \<noteq> ''core''" by blast
  from dedupUsers_Err [OF this] False show ?thesis
    by (auto simp: removeIgnDuplicateFilesUnitsUsers_def)
qed

lemma removeDuplicates_Err:
  "\<exists>u\<in>set (i2_Users c). pu_Name u \<noteq> ''core'' \<Longrightarrow>
     \<exists>u\<in>set (i2_Users c). pu_Name u \<noteq> ''core'' \<and> removeIgnDuplicateFilesUnitsUsers c = Err (unexpectedUser u)"
  using dedupUsers_Err [of "i2_Users c"]
  by (fastforce simp: removeDuplicates_Ok_users removeIgnDuplicateFilesUnitsUsers_def [of c])

lemma removeDuplicates_no_panic: "no_panic (removeIgnDuplicateFilesUnitsUsers c)"
proof (cases "is_ok (removeIgnDuplicateFilesUnitsUsers c)")
  case False
  then show ?thesis using removeDuplicates_Err [of c] by (auto simp: removeDuplicates_Ok_users)
qed (auto simp: is_ok_iff)

lemma removeDuplicates_Ok:
  assumes "removeIgnDuplicateFilesUnitsUsers c = Ok d"
  shows "d = c\<lparr>
    i2_Users := (if i2_Users c = [] then []
      else [(last (i2_Users c))\<lparr>pu_SSHAuthorizedKeys :=
        first_occurrences (concat (List.map pu_SSHAuthorizedKeys (rev (i2_Users c))))\<rparr>]),
    i2_Files := dedupFiles (i2_Files c), i2_Units := dedupUnits (i2_Units c)\<rparr>"
proof -
  have "\<forall>u\<in>set (i2_Users c). pu_Name u = ''core''"
    using assms removeDuplicates_Ok_users [of c] by simp
  then show ?thesis
    using assms unfolding removeIgnDuplicateFilesUnitsUsers_def Let_def
    by (simp only: dedupUsers_core rbind.simps result.inject)
qed

section \<open>Properties\<close>

text \<open>
  The duplicates of a spec 2 configuration can be removed exactly when every user is \<open>core\<close>;
  otherwise the call returns an error that names a user of another name, and it never panics.
\<close>

theorem remove_duplicates_users_core:
  "(is_ok (removeIgnDuplicateFilesUnitsUsers c) \<longleftrightarrow> (\<forall>u\<in>set (i2_Users c). pu_Name u = ''core''))
   \<and> (is_ok (removeIgnDuplicateFilesUnitsUsers c) \<or>
      (\<exists>u\<in>set (i2_Users c). pu_Name u \<noteq> ''core'' \<and> removeIgnDuplicateFilesUnitsUsers c = Err (unexpectedUser u)))"
  using removeDuplicates_Ok_users removeDuplicates_Err by blast

theorem remove_duplicates_users_core_witness:
  "\<not> is_ok (removeIgnDuplicateFilesUnitsUsers \<lparr>i2_Version = ''2.2.0'', i2_Files = [], i2_Units = [],
     i2_Users = [\<lparr>pu_Name = ''root'', pu_SSHAuthorizedKeys = [], pu_Rest = []\<rparr>], i2_Rest = []\<rparr>)"
  by (simp add: remove_duplicates_users_core)

text \<open>
  C40: in the result no two files have the same path and no two units the same name; the file kept for
  a path is the last one of the input, and the unit kept for a name is the last one with the drop-ins
  of the earlier ones, latest first, appended where no drop-in of that name is present.
\<close>

theorem remove_duplicates_keeps_last:
  assumes "removeIgnDuplicateFilesUnitsUsers c = Ok d"
  shows "distinct (List.map f2_Path (i2_Files d)) \<and> distinct (List.map u2_Name (i2_Units d))
    \<and> List.find (\<lambda>f. f2_Path f = p) (i2_Files d) = List.find (\<lambda>f. f2_Path f = p) (rev (i2_Files c))
    \<and> List.find (\<lambda>u. u2_Name u = n) (i2_Units d) = mergeUnits (filter (\<lambda>u. u2_Name u = n) (rev (i2_Units c)))
    \<and> i2_Version d = i2_Version c \<and> i2_Rest d = i2_Rest c"
  unfolding removeDuplicates_Ok [OF assms]
  by (simp add: dedupFiles_paths dedupUnits_names dedupFiles_find dedupUnits_find)

definition sample_dup_config :: ign2_config where
  "sample_dup_config =
     \<lparr>i2_Version = ''2.2.0'',
      i2_Files = [\<lparr>f2_Path = ''/a'', f2_Rest = ''old''\<rparr>, \<lparr>f2_Path = ''/b'', f2_Rest = ''b''\<rparr>,
                  \<lparr>f2_Path = ''/a'', f2_Rest = ''new''\<rparr>],
      i2_Units = [\<lparr>u2_Name = ''u'', u2_Dropins = [\<lparr>d2_Name = ''x'', d2_Contents = ''1''\<rparr>,
                     \<lparr>d2_Name = ''y'', d2_Contents = ''2''\<rparr>], u2_Rest = []\<rparr>,
                  \<lparr>u2_Name = ''u'', u2_Dropins = [\<lparr>d2_Name = ''x'', d2_Contents = ''3''\<rparr>], u2_Rest = []\<rparr>],
      i2_Users = [\<lparr>pu_Name = ''core'', pu_SSHAuthorizedKeys = [''k1'', ''k2''], pu_Rest = []\<rparr>,
                  \<lparr>pu_Name = ''core'', pu_SSHAuthorizedKeys = [''k2''], pu_Rest = []\<rparr>],
      i2_Rest = []\<rparr>"

lemma sample_dup_ok: "is_ok (removeIgnDuplicateFilesUnitsUsers sample_dup_config)"
  by (simp add: removeDuplicates_Ok_users sample_dup_config_def)

theorem remove_duplicates_keeps_last_witness:
  "\<exists>d. removeIgnDuplicateFilesUnitsUsers sample_dup_config = Ok d
     \<and> List.find (\<lambda>f. f2_Path f = ''/a'') (i2_Files d) = Some \<lparr>f2_Path = ''/a'', f2_Rest = ''new''\<rparr>
     \<and> List.find (\<lambda>u. u2_Name u = ''u'') (i2_Units d) =
         Some \<lparr>u2_Name = ''u'', u2_Dropins = [\<lparr>d2_Name = ''x'', d2_Contents = ''3''\<rparr>,
           \<lparr>d2_Name = ''y'', d2_Contents = ''2''\<rparr>], u2_Rest = []\<rparr>"
proof -
  obtain d where d: "removeIgnDuplicateFilesUnitsUsers sample_dup_config = Ok d"
    using sample_dup_ok by (auto simp: is_ok_iff)
  from remove_duplicates_keeps_last [OF d, of "''/a''" "''u''"] d show ?thesis
    by (simp add: sample_dup_config_def appendDropins_def addDropin_def)
qed

text \<open>
  The users of the result are at most one \<open>core\<close> user, the last one of the input, whose SSH keys
  are those of all users, latest user first, every key once at its first place.
\<close>

theorem remove_duplicates_ssh_keys:
  assumes "removeIgnDuplicateFilesUnitsUsers c = Ok d" and "i2_Users c \<noteq> []"
  shows "i2_Users d = [(last (i2_Users c))\<lparr>pu_SSHAuthorizedKeys :=
      first_occurrences (concat (List.map pu_SSHAuthorizedKeys (rev (i2_Users c))))\<rparr>]
    \<and> set (pu_SSHAuthorizedKeys (hd (i2_Users d))) = (\<Union>u\<in>set (i2_Users c). set (pu_SSHAuthorizedKeys u))
    \<and> distinct (pu_SSHAuthorizedKeys (hd (i2_Users d)))"
  using assms(2) unfolding removeDuplicates_Ok [OF assms(1)] by simp

theorem remove_duplicates_ssh_keys_witness:
  "\<exists>d. removeIgnDuplicateFilesUnitsUsers sample_dup_config = Ok d
     \<and> pu_SSHAuthorizedKeys (hd (i2_Users d)) = [''k2'', ''k1'']"
proof -
  obtain d where d: "removeIgnDuplicateFilesUnitsUsers sample_dup_config = Ok d"
    using sample_dup_ok by (auto simp: is_ok_iff)
  have "i2_Users sample_dup_config \<noteq> []" by (simp add: sample_dup_config_def)
  from remove_duplicates_ssh_keys [OF d this] d show ?thesis
    by (simp add: sample_dup_config_def first_occurrences_def)
qed

end
