(* ===== verification/IgnParse.thy ===== *)
theory IgnParse
  imports IgnTable IgnDedup
begin

text \<open>
  Parsing of raw Ignition configurations: the \<open>ParseCompatibleVersion\<close> and \<open>Parse\<close> functions of the
  vendored Ignition libraries (spec 3.0 to 3.5, and spec 2.2 down to 1), and on top of them
  \<open>IgnParseWrapper\<close> and \<open>ParseAndConvertConfig\<close> of \<open>src/internal/common/helpers.go\<close>. JSON decoding,
  validation and the translations between specifications are parameters. The wrapper relies on one
  law of the parsers, the locale \<open>config_parser\<close>: a configuration returned without an error has no
  fatal report. The law is proved here for the library code.
\<close>

section \<open>Reports and parser results\<close>

datatype entryKind = EntryError | EntryWarning | EntryInfo | EntryDeprecated

text \<open>An entry of a report: its severity and its printed form.\<close>

type_synonym report = "(entryKind \<times> string) list"

definition IsFatal :: "report \<Rightarrow> bool" where
  "IsFatal r \<longleftrightarrow> list_ex (\<lambda>(kind, _). kind = EntryError) r"

definition report3_String :: "report \<Rightarrow> string" where
  "report3_String r = concat (List.map (\<lambda>(_, s). s @ [CHR 0x0A]) r)"

definition report2_String :: "report \<Rightarrow> string" where
  "report2_String r = join_with [CHR 0x0A] (List.map snd r)"

type_synonym 'c parsed = "'c \<times> report \<times> error option"

definition ErrInvalid :: error where "ErrInvalid = ErrText ''config is not valid''"
definition ErrEmpty :: error where "ErrEmpty = ErrText ''not a config (empty)''"
definition ErrCloudConfig :: error where
  "ErrCloudConfig = ErrText ''not a config (found coreos-cloudconfig)''"
definition ErrScript :: error where
  "ErrScript = ErrText ''not a config (found coreos-cloudinit script)''"

section \<open>The interface\<close>

locale config_parser =
  fixes parse :: "string \<Rightarrow> 'c parsed"
  assumes no_error_not_fatal: "parse raw = (c, r, None) \<Longrightarrow> \<not> IsFatal r"
begin

text \<open>So a client that falls through the test for success holds an error to print.\<close>

lemma error_present:
  assumes "parse raw = (c, r, e)" and "\<not> (e = None \<and> \<not> IsFatal r)"
  obtains e' where "e = Some e'"
  using assms no_error_not_fatal [of raw c r] by (cases e) auto

end

section \<open>Specification 3\<close>

text \<open>
  \<open>l3_stub\<close> and \<open>l3_unmarshal\<close> are \<open>util.HandleParseErrors\<close> into the version stub and into the
  configuration type: the decoded value, or the report made from the decoding error.
\<close>

record 'c ign3_library =
  l3_zero :: 'c
  l3_stub :: "string \<Rightarrow> report + string"
  l3_unmarshal :: "ign3_type \<Rightarrow> string \<Rightarrow> report + 'c"
  l3_version :: "ign3_type \<Rightarrow> 'c \<Rightarrow> string"
  l3_validate :: "ign3_type \<Rightarrow> 'c \<Rightarrow> string \<Rightarrow> report"
  l3_translate :: "ign3_type \<Rightarrow> 'c \<Rightarrow> 'c"

definition GetConfigVersion :: "'c ign3_library \<Rightarrow> string \<Rightarrow> report \<times> error + version" where
  "GetConfigVersion lib raw =
     (if raw = [] then Inl ([], ErrEmpty)
      else case l3_stub lib raw of
        Inl rpt \<Rightarrow> Inl (rpt, ErrInvalid)
      | Inr v \<Rightarrow> (case NewVersion v of Ok ver \<Rightarrow> Inr ver | _ \<Rightarrow> Inl ([], ErrSentinel IgnErrInvalidVersion)))"

definition ign3_Parse :: "'c ign3_library \<Rightarrow> ign3_type \<Rightarrow> string \<Rightarrow> 'c parsed" where
  "ign3_Parse lib t rawConfig =
     (if rawConfig = [] then (l3_zero lib, [], Some ErrEmpty)
      else case l3_unmarshal lib t rawConfig of
        Inl rpt \<Rightarrow> (l3_zero lib, rpt, Some ErrInvalid)
      | Inr config \<Rightarrow>
          if NewVersion (l3_version lib t config) \<noteq> Ok (ign3_MaxVersion t)
          then (l3_zero lib, [], Some (ErrSentinel IgnErrUnknownVersion))
          else let rpt = l3_validate lib t config rawConfig in
            if IsFatal rpt then (l3_zero lib, rpt, Some ErrInvalid) else (config, rpt, None))"

text \<open>The package that \<open>prev\<close> names in each version's package.\<close>

fun prev_type :: "ign3_type \<Rightarrow> ign3_type option" where
  "prev_type V3_5 = Some V3_4"
| "prev_type V3_4 = Some V3_3"
| "prev_type V3_3 = Some V3_2"
| "prev_type V3_2 = Some V3_1"
| "prev_type V3_1 = Some V3_0"
| "prev_type V3_0 = None"

fun type_level :: "ign3_type \<Rightarrow> nat" where
  "type_level V3_0 = 0"
| "type_level V3_1 = 1"
| "type_level V3_2 = 2"
| "type_level V3_3 = 3"
| "type_level V3_4 = 4"
| "type_level V3_5 = 5"

lemma prev_type_level: "prev_type t = Some p \<Longrightarrow> type_level p < type_level t"
  by (cases t) auto

function ParseCompatibleVersion :: "'c ign3_library \<Rightarrow> ign3_type \<Rightarrow> string \<Rightarrow> 'c parsed" where
  "ParseCompatibleVersion lib t raw =
     (case GetConfigVersion lib raw of
        Inl (rpt, err) \<Rightarrow> (l3_zero lib, rpt, Some err)
      | Inr version \<Rightarrow>
          if version = ign3_MaxVersion t then ign3_Parse lib t raw
          else case prev_type t of
            None \<Rightarrow> (l3_zero lib, [], Some (ErrSentinel IgnErrUnknownVersion))
          | Some p \<Rightarrow>
              (case ParseCompatibleVersion lib p raw of
                 (prevCfg, r, Some err) \<Rightarrow> (l3_zero lib, r, Some err)
               | (prevCfg, r, None) \<Rightarrow> (l3_translate lib t prevCfg, r, None)))"
  by pat_completeness auto
termination
  by (relation "measure (\<lambda>(lib, t, raw). type_level t)") (auto simp: prev_type_level)

declare ParseCompatibleVersion.simps [simp del]

lemma ign3_Parse_not_fatal: "ign3_Parse lib t raw = (c, r, None) \<Longrightarrow> \<not> IsFatal r"
  by (auto simp: ign3_Parse_def Let_def split: if_splits sum.splits)

lemma ParseCompatibleVersion_not_fatal:
  "ParseCompatibleVersion lib t raw = (c, r, None) \<Longrightarrow> \<not> IsFatal r"
proof (induction lib t raw arbitrary: c rule: ParseCompatibleVersion.induct)
  case (1 lib t raw)
  from 1(2) show ?case
    by (subst (asm) ParseCompatibleVersion.simps)
      (auto split: sum.splits prod.splits if_splits option.splits dest: ign3_Parse_not_fatal 1(1))
qed

interpretation v3_5: config_parser "ParseCompatibleVersion lib t" for lib t
  by unfold_locales (rule ParseCompatibleVersion_not_fatal)

section \<open>Specifications 2 and 1\<close>

text \<open>
  One older specification: decoding (which may fill in part of the value and fail), the version the
  value carries, validation. \<open>l2_v1_errors\<close> is \<open>util.HandleParseErrors\<close>, which always returns an error.
\<close>

record 'd old_spec =
  o_zero :: 'd
  o_unmarshal :: "string \<Rightarrow> 'd \<times> error option"
  o_version :: "'d \<Rightarrow> version result"
  o_validate :: "string \<Rightarrow> 'd \<Rightarrow> report"

record 'd ign2_library =
  l2_decompressIfGzipped :: "string \<Rightarrow> string"
  l2_unmarshal22 :: "string \<Rightarrow> ign2_config \<times> error option"
  l2_validate22 :: "string \<Rightarrow> ign2_config \<Rightarrow> report"
  l2_translate21 :: "'d \<Rightarrow> ign2_config"
  l2_spec21 :: "'d old_spec"
  l2_translate20 :: "'d \<Rightarrow> 'd"
  l2_spec20 :: "'d old_spec"
  l2_translate1 :: "'d \<Rightarrow> 'd"
  l2_spec1_zero :: 'd
  l2_spec1_unmarshal :: "string \<Rightarrow> 'd \<times> error option"
  l2_spec1_version_ok :: "'d \<Rightarrow> bool"
  l2_spec1_validate :: "string \<Rightarrow> 'd \<Rightarrow> report"
  l2_spec1_errors :: "string \<Rightarrow> report \<times> error"

definition header_line :: "'d ign2_library \<Rightarrow> string \<Rightarrow> string" where
  "header_line lib userdata = hd (splitN2 (CHR 0x0A) (l2_decompressIfGzipped lib userdata))"

definition isCloudConfig :: "'d ign2_library \<Rightarrow> string \<Rightarrow> bool" where
  "isCloudConfig lib userdata \<longleftrightarrow> trim_right (header_line lib userdata) = ''#cloud-config''"

definition isScript :: "'d ign2_library \<Rightarrow> string \<Rightarrow> bool" where
  "isScript lib userdata \<longleftrightarrow> take 2 (header_line lib userdata) = ''#!''"

definition headerError :: "'d ign2_library \<Rightarrow> string \<Rightarrow> error option" where
  "headerError lib rawConfig =
     (if rawConfig = [] then Some ErrEmpty
      else if isCloudConfig lib rawConfig then Some ErrCloudConfig
      else if isScript lib rawConfig then Some ErrScript else None)"

text \<open>
  The common text of the \<open>Parse\<close> functions of spec 2.2, 2.1 and 2.0; \<open>older\<close> is the call of the next
  older \<open>Parse\<close> with the translation of its result.
\<close>

definition parseSpec ::
  "'e ign2_library \<Rightarrow> 'd old_spec \<Rightarrow> version \<Rightarrow> (string \<Rightarrow> 'd parsed) \<Rightarrow> string \<Rightarrow> 'd parsed" where
  "parseSpec lib spec maxVersion older rawConfig =
     (case headerError lib rawConfig of
        Some e \<Rightarrow> (o_zero spec, [], Some e)
      | None \<Rightarrow>
          (let (config, err) = o_unmarshal spec rawConfig in
           if err \<noteq> None then older rawConfig
           else case o_version spec config of
             Ok version \<Rightarrow>
               if version_LessThan version maxVersion then older rawConfig
               else if version \<noteq> maxVersion
               then (o_zero spec, [], Some (ErrSentinel IgnErrUnknownVersion))
               else let rpt = o_validate spec rawConfig config in
                 if IsFatal rpt then (o_zero spec, rpt, Some ErrInvalid) else (config, rpt, None)
           | _ \<Rightarrow> older rawConfig))"

definition translated :: "'b \<Rightarrow> report \<Rightarrow> ('a \<Rightarrow> 'b) \<Rightarrow> 'a parsed \<Rightarrow> 'b parsed" where
  "translated zero extra tr p =
     (case p of (c, rpt, Some e) \<Rightarrow> (zero, rpt, Some e) | (c, rpt, None) \<Rightarrow> (tr c, rpt @ extra, None))"

definition parse_v1 :: "'d ign2_library \<Rightarrow> string \<Rightarrow> 'd parsed" where
  "parse_v1 lib rawConfig =
     (case headerError lib rawConfig of
        Some e \<Rightarrow> (l2_spec1_zero lib, [], Some e)
      | None \<Rightarrow>
          (let (config, err) = l2_spec1_unmarshal lib rawConfig in
           if err \<noteq> None
           then (let (rpt, e) = l2_spec1_errors lib rawConfig in (l2_spec1_zero lib, rpt, Some e))
           else if \<not> l2_spec1_version_ok lib config
           then (l2_spec1_zero lib, [], Some (ErrSentinel IgnErrUnknownVersion))
           else let rpt = l2_spec1_validate lib rawConfig config in
             if IsFatal rpt then (l2_spec1_zero lib, rpt, Some ErrInvalid) else (config, rpt, None)))"

definition parse_v2_0 :: "'d ign2_library \<Rightarrow> string \<Rightarrow> 'd parsed" where
  "parse_v2_0 lib =
     parseSpec lib (l2_spec20 lib) (mkVersion 2 0)
       (\<lambda>raw. translated (o_zero (l2_spec20 lib)) [(EntryDeprecated, ''deprecated: config format deprecated'')]
          (l2_translate1 lib) (parse_v1 lib raw))"

definition parse_v2_1 :: "'d ign2_library \<Rightarrow> string \<Rightarrow> 'd parsed" where
  "parse_v2_1 lib =
     parseSpec lib (l2_spec21 lib) (mkVersion 2 1)
       (\<lambda>raw. translated (o_zero (l2_spec21 lib)) [] (l2_translate20 lib) (parse_v2_0 lib raw))"

definition ign2_zero :: ign2_config where
  "ign2_zero = \<lparr>i2_Version = [], i2_Files = [], i2_Units = [], i2_Users = [], i2_Rest = []\<rparr>"

text \<open>\<open>TranslateFromV2_1\<close> writes the version of the new configuration.\<close>

definition TranslateFromV2_1 :: "'d ign2_library \<Rightarrow> 'd \<Rightarrow> ign2_config" where
  "TranslateFromV2_1 lib old = (l2_translate21 lib old)\<lparr>i2_Version := version_String ign2_MaxVersion\<rparr>"

definition spec22 :: "'d ign2_library \<Rightarrow> ign2_config old_spec" where
  "spec22 lib =
     \<lparr>o_zero = ign2_zero, o_unmarshal = l2_unmarshal22 lib,
      o_version = (\<lambda>config. NewVersion (i2_Version config)), o_validate = l2_validate22 lib\<rparr>"

definition ign2_Parse :: "'d ign2_library \<Rightarrow> string \<Rightarrow> ign2_config parsed" where
  "ign2_Parse lib =
     parseSpec lib (spec22 lib) ign2_MaxVersion
       (\<lambda>raw. translated ign2_zero [] (TranslateFromV2_1 lib) (parse_v2_1 lib raw))"

text \<open>What a successful parse of each level satisfies.\<close>

lemma parseSpec_None:
  assumes "parseSpec lib spec maxV older raw = (c, r, None)"
  shows "older raw = (c, r, None) \<or> o_version spec c = Ok maxV \<and> \<not> IsFatal r"
  using assms
  by (auto simp: parseSpec_def Let_def split: option.splits prod.splits result.splits if_splits)

lemma translated_None:
  assumes "translated zero extra tr p = (c, r, None)"
  obtains c' r' where "p = (c', r', None)" and "c = tr c'" and "r = r' @ extra"
  using assms by (cases p) (auto simp: translated_def split: option.splits)

lemma IsFatal_append [simp]: "IsFatal (r @ r') \<longleftrightarrow> IsFatal r \<or> IsFatal r'"
  by (simp add: IsFatal_def)

lemma IsFatal_deprecated [simp]: "\<not> IsFatal [(EntryDeprecated, s)]" "\<not> IsFatal []"
  by (simp_all add: IsFatal_def)

lemma parseSpec_not_fatal:
  assumes "parseSpec lib spec maxV (\<lambda>raw. translated zero extra tr (prev raw)) raw = (c, r, None)"
    and "\<And>c r. prev raw = (c, r, None) \<Longrightarrow> \<not> IsFatal r" and "\<not> IsFatal extra"
  shows "\<not> IsFatal r"
  using parseSpec_None [OF assms(1)] assms(2,3) by (auto elim: translated_None)

lemma parse_v1_not_fatal: "parse_v1 lib raw = (c, r, None) \<Longrightarrow> \<not> IsFatal r"
  by (auto simp: parse_v1_def Let_def split: option.splits prod.splits if_splits)

lemma parse_v2_0_not_fatal: "parse_v2_0 lib raw = (c, r, None) \<Longrightarrow> \<not> IsFatal r"
  unfolding parse_v2_0_def by (erule parseSpec_not_fatal) (auto dest: parse_v1_not_fatal)

lemma parse_v2_1_not_fatal: "parse_v2_1 lib raw = (c, r, None) \<Longrightarrow> \<not> IsFatal r"
  unfolding parse_v2_1_def by (erule parseSpec_not_fatal) (auto dest: parse_v2_0_not_fatal)

lemma ign2_Parse_not_fatal: "ign2_Parse lib raw = (c, r, None) \<Longrightarrow> \<not> IsFatal r"
  unfolding ign2_Parse_def by (erule parseSpec_not_fatal) (auto dest: parse_v2_1_not_fatal)

interpretation v2_2: config_parser "ign2_Parse lib" for lib
  by unfold_locales (rule ign2_Parse_not_fatal)

text \<open>A parsed spec 2 configuration carries the version 2.2.0, also when it was translated.\<close>

lemma ign2_MaxVersion_String: "NewVersion (version_String ign2_MaxVersion) = Ok ign2_MaxVersion"
  by (rule NewVersion_String) (simp add: wf_version_def ign2_MaxVersion_def mkVersion_def validIdentifier_def)

lemma ign2_Parse_version: "ign2_Parse lib raw = (c, r, None) \<Longrightarrow> NewVersion (i2_Version c) = Ok ign2_MaxVersion"
  unfolding ign2_Parse_def
  by (drule parseSpec_None)
    (auto elim!: translated_None simp: spec22_def TranslateFromV2_1_def ign2_MaxVersion_String)

section \<open>The wrapper\<close>

definition supportedVersions_text :: "string list \<Rightarrow> string" where
  "supportedVersions_text versions = trim_suffix (join_with '','' versions) '',''"

text \<open>
  \<open>err.Error()\<close> on a nil error is a nil dereference. \<open>versions\<close> is what
  \<open>IgnitionConverterSingleton().GetSupportedMinorVersions()\<close> returns.
\<close>

definition IgnParseWrapper ::
  "(string \<Rightarrow> 'c parsed) \<Rightarrow> (string \<Rightarrow> ign2_config parsed) \<Rightarrow> string list \<Rightarrow> string \<Rightarrow> 'c ign_any result" where
  "IgnParseWrapper parse3 parse2 versions rawIgn =
     (let (ignCfgV3, rptV3, errV3) = parse3 rawIgn in
      if errV3 = None \<and> \<not> IsFatal rptV3 then Ok (Ign3 V3_5 ignCfgV3)
      else case errV3 of
        None \<Rightarrow> Panic NilDeref
      | Some err3 \<Rightarrow>
          if err_text err3 = sentinel_text IgnErrInvalidVersion
          then Err (ErrText (''parsing Ignition config failed: invalid version. Supported spec versions: ''
                 @ supportedVersions_text versions))
          else if err_text err3 = sentinel_text IgnErrUnknownVersion then
            (let (ignCfgV2, rptV2, errV2) = parse2 rawIgn in
             if errV2 = None \<and> \<not> IsFatal rptV2 then Ok (Ign2_2 ignCfgV2)
             else case errV2 of
               None \<Rightarrow> Panic NilDeref
             | Some err2 \<Rightarrow>
                 if err_text err2 = sentinel_text IgnErrUnknownVersion
                 then Err (ErrText (''parsing Ignition config failed: unknown version. Supported spec versions: ''
                        @ supportedVersions_text versions))
                 else Err (ErrText (''parsing Ignition spec v2 failed with error: '' @ err_text err2
                        @ [CHR 0x0A] @ ''Report: '' @ report2_String rptV2)))
          else Err (ErrText (''parsing Ignition config spec v3 failed with error: '' @ err_text err3
                 @ [CHR 0x0A] @ ''Report: '' @ report3_String rptV3)))"

text \<open>The branch of \<open>ParseAndConvertConfig\<close> for a spec 2 configuration.\<close>

definition convertSpec2 :: "'c ign_any ignitionConverter \<Rightarrow> ign2_config \<Rightarrow> 'c result" where
  "convertSpec2 ic c =
     rbind (removeIgnDuplicateFilesUnitsUsers c) (\<lambda>ignconfv2.
     rbind (semver_New (i2_Version ignconfv2)) (\<lambda>version.
     rbind (rwrap ''failed to convert Ignition config spec v2 to v3: '' []
              (Convert ic (Ign2_2 ignconfv2) version (ign3_MaxVersion V3_5)))
       (\<lambda>convertedIgnV3. case as_ign3 V3_5 convertedIgnV3 of
          Some c' \<Rightarrow> Ok c' | None \<Rightarrow> Panic TypeAssertion)))"

definition ParseAndConvertConfig ::
  "(string \<Rightarrow> 'c parsed) \<Rightarrow> (string \<Rightarrow> ign2_config parsed) \<Rightarrow> 'c ign_any ignitionConverter \<Rightarrow> string
     \<Rightarrow> 'c result" where
  "ParseAndConvertConfig parse3 parse2 ic rawIgn =
     rbind (rwrap ''failed to parse Ignition config: '' []
              (IgnParseWrapper parse3 parse2 (GetSupportedMinorVersions ic) rawIgn))
       (\<lambda>ignconfigi. case ignconfigi of
          Ign3 t c \<Rightarrow>
            if t = V3_5 then Ok c
            else Err (ErrText ''unexpected type for ignition config'')
        | Ign2_2 c \<Rightarrow> convertSpec2 ic c)"

text \<open>Two parsers that keep the law never drive the wrapper into a nil dereference.\<close>

lemma IgnParseWrapper_no_panic:
  assumes "config_parser parse3" and "config_parser parse2"
  shows "no_panic (IgnParseWrapper parse3 parse2 versions raw)"
proof -
  obtain c3 r3 e3 c2 r2 e2 where p: "parse3 raw = (c3, r3, e3)" "parse2 raw = (c2, r2, e2)"
    by (metis prod_cases3)
  have "\<not> (e3 = None \<and> \<not> IsFatal r3) \<Longrightarrow> e3 \<noteq> None"
    and "\<not> (e2 = None \<and> \<not> IsFatal r2) \<Longrightarrow> e2 \<noteq> None"
    using config_parser.error_present [OF assms(1) p(1)] config_parser.error_present [OF assms(2) p(2)]
    by blast+
  then show ?thesis
    by (auto simp: IgnParseWrapper_def p split: option.split)
qed

text \<open>What the wrapper returns is what one of the two parsers returned.\<close>

lemma IgnParseWrapper_Ok:
  assumes "IgnParseWrapper parse3 parse2 versions raw = Ok a"
  shows "(\<exists>c r. a = Ign3 V3_5 c \<and> parse3 raw = (c, r, None)) \<or> (\<exists>c r. a = Ign2_2 c \<and> parse2 raw = (c, r, None))"
  using assms by (auto simp: IgnParseWrapper_def Let_def split: prod.splits if_splits option.splits)

section \<open>Parsing and converting\<close>

text \<open>The specifications that a configuration of type \<open>t\<close> is translated through on its way to 3.5.\<close>

fun newer_types :: "ign3_type \<Rightarrow> ign3_type list" where
  "newer_types V3_0 = [V3_1, V3_2, V3_3, V3_4, V3_5]"
| "newer_types V3_1 = [V3_2, V3_3, V3_4, V3_5]"
| "newer_types V3_2 = [V3_3, V3_4, V3_5]"
| "newer_types V3_3 = [V3_4, V3_5]"
| "newer_types V3_4 = [V3_5]"
| "newer_types V3_5 = []"

lemma GetConfigVersion_Ok:
  "raw \<noteq> [] \<Longrightarrow> l3_stub lib raw = Inr s \<Longrightarrow> NewVersion s = Ok v \<Longrightarrow> GetConfigVersion lib raw = Inr v"
  by (simp add: GetConfigVersion_def)

lemma ParseCompatibleVersion_upgrades:
  assumes "GetConfigVersion lib raw = Inr (ign3_MaxVersion t)" and "ign3_Parse lib t raw = (c, r, None)"
  shows "ParseCompatibleVersion lib V3_5 raw = (fold (l3_translate lib) (newer_types t) c, r, None)"
  using assms by (cases t) (simp_all add: ParseCompatibleVersion.simps)

lemma ParseCompatibleVersion_unknown:
  assumes "GetConfigVersion lib raw = Inr v" and "v \<notin> range ign3_MaxVersion"
  shows "ParseCompatibleVersion lib t raw = (l3_zero lib, [], Some (ErrSentinel IgnErrUnknownVersion))"
proof -
  have "v \<noteq> ign3_MaxVersion u" for u using assms(2) by blast
  then have neq: "(v = ign3_MaxVersion u) = False" for u by simp
  show ?thesis
  proof (induction "type_level t" arbitrary: t rule: less_induct)
    case less
    show ?case
      using less [OF prev_type_level]
      by (subst ParseCompatibleVersion.simps) (auto simp: assms(1) neq split: option.split)
  qed
qed

lemma Convert_22_35_result:
  assumes "source_order order" and "no_panic (tr_v23tov30 tr (tr_v22tov23 tr c) [''root'' \<mapsto> ''/''])"
  shows "(\<exists>c'. Convert (ignitionConverter order tr) (Ign2_2 c) (mkVersion 2 2) (mkVersion 3 5) = Ok (Ign3 V3_5 c'))
    \<or> (\<exists>e. Convert (ignitionConverter order tr) (Ign2_2 c) (mkVersion 2 2) (mkVersion 3 5) = Err e)"
proof (cases "tr_v23tov30 tr (tr_v22tov23 tr c) [''root'' \<mapsto> ''/'']")
  case (Ok c30)
  then show ?thesis by (simp add: Convert_22_35_Ok_iff [OF assms(1)])
next
  case (Err e)
  then show ?thesis
    by (simp add: Convert_22_35 [OF assms(1)] converter_Convert_22 v22tov32_def)
qed (use assms(2) in simp)

lemma semver_New_parsed:
  assumes "ign2_Parse lib raw = (c, r, None)" and "removeIgnDuplicateFilesUnitsUsers c = Ok d"
  shows "semver_New (i2_Version d) = Ok (mkVersion 2 2)"
  using ign2_Parse_version [OF assms(1)] removeDuplicates_Ok [OF assms(2)]
  by (simp add: semver_New_def ign2_MaxVersion_def)

lemma convertSpec2_no_panic:
  assumes order: "source_order order"
    and tr: "\<And>c. no_panic (tr_v23tov30 tr (tr_v22tov23 tr c) [''root'' \<mapsto> ''/''])"
    and parsed: "ign2_Parse lib raw = (c, r, None)"
  shows "no_panic (convertSpec2 (ignitionConverter order tr) c)"
  unfolding convertSpec2_def
proof (rule rbind_no_panic [OF removeDuplicates_no_panic])
  fix d
  assume d: "removeIgnDuplicateFilesUnitsUsers c = Ok d"
  show "no_panic (rbind (semver_New (i2_Version d)) (\<lambda>version.
      rbind (rwrap ''failed to convert Ignition config spec v2 to v3: '' []
        (Convert (ignitionConverter order tr) (Ign2_2 d) version (ign3_MaxVersion V3_5)))
      (\<lambda>convertedIgnV3. case as_ign3 V3_5 convertedIgnV3 of Some c' \<Rightarrow> Ok c' | None \<Rightarrow> Panic TypeAssertion)))"
    using semver_New_parsed [OF parsed d] Convert_22_35_result [OF order tr, of d] by auto
qed

lemma ParseAndConvertConfig_no_panic:
  assumes order: "source_order order"
    and tr: "\<And>c. no_panic (tr_v23tov30 tr (tr_v22tov23 tr c) [''root'' \<mapsto> ''/''])"
  shows "no_panic (ParseAndConvertConfig (ParseCompatibleVersion lib3 V3_5) (ign2_Parse lib2)
    (ignitionConverter order tr) raw)"
proof -
  let ?w = "IgnParseWrapper (ParseCompatibleVersion lib3 V3_5) (ign2_Parse lib2)
      (GetSupportedMinorVersions (ignitionConverter order tr)) raw"
  have np: "no_panic ?w"
    by (rule IgnParseWrapper_no_panic [OF v3_5.config_parser_axioms v2_2.config_parser_axioms])
  show ?thesis
  proof (cases ?w)
    case (Ok a)
    from IgnParseWrapper_Ok [OF this] show ?thesis
      using Ok convertSpec2_no_panic [OF order tr] by (auto simp: ParseAndConvertConfig_def)
  qed (use np in \<open>simp_all add: ParseAndConvertConfig_def\<close>)
qed

lemma ParseAndConvertConfig_v2:
  assumes order: "source_order order"
    and v3: "ParseCompatibleVersion lib3 V3_5 raw = (c3, r3, Some (ErrSentinel IgnErrUnknownVersion))"
    and v2: "ign2_Parse lib2 raw = (c2, r2, None)"
  shows "ParseAndConvertConfig (ParseCompatibleVersion lib3 V3_5) (ign2_Parse lib2)
      (ignitionConverter order tr) raw = Ok c \<longleftrightarrow>
    (\<exists>d c30. removeIgnDuplicateFilesUnitsUsers c2 = Ok d
       \<and> tr_v23tov30 tr (tr_v22tov23 tr d) [''root'' \<mapsto> ''/''] = Ok c30
       \<and> c = upgrade_from_32 tr (tr_v31tov32 tr (tr_v30tov31 tr c30)))"
proof -
  have "IgnParseWrapper (ParseCompatibleVersion lib3 V3_5) (ign2_Parse lib2) versions raw = Ok (Ign2_2 c2)"
    for versions
    using v2_2.no_error_not_fatal [OF v2] by (simp add: IgnParseWrapper_def v3 v2)
  then show ?thesis
    using semver_New_parsed [OF v2] Convert_22_35_Ok_iff [OF order, of tr]
    by (fastforce simp: ParseAndConvertConfig_def convertSpec2_def result_simps split: option.splits)
qed

end
