(* ===== verification/ConverterSpec.thy ===== *)
theory ConverterSpec
  imports IgnTable
begin

text \<open>
  The properties of the Ignition version converter: those of the path search for any list of
  converters, then those of the table the operator builds, with the translation functions of the
  libraries as the parameter \<open>tr\<close>. The witnesses run the search on that table.
\<close>

section \<open>A concrete toolchain\<close>

text \<open>
  Translations that only record which of them ran, so that the witnesses can be evaluated; the ones
  down to an older specification refuse the empty configuration.
\<close>

definition sample_step :: "string \<Rightarrow> string list \<Rightarrow> string list" where
  "sample_step name c = c @ [name]"

definition sample_down :: "string \<Rightarrow> string list \<Rightarrow> string list result" where
  "sample_down name c = (if c = [] then Err (ErrText ''empty'') else Ok (c @ [name]))"

definition sample_translators :: "string list translators" where
  "sample_translators =
     \<lparr>tr_v35tov34 = sample_down ''35-34'', tr_v34tov35 = sample_step ''34-35'',
      tr_v34tov33 = sample_down ''34-33'', tr_v33tov34 = sample_step ''33-34'',
      tr_v33tov32 = sample_down ''33-32'', tr_v32tov33 = sample_step ''32-33'',
      tr_v32tov31 = sample_down ''32-31'',
      tr_v32tov22 = (\<lambda>c. Ok \<lparr>i2_Version = ''2.2.0'', i2_Files = [], i2_Units = [], i2_Users = [], i2_Rest = concat c\<rparr>),
      tr_v22tov23 = (\<lambda>c. [i2_Rest c]),
      tr_v23tov30 = (\<lambda>c fsMap. if fsMap ''root'' = None then Err (ErrText ''no root'') else Ok (c @ [''23-30''])),
      tr_v30tov31 = sample_step ''30-31'', tr_v31tov32 = sample_step ''31-32''\<rparr>"

lemma source_order_converter_sources: "source_order converter_sources"
  by (simp add: source_order_def converter_sources_def)

lemma source_order_rev: "source_order (rev converter_sources)"
  using source_order_converter_sources by (simp add: source_order_def)

lemma valid_order_sample:
  "valid_order converter_sources (buildConverterList tr)"
  "valid_order (rev converter_sources) (buildConverterList tr)"
  by (simp_all add: valid_order_iff source_order_converter_sources source_order_rev)

section \<open>The path search, for any converters\<close>

text \<open>
  The table of conversion paths does not depend on the order in which Go ranges over the map of
  converters.
\<close>

theorem conversion_paths_order_irrelevant:
  assumes "valid_order order convs" and "valid_order order' convs"
  shows "newIgnitionConverter order convs = newIgnitionConverter order' convs"
proof -
  have "ic_converterPaths (newIgnitionConverter order convs) = ic_converterPaths (newIgnitionConverter order' convs)"
    by (rule ext) (simp add: newIgnitionConverter_paths [OF assms(1)] newIgnitionConverter_paths [OF assms(2)])
  then show ?thesis by (simp add: newIgnitionConverter_def)
qed

theorem conversion_paths_order_irrelevant_witness:
  "newIgnitionConverter converter_sources (buildConverterList sample_translators) =
   newIgnitionConverter (rev converter_sources) (buildConverterList sample_translators)"
  by (rule conversion_paths_order_irrelevant) (rule valid_order_sample)+

text \<open>
  C11: a conversion is registered for a pair of versions exactly when a way joins them: a chain of
  converters that all go upwards or all go downwards.
\<close>

theorem conversion_registered_iff_way:
  assumes "valid_order order convs"
  shows "ic_converterPaths (newIgnitionConverter order convs) k \<noteq> None \<longleftrightarrow>
    (\<exists>up. way convs up (t_source k) (t_target k))"
  by (rule registered_iff_way [OF assms])

theorem conversion_registered_iff_way_witness:
  "\<exists>up. way (buildConverterList sample_translators) up (mkVersion 3 0) (mkVersion 3 5)"
  using conversion_registered_iff_way [OF valid_order_sample(1) [of sample_translators],
      of "\<lparr>t_source = mkVersion 3 0, t_target = mkVersion 3 5\<rparr>"]
    path_30_35 [OF source_order_converter_sources, of sample_translators]
  by (auto simp: ignitionConverter_def)

text \<open>
  Every registered path is a chain of the given converters that starts at its source version,
  ends at its target version, joins each step to the next and never changes direction.
\<close>

theorem conversion_path_sound:
  assumes "valid_order order convs" and "ic_converterPaths (newIgnitionConverter order convs) k = Some p"
  shows "cp_tuple p = k \<and> cp_chain p \<noteq> [] \<and> set (cp_chain p) \<subseteq> set convs
    \<and> chain_links (t_source k) (cp_chain p) (t_target k)
    \<and> (\<forall>c\<in>set (cp_chain p). IsUp (cv_tuple c) = IsUp k)"
  using newIgnitionConverter_table_ok [OF assms(1)] assms(2)
  by (auto simp: table_ok_def path_ok_def)

theorem conversion_path_sound_witness:
  "\<exists>p. ic_converterPaths (newIgnitionConverter converter_sources (buildConverterList sample_translators))
       \<lparr>t_source = mkVersion 2 2, t_target = mkVersion 3 5\<rparr> = Some p
     \<and> chain_links (mkVersion 2 2) (cp_chain p) (mkVersion 3 5)"
  using conversion_path_sound [OF valid_order_sample(1) [of sample_translators],
      of "\<lparr>t_source = mkVersion 2 2, t_target = mkVersion 3 5\<rparr>"]
    path_22_35 [OF source_order_converter_sources, of sample_translators]
  by (auto simp: ignitionConverter_def)

section \<open>The table of the operator\<close>

text \<open>
  The conversions the operator supports are exactly the pairs of \<open>supported_targets\<close>; for any
  other pair of different versions \<open>Convert\<close> fails with \<open>errUnsupportedConversion\<close> and never runs a
  translation.
\<close>

theorem ignition_supported_conversions:
  assumes "source_order order"
  shows "(ic_converterPaths (ignitionConverter order tr) \<lparr>t_source = s, t_target = t\<rparr> \<noteq> None \<longleftrightarrow>
      t \<in> set (supported_targets s))
    \<and> (t \<in> set (supported_targets s) \<or> version_Equal s t \<or>
       (\<exists>e. Convert (ignitionConverter order tr) x s t = Err e \<and> err_is UnsupportedConversion e))"
  using supported_pairs [OF assms, of tr "\<lparr>t_source = s, t_target = t\<rparr>"] by (auto simp: Convert_def)

theorem ignition_supported_conversions_witness:
  "\<exists>e. Convert (ignitionConverter converter_sources sample_translators) (Ign3 V3_0 [])
      (mkVersion 3 0) (mkVersion 2 2) = Err e \<and> err_is UnsupportedConversion e"
  using ignition_supported_conversions [OF source_order_converter_sources, of sample_translators
      "mkVersion 3 0" "mkVersion 2 2" "Ign3 V3_0 []"]
  by (simp add: supported_targets_def)

text \<open>
  The minor versions the operator reports as supported, in ascending order.
\<close>

theorem ignition_minor_versions:
  "GetSupportedMinorVersions (ignitionConverter order tr) =
     [''2.2'', ''3.0'', ''3.1'', ''3.2'', ''3.3'', ''3.4'', ''3.5'']"
  by (rule supported_minor_versions)

text \<open>
  Upgrading a spec 3.0 configuration to 3.5 always succeeds and applies the translations
  3.0 to 3.1, 3.1 to 3.2, 3.2 to 3.3, 3.3 to 3.4 and 3.4 to 3.5 in this order.
\<close>

theorem ignition_upgrade_30_35:
  assumes "source_order order"
  shows "Convert (ignitionConverter order tr) (Ign3 V3_0 c) (mkVersion 3 0) (mkVersion 3 5) =
    Ok (Ign3 V3_5 (tr_v34tov35 tr (tr_v33tov34 tr (tr_v32tov33 tr (tr_v31tov32 tr (tr_v30tov31 tr c))))))"
  using Convert_30_35 [OF assms] by (simp add: upgrade_from_32_def)

theorem ignition_upgrade_30_35_witness:
  "Convert (ignitionConverter converter_sources sample_translators) (Ign3 V3_0 []) (mkVersion 3 0) (mkVersion 3 5) =
     Ok (Ign3 V3_5 [''30-31'', ''31-32'', ''32-33'', ''33-34'', ''34-35''])"
  using ignition_upgrade_30_35 [OF source_order_converter_sources, of sample_translators "[]"]
  by (simp add: sample_translators_def sample_step_def)

text \<open>
  Upgrading a spec 2.2 configuration to 3.5 succeeds exactly when the translation from 2.3 to
  3.0, with the root file system mapped to \<open>/\<close>, does; the result is that translation taken up to 3.5.
\<close>

theorem ignition_upgrade_22_35:
  assumes "source_order order"
  shows "Convert (ignitionConverter order tr) (Ign2_2 c) (mkVersion 2 2) (mkVersion 3 5) = Ok r \<longleftrightarrow>
    (\<exists>c30. tr_v23tov30 tr (tr_v22tov23 tr c) [''root'' \<mapsto> ''/''] = Ok c30 \<and>
       r = Ign3 V3_5 (tr_v34tov35 tr (tr_v33tov34 tr (tr_v32tov33 tr (tr_v31tov32 tr (tr_v30tov31 tr c30))))))"
  using Convert_22_35_Ok_iff [OF assms] by (simp add: upgrade_from_32_def)

theorem ignition_upgrade_22_35_witness:
  "Convert (ignitionConverter converter_sources sample_translators)
     (Ign2_2 \<lparr>i2_Version = ''2.2.0'', i2_Files = [], i2_Units = [], i2_Users = [], i2_Rest = ''x''\<rparr>)
     (mkVersion 2 2) (mkVersion 3 5) =
   Ok (Ign3 V3_5 [''x'', ''23-30'', ''30-31'', ''31-32'', ''32-33'', ''33-34'', ''34-35''])"
  unfolding ignition_upgrade_22_35 [OF source_order_converter_sources]
  by (simp add: sample_translators_def sample_step_def)

end
