(* ===== verification/ParseSpec.thy ===== *)
theory ParseSpec
  imports IgnParse ConverterSpec
begin

text \<open>
  The properties of Ignition parsing: no panic, the versions accepted, what a spec 3 and a spec 2
  configuration become, and the errors for the versions that are not supported. The witnesses run
  the parsers on small libraries in which the raw text of a configuration is its version.
\<close>

section \<open>Concrete libraries\<close>

definition sample_lib3 :: "string list ign3_library" where
  "sample_lib3 =
     \<lparr>l3_zero = [], l3_stub = (\<lambda>raw. Inr raw), l3_unmarshal = (\<lambda>t raw. Inr [raw]),
      l3_version = (\<lambda>t c. hd c), l3_validate = (\<lambda>t c raw. []),
      l3_translate = (\<lambda>t c. c @ [version_String (ign3_MaxVersion t)])\<rparr>"

definition sample_old_spec :: "unit old_spec" where
  "sample_old_spec =
     \<lparr>o_zero = (), o_unmarshal = (\<lambda>raw. ((), Some (ErrText ''syntax''))),
      o_version = (\<lambda>_. Ok (mkVersion 2 0)), o_validate = (\<lambda>raw c. [])\<rparr>"

definition sample_lib2 :: "unit ign2_library" where
  "sample_lib2 =
     \<lparr>l2_decompressIfGzipped = (\<lambda>raw. raw),
      l2_unmarshal22 = (\<lambda>raw. (sample_dup_config\<lparr>i2_Version := raw\<rparr>, None)), l2_validate22 = (\<lambda>raw c. []),
      l2_translate21 = (\<lambda>_. ign2_zero), l2_spec21 = sample_old_spec, l2_translate20 = (\<lambda>_. ()),
      l2_spec20 = sample_old_spec, l2_translate1 = (\<lambda>_. ()), l2_spec1_zero = (),
      l2_spec1_unmarshal = (\<lambda>raw. ((), Some (ErrText ''syntax''))), l2_spec1_version_ok = (\<lambda>_. True),
      l2_spec1_validate = (\<lambda>raw c. []), l2_spec1_errors = (\<lambda>raw. ([(EntryError, ''syntax'')], ErrInvalid))\<rparr>"

text \<open>Version strings are read by printing: \<open>NewVersion\<close> inverts \<open>String\<close>.\<close>

lemma wf_mkVersion: "0 \<le> a \<Longrightarrow> a < 2 ^ 63 \<Longrightarrow> 0 \<le> b \<Longrightarrow> b < 2 ^ 63 \<Longrightarrow> wf_version (mkVersion a b)"
  by (simp add: wf_version_def mkVersion_def validIdentifier_def)

lemma NewVersion_mkVersion:
  "NewVersion ''2.2.0'' = Ok (mkVersion 2 2)" "NewVersion ''3.2.0'' = Ok (mkVersion 3 2)"
  "NewVersion ''4.1.0'' = Ok (mkVersion 4 1)"
  using NewVersion_String [OF wf_mkVersion [of 2 2]] NewVersion_String [OF wf_mkVersion [of 3 2]]
    NewVersion_String [OF wf_mkVersion [of 4 1]]
  by (simp_all add: version_String_def mkVersion_def format_int_def fmt_nat_eval)

lemma range_ign3_MaxVersion:
  "mkVersion a b \<in> range ign3_MaxVersion \<longleftrightarrow> a = 3 \<and> b \<in> {0, 1, 2, 3, 4, 5}"
proof
  assume "mkVersion a b \<in> range ign3_MaxVersion"
  then obtain t where "mkVersion a b = ign3_MaxVersion t" by blast
  then show "a = 3 \<and> b \<in> {0, 1, 2, 3, 4, 5}" by (cases t) auto
next
  assume "a = 3 \<and> b \<in> {0, 1, 2, 3, 4, 5}"
  then have "mkVersion a b \<in> ign3_MaxVersion ` {V3_0, V3_1, V3_2, V3_3, V3_4, V3_5}" by auto
  then show "mkVersion a b \<in> range ign3_MaxVersion" by blast
qed

lemma sample_parse_32: "ign3_Parse sample_lib3 V3_2 ''3.2.0'' = ([''3.2.0''], [], None)"
  by (simp add: ign3_Parse_def sample_lib3_def NewVersion_mkVersion IsFatal_def)

lemma sample_parse3_220:
  "ParseCompatibleVersion sample_lib3 V3_5 ''2.2.0'' = ([], [], Some (ErrSentinel IgnErrUnknownVersion))"
proof -
  have "GetConfigVersion sample_lib3 ''2.2.0'' = Inr (mkVersion 2 2)"
    by (simp add: GetConfigVersion_def sample_lib3_def NewVersion_mkVersion)
  from ParseCompatibleVersion_unknown [OF this] show ?thesis
    by (simp add: range_ign3_MaxVersion) (simp add: sample_lib3_def)
qed

lemma sample_header: "headerError sample_lib2 ''2.2.0'' = None"
  by (simp add: headerError_def isCloudConfig_def isScript_def header_line_def sample_lib2_def
      splitN2_no_sep trim_right_id byte_def ascii_space_def utf8_space2_def utf8_space3_def)

lemma sample_parse2_220:
  "ign2_Parse sample_lib2 ''2.2.0'' = (sample_dup_config\<lparr>i2_Version := ''2.2.0''\<rparr>, [], None)"
  by (simp add: ign2_Parse_def parseSpec_def sample_header spec22_def Let_def)
    (simp add: sample_lib2_def NewVersion_mkVersion ign2_MaxVersion_def version_LessThan_def Compare_mkVersion IsFatal_def)

section \<open>Properties\<close>

text \<open>
  C24: parsing and converting a raw configuration never panics, for any decoder, validator and bytes:
  the \<open>Error()\<close> calls always have an error, \<open>semver.New\<close> gets a version that parses, and the type
  assertion on the converted configuration holds. The only hypothesis is that the library's
  translation from 2.3 to 3.0 returns.
\<close>

theorem parse_convert_never_panics:
  assumes "source_order order"
    and "\<And>c. no_panic (tr_v23tov30 tr (tr_v22tov23 tr c) [''root'' \<mapsto> ''/''])"
  shows "no_panic (ParseAndConvertConfig (ParseCompatibleVersion lib3 V3_5) (ign2_Parse lib2)
    (ignitionConverter order tr) raw)"
  by (rule ParseAndConvertConfig_no_panic [OF assms])

theorem parse_convert_never_panics_witness:
  "no_panic (ParseAndConvertConfig (ParseCompatibleVersion sample_lib3 V3_5) (ign2_Parse sample_lib2)
    (ignitionConverter converter_sources sample_translators) ''2.2.0'')"
  by (rule parse_convert_never_panics) (simp_all add: source_order_converter_sources sample_translators_def)

text \<open>
  C39: a configuration of any spec 3 version up to 3.5 that its own parser accepts is accepted, and
  comes back translated through all the newer versions in order; 3.5 itself comes back as parsed.
\<close>

theorem parse_convert_spec3:
  assumes "raw \<noteq> []" and "l3_stub lib3 raw = Inr s" and "NewVersion s = Ok (ign3_MaxVersion t)"
    and "ign3_Parse lib3 t raw = (c, r, None)"
  shows "ParseAndConvertConfig (ParseCompatibleVersion lib3 V3_5) parse2 ic raw =
    Ok (fold (l3_translate lib3) (newer_types t) c)"
  using ParseCompatibleVersion_upgrades [OF GetConfigVersion_Ok [OF assms(1-3)] assms(4)]
    ign3_Parse_not_fatal [OF assms(4)]
  by (simp add: ParseAndConvertConfig_def IgnParseWrapper_def)

theorem parse_convert_spec3_witness:
  "ParseAndConvertConfig (ParseCompatibleVersion sample_lib3 V3_5) (ign2_Parse sample_lib2)
     (ignitionConverter converter_sources sample_translators) ''3.2.0'' =
   Ok [''3.2.0'', ''3.3.0'', ''3.4.0'', ''3.5.0'']"
proof -
  have "l3_stub sample_lib3 ''3.2.0'' = Inr ''3.2.0''" by (simp add: sample_lib3_def)
  from parse_convert_spec3 [OF _ this _ sample_parse_32] show ?thesis
    by (simp add: NewVersion_mkVersion)
      (simp add: sample_lib3_def version_String_def mkVersion_def format_int_def fmt_nat_eval)
qed

text \<open>
  A configuration that only the spec 2 parser accepts is converted exactly when all its users are
  \<open>core\<close> and the translation to 3.0 succeeds; the result is the configuration without duplicates,
  translated from 2.2 up to 3.5.
\<close>

theorem parse_convert_spec2:
  assumes "source_order order"
    and "ParseCompatibleVersion lib3 V3_5 raw = (c3, r3, Some (ErrSentinel IgnErrUnknownVersion))"
    and "ign2_Parse lib2 raw = (c2, r2, None)"
  shows "ParseAndConvertConfig (ParseCompatibleVersion lib3 V3_5) (ign2_Parse lib2)
      (ignitionConverter order tr) raw = Ok c \<longleftrightarrow>
    (\<exists>d c30. removeIgnDuplicateFilesUnitsUsers c2 = Ok d
       \<and> tr_v23tov30 tr (tr_v22tov23 tr d) [''root'' \<mapsto> ''/''] = Ok c30
       \<and> c = upgrade_from_32 tr (tr_v31tov32 tr (tr_v30tov31 tr c30)))"
  by (rule ParseAndConvertConfig_v2 [OF assms])

theorem parse_convert_spec2_witness:
  "ParseAndConvertConfig (ParseCompatibleVersion sample_lib3 V3_5) (ign2_Parse sample_lib2)
     (ignitionConverter converter_sources sample_translators) ''2.2.0'' =
   Ok [[], ''23-30'', ''30-31'', ''31-32'', ''32-33'', ''33-34'', ''34-35'']"
proof -
  have "is_ok (removeIgnDuplicateFilesUnitsUsers (sample_dup_config\<lparr>i2_Version := ''2.2.0''\<rparr>))"
    by (simp add: removeDuplicates_Ok_users sample_dup_config_def)
  then obtain d where d: "removeIgnDuplicateFilesUnitsUsers (sample_dup_config\<lparr>i2_Version := ''2.2.0''\<rparr>) = Ok d"
    by (auto simp: is_ok_iff)
  have "i2_Rest d = []" unfolding removeDuplicates_Ok [OF d] by (simp add: sample_dup_config_def)
  then show ?thesis
    unfolding parse_convert_spec2 [OF source_order_converter_sources sample_parse3_220 sample_parse2_220]
    using d by (simp add: sample_translators_def sample_step_def upgrade_from_32_def)
qed

text \<open>
  A configuration whose version string is not a semantic version is refused with an error that
  lists the supported versions, and so is one with a version that neither parser knows.
\<close>

theorem parse_convert_version_errors:
  assumes "raw \<noteq> []" and "l3_stub lib3 raw = Inr s"
  shows "(\<not> is_ok (NewVersion s) \<longrightarrow>
      ParseAndConvertConfig (ParseCompatibleVersion lib3 V3_5) parse2 (ignitionConverter order tr) raw =
        Err (ErrWrap ''failed to parse Ignition config: ''
          (ErrText ''parsing Ignition config failed: invalid version. Supported spec versions: 2.2,3.0,3.1,3.2,3.3,3.4,3.5'') []))
    \<and> (\<forall>v c r. NewVersion s = Ok v \<longrightarrow> v \<notin> range ign3_MaxVersion \<longrightarrow>
        parse2 raw = (c, r, Some (ErrSentinel IgnErrUnknownVersion)) \<longrightarrow>
      ParseAndConvertConfig (ParseCompatibleVersion lib3 V3_5) parse2 (ignitionConverter order tr) raw =
        Err (ErrWrap ''failed to parse Ignition config: ''
          (ErrText ''parsing Ignition config failed: unknown version. Supported spec versions: 2.2,3.0,3.1,3.2,3.3,3.4,3.5'') []))"
proof (intro conjI impI allI)
  assume "\<not> is_ok (NewVersion s)"
  then have "GetConfigVersion lib3 raw = Inl ([], ErrSentinel IgnErrInvalidVersion)"
    using assms by (cases "NewVersion s") (simp_all add: GetConfigVersion_def)
  then show "ParseAndConvertConfig (ParseCompatibleVersion lib3 V3_5) parse2 (ignitionConverter order tr) raw =
      Err (ErrWrap ''failed to parse Ignition config: ''
        (ErrText ''parsing Ignition config failed: invalid version. Supported spec versions: 2.2,3.0,3.1,3.2,3.3,3.4,3.5'') [])"
    by (simp add: ParseAndConvertConfig_def IgnParseWrapper_def ParseCompatibleVersion.simps [of lib3 V3_5]
        supported_minor_versions supportedVersions_text_def trim_suffix_def)
next
  fix v c r
  assume v: "NewVersion s = Ok v" "v \<notin> range ign3_MaxVersion"
    and "parse2 raw = (c, r, Some (ErrSentinel IgnErrUnknownVersion))"
  then show "ParseAndConvertConfig (ParseCompatibleVersion lib3 V3_5) parse2 (ignitionConverter order tr) raw =
      Err (ErrWrap ''failed to parse Ignition config: ''
        (ErrText ''parsing Ignition config failed: unknown version. Supported spec versions: 2.2,3.0,3.1,3.2,3.3,3.4,3.5'') [])"
    using ParseCompatibleVersion_unknown [OF GetConfigVersion_Ok [OF assms v(1)] v(2), of V3_5]
    by (simp add: ParseAndConvertConfig_def IgnParseWrapper_def
        supported_minor_versions supportedVersions_text_def trim_suffix_def)
qed

theorem parse_convert_version_errors_witness:
  "ParseAndConvertConfig (ParseCompatibleVersion sample_lib3 V3_5) (ign2_Parse sample_lib2)
     (ignitionConverter converter_sources sample_translators) ''three'' =
   Err (ErrWrap ''failed to parse Ignition config: ''
     (ErrText ''parsing Ignition config failed: invalid version. Supported spec versions: 2.2,3.0,3.1,3.2,3.3,3.4,3.5'') [])"
proof -
  have "\<not> is_ok (NewVersion ''three'')"
    by (simp add: NewVersion_def splitOff_def splitN2_no_sep)
  moreover have "l3_stub sample_lib3 ''three'' = Inr ''three''" by (simp add: sample_lib3_def)
  ultimately show ?thesis
    using parse_convert_version_errors [of "''three''" sample_lib3 "''three''"] by blast
qed

end
