(* ===== verification/Transpile.thy ===== *)
theory Transpile
  imports ParseSpec ApiTypes
begin

text \<open>
  The rest of \<open>src/internal/common/helpers.go\<close>: rendered file and unit snippets transpiled into one
  Ignition 3.5 configuration (\<open>TranspileCoreOSConfigToIgn\<close>), the machine configs built around a
  configuration, and the functions offered to templates. YAML and JSON coding, the body of the
  Fedora CoreOS translation and \<open>ign3.Merge\<close> are parameters.
\<close>

section \<open>Data\<close>

text \<open>A spec 3 configuration: its version and everything else.\<close>

record 'b ign3 =
  i3_Version :: string
  i3_Body :: 'b

record fcct_file =
  ff_Path :: string
  ff_Overwrite :: "bool option"
  ff_Rest :: string

record fcct_unit =
  fu_Name :: string
  fu_Rest :: string

record fcct_config =
  fc_Files :: "fcct_file list"
  fc_Units :: "fcct_unit list"

definition fcct_empty :: fcct_config where
  "fcct_empty = \<lparr>fc_Files = [], fc_Units = []\<rparr>"

record 'b toolchain =
  tc_unmarshalFile :: "string \<Rightarrow> fcct_file result"
  tc_unmarshalUnit :: "string \<Rightarrow> fcct_unit result"
  tc_translate :: "fcct_config \<Rightarrow> 'b"
  tc_translationSet :: "fcct_config \<Rightarrow> string"
  tc_zero :: "'b ign3"
  tc_Merge :: "'b ign3 \<Rightarrow> 'b ign3 \<Rightarrow> 'b ign3"
  tc_jsonMarshal :: "'b ign3 \<Rightarrow> string result"

record machineConfig =
  mc_Meta :: objectMeta
  mc_OSImageURL :: string
  mc_Config :: string
  mc_Extensions :: "string list"

section \<open>Transpiling\<close>

text \<open>
  \<open>ToIgn3_0\<close> of the vendored transpiler (\<open>base/v0_1/translate.go\<close>): the translation, its translation
  set and a nil error; \<open>translateIgnition\<close> writes the version.
\<close>

definition ToIgn3_0 :: "'b toolchain \<Rightarrow> fcct_config \<Rightarrow> 'b ign3 \<times> string \<times> error option" where
  "ToIgn3_0 tc c =
     (\<lparr>i3_Version = version_String (ign3_MaxVersion V3_0), i3_Body = tc_translate tc c\<rparr>,
      tc_translationSet tc c, None)"

text \<open>The part the two loops share: transpile one snippet, take it to 3.5, merge it.\<close>

definition transpileSnippet ::
  "'b toolchain \<Rightarrow> 'b ign3 ign_any ignitionConverter \<Rightarrow> 'b ign3 \<Rightarrow> fcct_config \<Rightarrow> 'b ign3 result" where
  "transpileSnippet tc ic outConfig ctCfg =
     (let (ign30Config, tSet, err) = ToIgn3_0 tc ctCfg in
      case err of
        Some e \<Rightarrow> Err (ErrWrap ''failed to transpile config to Ignition config '' e
          ([CHR 0x0A] @ ''Translation set: '' @ tSet))
      | None \<Rightarrow>
          rbind (semver_New (i3_Version ign30Config)) (\<lambda>version.
          rbind (rwrap (''failed to convert config from 3.0 to '' @ version_String (ign3_MaxVersion V3_5) @ ''. '') []
                   (Convert ic (Ign3 V3_0 ign30Config) version (ign3_MaxVersion V3_5)))
            (\<lambda>ign3Config. case as_ign3 V3_5 ign3Config of
               Some c \<Rightarrow> Ok (tc_Merge tc outConfig c) | None \<Rightarrow> Panic TypeAssertion)))"

definition transpileFile ::
  "'b toolchain \<Rightarrow> 'b ign3 ign_any ignitionConverter \<Rightarrow> 'b ign3 \<Rightarrow> string \<Rightarrow> 'b ign3 result" where
  "transpileFile tc ic outConfig contents =
     rbind (rwrap (''failed to unmarshal '' @ go_quote contents @ '' into struct: '') [] (tc_unmarshalFile tc contents))
       (\<lambda>f. let f = f\<lparr>ff_Overwrite := Some True\<rparr> in
          transpileSnippet tc ic outConfig (fcct_empty\<lparr>fc_Files := fc_Files fcct_empty @ [f]\<rparr>))"

definition transpileUnit ::
  "'b toolchain \<Rightarrow> 'b ign3 ign_any ignitionConverter \<Rightarrow> 'b ign3 \<Rightarrow> string \<Rightarrow> 'b ign3 result" where
  "transpileUnit tc ic outConfig contents =
     rbind (rwrap ''failed to unmarshal systemd unit into struct: '' [] (tc_unmarshalUnit tc contents))
       (\<lambda>u. transpileSnippet tc ic outConfig (fcct_empty\<lparr>fc_Units := fc_Units fcct_empty @ [u]\<rparr>))"

definition TranspileCoreOSConfigToIgn ::
  "'b toolchain \<Rightarrow> 'b ign3 ign_any ignitionConverter \<Rightarrow> string list \<Rightarrow> string list \<Rightarrow> 'b ign3 result" where
  "TranspileCoreOSConfigToIgn tc ic files units =
     rbind (rfold (transpileFile tc ic) (tc_zero tc) files)
       (\<lambda>outConfig. rfold (transpileUnit tc ic) outConfig units)"

section \<open>Machine configs\<close>

definition MachineConfigRoleLabelKey :: string where
  "MachineConfigRoleLabelKey = ''machineconfiguration.openshift.io/role''"

definition MachineConfigFromRawIgnConfig :: "string \<Rightarrow> string \<Rightarrow> string \<Rightarrow> machineConfig" where
  "MachineConfigFromRawIgnConfig role name rawIgnCfg =
     \<lparr>mc_Meta = new_meta name (Some [MachineConfigRoleLabelKey \<mapsto> role]),
      mc_OSImageURL = [], mc_Config = rawIgnCfg, mc_Extensions = []\<rparr>"

definition MachineConfigFromIgnConfig ::
  "'b toolchain \<Rightarrow> string \<Rightarrow> string \<Rightarrow> 'b ign3 \<Rightarrow> machineConfig result" where
  "MachineConfigFromIgnConfig tc role name ignCfg =
     rbind (rwrap ''error marshalling Ignition config: '' [] (tc_jsonMarshal tc ignCfg))
       (\<lambda>rawIgnCfg. Ok (MachineConfigFromRawIgnConfig role name rawIgnCfg))"

section \<open>Template functions\<close>

text \<open>Go's \<open>interface{}\<close> as \<open>strval\<close> tells its cases apart; other values come with their \<open>v\<close> print.\<close>

datatype go_value =
    GoString string
  | GoBytes string
  | GoError error
  | GoStringer string
  | GoOther string

fun strval :: "go_value \<Rightarrow> string" where
  "strval (GoString v) = v"
| "strval (GoBytes v) = v"
| "strval (GoError v) = err_text v"
| "strval (GoStringer v) = v"
| "strval (GoOther v) = v"

definition indent :: "int \<Rightarrow> string \<Rightarrow> string result" where
  "indent spaces v =
     rbind (go_repeat '' '' spaces) (\<lambda>pad. Ok (pad @ replace_all (CHR 0x0A) ([CHR 0x0A] @ pad) v))"

record tmplFuncs =
  tf_toString :: "go_value \<Rightarrow> string"
  tf_indent :: "int \<Rightarrow> string \<Rightarrow> string result"

definition GetTemplateFuncMap :: tmplFuncs where
  "GetTemplateFuncMap = \<lparr>tf_toString = strval, tf_indent = indent\<rparr>"

section \<open>Lemmas\<close>

text \<open>The configuration that one snippet becomes, at 3.5.\<close>

definition snippet35 :: "'b ign3 translators \<Rightarrow> 'b toolchain \<Rightarrow> fcct_config \<Rightarrow> 'b ign3" where
  "snippet35 tr tc c = upgrade_from_32 tr (tr_v31tov32 tr (tr_v30tov31 tr (fst (ToIgn3_0 tc c))))"

lemma semver_New_30: "semver_New (version_String (mkVersion 3 0)) = Ok (mkVersion 3 0)"
  using NewVersion_String [OF wf_mkVersion [of 3 0]] by (simp add: semver_New_def)

lemma transpileSnippet_eq:
  assumes "source_order order"
  shows "transpileSnippet tc (ignitionConverter order tr) out c = Ok (tc_Merge tc out (snippet35 tr tc c))"
  by (simp add: transpileSnippet_def ToIgn3_0_def snippet35_def semver_New_30 Convert_30_35 [OF assms])

definition fileSnippet :: "fcct_file \<Rightarrow> fcct_config" where
  "fileSnippet f = \<lparr>fc_Files = [f\<lparr>ff_Overwrite := Some True\<rparr>], fc_Units = []\<rparr>"

definition unitSnippet :: "fcct_unit \<Rightarrow> fcct_config" where
  "unitSnippet u = \<lparr>fc_Files = [], fc_Units = [u]\<rparr>"

lemma transpileFile_eq:
  assumes "source_order order"
  shows "transpileFile tc (ignitionConverter order tr) out s =
    rbind (rwrap (''failed to unmarshal '' @ go_quote s @ '' into struct: '') [] (tc_unmarshalFile tc s))
      (\<lambda>f. Ok (tc_Merge tc out (snippet35 tr tc (fileSnippet f))))"
  by (simp add: transpileFile_def transpileSnippet_eq [OF assms] fileSnippet_def fcct_empty_def Let_def)

lemma transpileUnit_eq:
  assumes "source_order order"
  shows "transpileUnit tc (ignitionConverter order tr) out s =
    rbind (rwrap ''failed to unmarshal systemd unit into struct: '' [] (tc_unmarshalUnit tc s))
      (\<lambda>u. Ok (tc_Merge tc out (snippet35 tr tc (unitSnippet u))))"
  by (simp add: transpileUnit_def transpileSnippet_eq [OF assms] unitSnippet_def fcct_empty_def)

text \<open>A loop that parses each element and merges it is a parse of all elements, then a fold.\<close>

lemma rfold_parse_merge:
  assumes "\<And>s x. f s x = rbind (p x) (\<lambda>y. Ok (m s y))"
  shows "rfold f s xs = Ok t \<longleftrightarrow> (\<exists>ys. list_all2 (\<lambda>x y. p x = Ok y) xs ys \<and> t = fold (\<lambda>y s. m s y) ys s)"
proof (induction xs arbitrary: s)
  case (Cons x xs)
  let ?R = "\<lambda>x y. p x = Ok y" and ?g = "\<lambda>y s. m s y"
  have "rfold f s (x # xs) = Ok t \<longleftrightarrow> (\<exists>y ys. p x = Ok y \<and> list_all2 ?R xs ys \<and> t = fold ?g ys (m s y))"
  proof -
    have "rfold f s (x # xs) = rbind (p x) (\<lambda>y. rfold f (m s y) xs)"
      by (cases "p x") (simp_all add: assms [of s x])
    then show ?thesis by (simp only: rbind_Ok_iff Cons) blast
  qed
  also have "\<dots> \<longleftrightarrow> (\<exists>ys. list_all2 ?R (x # xs) ys \<and> t = fold ?g ys s)"
    by (simp only: list_all2_Cons1) (metis (no_types, lifting) fold_simps(2))
  finally show ?case .
qed auto

lemma transpile_Ok_iff:
  assumes "source_order order"
  shows "TranspileCoreOSConfigToIgn tc (ignitionConverter order tr) files units = Ok c \<longleftrightarrow>
    (\<exists>fs us. list_all2 (\<lambda>s f. tc_unmarshalFile tc s = Ok f) files fs
       \<and> list_all2 (\<lambda>s u. tc_unmarshalUnit tc s = Ok u) units us
       \<and> c = fold (\<lambda>s out. tc_Merge tc out (snippet35 tr tc s))
               (List.map fileSnippet fs @ List.map unitSnippet us) (tc_zero tc))"
  unfolding TranspileCoreOSConfigToIgn_def rbind_Ok_iff
    rfold_parse_merge [OF transpileFile_eq [OF assms]] rfold_parse_merge [OF transpileUnit_eq [OF assms]]
  by (auto simp: rwrap_Ok_iff fold_map comp_def)

lemma transpile_no_panic:
  assumes "source_order order" and "\<And>s. no_panic (tc_unmarshalFile tc s)" and "\<And>s. no_panic (tc_unmarshalUnit tc s)"
  shows "no_panic (TranspileCoreOSConfigToIgn tc (ignitionConverter order tr) files units)"
  unfolding TranspileCoreOSConfigToIgn_def
  by (intro rbind_no_panic rfold_no_panic)
    (auto simp: transpileFile_eq [OF assms(1)] transpileUnit_eq [OF assms(1)] assms(2,3) intro!: rbind_no_panic)

lemma indent_Ok: "0 \<le> n \<Longrightarrow> indent n v = Ok (replicate (nat n) CHR '' '' @ replace_all (CHR 0x0A) (CHR 0x0A # replicate (nat n) CHR '' '') v)"
proof -
  have "concat (replicate k '' '') = replicate k CHR '' ''" for k by (induction k) simp_all
  then show "0 \<le> n \<Longrightarrow> ?thesis" by (simp add: indent_def go_repeat_def)
qed

section \<open>A concrete toolchain\<close>

text \<open>
  For the witnesses: a snippet is its own path or name, bodies are texts, and the translations only
  set the version.
\<close>

definition set_version :: "string \<Rightarrow> string ign3 \<Rightarrow> string ign3" where
  "set_version v c = c\<lparr>i3_Version := v\<rparr>"

definition sample_tr :: "string ign3 translators" where
  "sample_tr =
     \<lparr>tr_v35tov34 = (\<lambda>c. Ok (set_version ''3.4.0'' c)), tr_v34tov35 = set_version ''3.5.0'',
      tr_v34tov33 = (\<lambda>c. Ok (set_version ''3.3.0'' c)), tr_v33tov34 = set_version ''3.4.0'',
      tr_v33tov32 = (\<lambda>c. Ok (set_version ''3.2.0'' c)), tr_v32tov33 = set_version ''3.3.0'',
      tr_v32tov31 = (\<lambda>c. Ok (set_version ''3.1.0'' c)), tr_v32tov22 = (\<lambda>c. Ok ign2_zero),
      tr_v22tov23 = (\<lambda>c. \<lparr>i3_Version = ''2.3.0'', i3_Body = i2_Rest c\<rparr>),
      tr_v23tov30 = (\<lambda>c fsMap. Ok (set_version ''3.0.0'' c)),
      tr_v30tov31 = set_version ''3.1.0'', tr_v31tov32 = set_version ''3.2.0''\<rparr>"

definition sample_tc :: "string toolchain" where
  "sample_tc =
     \<lparr>tc_unmarshalFile = (\<lambda>s. if s = [] then Err (ErrText ''empty'') else Ok \<lparr>ff_Path = s, ff_Overwrite = None, ff_Rest = []\<rparr>),
      tc_unmarshalUnit = (\<lambda>s. if s = [] then Err (ErrText ''empty'') else Ok \<lparr>fu_Name = s, fu_Rest = []\<rparr>),
      tc_translate = (\<lambda>c. concat (List.map ff_Path (fc_Files c)) @ concat (List.map fu_Name (fc_Units c)) @ '';''),
      tc_translationSet = (\<lambda>c. []), tc_zero = \<lparr>i3_Version = [], i3_Body = []\<rparr>,
      tc_Merge = (\<lambda>parent child. \<lparr>i3_Version = i3_Version child, i3_Body = i3_Body parent @ i3_Body child\<rparr>),
      tc_jsonMarshal = (\<lambda>c. Ok (i3_Version c @ '' '' @ i3_Body c))\<rparr>"

section \<open>Properties\<close>

text \<open>
  Transpiling succeeds exactly when every file and every unit snippet can be decoded; the result
  merges, into the empty configuration and in this order, the files (each with \<open>overwrite\<close> set) and
  then the units, each translated on its own from 3.0 to 3.5.
\<close>

theorem transpile_merges_in_order:
  assumes "source_order order"
  shows "TranspileCoreOSConfigToIgn tc (ignitionConverter order tr) files units = Ok c \<longleftrightarrow>
    (\<exists>fs us. list_all2 (\<lambda>s f. tc_unmarshalFile tc s = Ok f) files fs
       \<and> list_all2 (\<lambda>s u. tc_unmarshalUnit tc s = Ok u) units us
       \<and> c = fold (\<lambda>s out. tc_Merge tc out (snippet35 tr tc s))
               (List.map fileSnippet fs @ List.map unitSnippet us) (tc_zero tc))"
  by (rule transpile_Ok_iff [OF assms])

theorem transpile_merges_in_order_witness:
  "TranspileCoreOSConfigToIgn sample_tc (ignitionConverter converter_sources sample_tr) [''a'', ''b''] [''u''] =
     Ok \<lparr>i3_Version = ''3.5.0'', i3_Body = ''a;b;u;''\<rparr>"
  unfolding transpile_merges_in_order [OF source_order_converter_sources]
  by (simp add: list_all2_Cons1 sample_tc_def snippet35_def ToIgn3_0_def fileSnippet_def unitSnippet_def
      upgrade_from_32_def sample_tr_def set_version_def)

text \<open>
  The template function \<open>indent\<close> puts the given number of spaces in front of every line of its
  argument, and panics exactly for a negative number.
\<close>

theorem indent_pads_every_line:
  "(case indent n v of
      Ok r \<Rightarrow> split_on (CHR 0x0A) r = List.map (\<lambda>l. replicate (nat n) (CHR '' '') @ l) (split_on (CHR 0x0A) v)
    | Err e \<Rightarrow> False
    | Panic p \<Rightarrow> p = NegativeRepeat)
   \<and> (is_ok (indent n v) \<longleftrightarrow> 0 \<le> n)"
proof (cases "0 \<le> n")
  case True
  let ?pad = "replicate (nat n) (CHR '' '')"
  have nl: "CHR 0x0A \<notin> set ?pad" by simp
  obtain h t where "split_on (CHR 0x0A) v = h # t" by (cases "split_on (CHR 0x0A) v") auto
  then show ?thesis
    using True by (simp add: indent_Ok split_on_append_no_sep [OF nl] split_on_replace_all [OF nl])
qed (simp add: indent_def go_repeat_def)

end
