(* ===== verification/KubeApi.thy ===== *)
theory KubeApi
  imports ApiTypes Transpile
begin

text \<open>
  The cluster as the operator's client shows it. A client is a record of the calls the reconciler
  makes, each on a world \<open>'w\<close>. The locale \<open>kube_client\<close> states what the reconciler's proofs use of
  it: the calls return (no panic), reads write nothing, and a successful write is recorded as that
  write. \<open>api_server\<close> is such a client: a store of objects in which, before every call, other parties
  may change the objects and the call may be made to fail, as a schedule says.
\<close>

section \<open>Objects and clients\<close>

type_synonym objectKey = "string \<times> string"

definition key_of :: "nodeSwap \<Rightarrow> objectKey" where
  "key_of ns = (om_Namespace (ns_Meta ns), om_Name (ns_Meta ns))"

record mcpCondition =
  pc_Type :: string
  pc_Status :: string

text \<open>\<open>mp_Selector\<close>: \<open>Spec.MachineConfigSelector\<close>, nil or its \<open>MatchLabels\<close>, which may be nil.\<close>

record machineConfigPool =
  mp_Name :: string
  mp_Selector :: "(string \<rightharpoonup> string) option option"
  mp_Conditions :: "mcpCondition list"

record 'w client =
  cl_Now :: "'w \<Rightarrow> int \<times> 'w"
  cl_GetNodeSwap :: "objectKey \<Rightarrow> 'w \<Rightarrow> nodeSwap result \<times> 'w"
  cl_GetMachineConfig :: "string \<Rightarrow> 'w \<Rightarrow> machineConfig result \<times> 'w"
  cl_ListMachineConfigPools :: "'w \<Rightarrow> machineConfigPool list result \<times> 'w"
  cl_CreateMachineConfig :: "machineConfig \<Rightarrow> 'w \<Rightarrow> unit result \<times> 'w"
  cl_UpdateStatus :: "nodeSwap \<Rightarrow> 'w \<Rightarrow> nodeSwap result \<times> 'w"

datatype api_write = CreatedMachineConfig machineConfig | UpdatedStatus objectKey nodeSwapStatus

section \<open>The interface\<close>

locale kube_client =
  fixes cl :: "'w client" and writes :: "'w \<Rightarrow> api_write list"
  assumes now_writes: "writes (snd (cl_Now cl w)) = writes w"
    and get_ns_writes: "writes (snd (cl_GetNodeSwap cl key w)) = writes w"
    and get_mc_writes: "writes (snd (cl_GetMachineConfig cl name w)) = writes w"
    and list_writes: "writes (snd (cl_ListMachineConfigPools cl w)) = writes w"
    and create_writes: "writes (snd (cl_CreateMachineConfig cl mc w)) =
      writes w @ (if is_ok (fst (cl_CreateMachineConfig cl mc w)) then [CreatedMachineConfig mc] else [])"
    and update_writes: "writes (snd (cl_UpdateStatus cl ns w)) =
      writes w @ (if is_ok (fst (cl_UpdateStatus cl ns w)) then [UpdatedStatus (key_of ns) (ns_Status ns)] else [])"
    and get_ns_no_panic: "no_panic (fst (cl_GetNodeSwap cl key w))"
    and get_mc_no_panic: "no_panic (fst (cl_GetMachineConfig cl name w))"
    and list_no_panic: "no_panic (fst (cl_ListMachineConfigPools cl w))"
    and create_no_panic: "no_panic (fst (cl_CreateMachineConfig cl mc w))"
    and update_no_panic: "no_panic (fst (cl_UpdateStatus cl ns w))"

section \<open>An API server\<close>

text \<open>What other parties do between two calls of the operator.\<close>

datatype env_action =
    EnvPutNodeSwap nodeSwap
  | EnvDeleteNodeSwap objectKey
  | EnvPutMachineConfig machineConfig
  | EnvDeleteMachineConfig string
  | EnvSetPools "machineConfigPool list"

text \<open>One entry of the schedule per call; after its end the calls go undisturbed.\<close>

type_synonym tick = "env_action list \<times> error option"

record cluster =
  cs_NodeSwaps :: "objectKey \<rightharpoonup> nodeSwap"
  cs_MachineConfigs :: "string \<rightharpoonup> machineConfig"
  cs_Pools :: "machineConfigPool list"
  cs_Schedule :: "tick list"
  cs_Times :: "nat \<Rightarrow> int"
  cs_Ticks :: nat
  cs_Revision :: nat
  cs_Writes :: "api_write list"

text \<open>Every change of an object gets a resource version that no object had before.\<close>

definition stampNodeSwap :: "nat \<Rightarrow> nodeSwap \<Rightarrow> nodeSwap" where
  "stampNodeSwap v ns = ns\<lparr>ns_Meta := (ns_Meta ns)\<lparr>om_ResourceVersion := v\<rparr>\<rparr>"

definition stampMachineConfig :: "nat \<Rightarrow> machineConfig \<Rightarrow> machineConfig" where
  "stampMachineConfig v mc = mc\<lparr>mc_Meta := (mc_Meta mc)\<lparr>om_ResourceVersion := v\<rparr>\<rparr>"

fun env_step :: "env_action \<Rightarrow> cluster \<Rightarrow> cluster" where
  "env_step (EnvPutNodeSwap ns) w =
     w\<lparr>cs_NodeSwaps := (cs_NodeSwaps w)(key_of ns \<mapsto> stampNodeSwap (Suc (cs_Revision w)) ns),
       cs_Revision := Suc (cs_Revision w)\<rparr>"
| "env_step (EnvDeleteNodeSwap key) w = w\<lparr>cs_NodeSwaps := (cs_NodeSwaps w)(key := None)\<rparr>"
| "env_step (EnvPutMachineConfig mc) w =
     w\<lparr>cs_MachineConfigs := (cs_MachineConfigs w)
         (om_Name (mc_Meta mc) \<mapsto> stampMachineConfig (Suc (cs_Revision w)) mc),
       cs_Revision := Suc (cs_Revision w)\<rparr>"
| "env_step (EnvDeleteMachineConfig name) w = w\<lparr>cs_MachineConfigs := (cs_MachineConfigs w)(name := None)\<rparr>"
| "env_step (EnvSetPools pools) w = w\<lparr>cs_Pools := pools\<rparr>"

definition begin_call :: "cluster \<Rightarrow> error option \<times> cluster" where
  "begin_call w =
     (case cs_Schedule w of
        [] \<Rightarrow> (None, w)
      | (actions, fault) # rest \<Rightarrow> (fault, fold env_step actions (w\<lparr>cs_Schedule := rest\<rparr>)))"

text \<open>
  A call: the disturbances, then its effect unless it is made to fail. A write that is applied although its
  answer is lost is a disturbance that puts the object, followed by the failure.
\<close>

definition api_call :: "(cluster \<Rightarrow> 'a result \<times> cluster) \<Rightarrow> cluster \<Rightarrow> 'a result \<times> cluster" where
  "api_call effect w = (case begin_call w of (Some e, w') \<Rightarrow> (Err e, w') | (None, w') \<Rightarrow> effect w')"

definition not_found :: "string \<Rightarrow> string \<Rightarrow> error" where
  "not_found resource name = ErrApi NotFound (resource @ '' '' @ go_quote name @ '' not found'')"

definition already_exists :: "string \<Rightarrow> string \<Rightarrow> error" where
  "already_exists resource name = ErrApi AlreadyExists (resource @ '' '' @ go_quote name @ '' already exists'')"

definition api_GetNodeSwap :: "objectKey \<Rightarrow> cluster \<Rightarrow> nodeSwap result \<times> cluster" where
  "api_GetNodeSwap key = api_call (\<lambda>w.
     (case cs_NodeSwaps w key of
        None \<Rightarrow> Err (not_found ''nodeswaps.node-swap.openshift.io'' (snd key)) | Some ns \<Rightarrow> Ok ns, w))"

definition api_GetMachineConfig :: "string \<Rightarrow> cluster \<Rightarrow> machineConfig result \<times> cluster" where
  "api_GetMachineConfig name = api_call (\<lambda>w.
     (case cs_MachineConfigs w name of
        None \<Rightarrow> Err (not_found ''machineconfigs.machineconfiguration.openshift.io'' name) | Some mc \<Rightarrow> Ok mc, w))"

definition api_ListMachineConfigPools :: "cluster \<Rightarrow> machineConfigPool list result \<times> cluster" where
  "api_ListMachineConfigPools = api_call (\<lambda>w. (Ok (cs_Pools w), w))"

definition api_CreateMachineConfig :: "machineConfig \<Rightarrow> cluster \<Rightarrow> unit result \<times> cluster" where
  "api_CreateMachineConfig mc = api_call (\<lambda>w.
     let name = om_Name (mc_Meta mc) in
     if cs_MachineConfigs w name \<noteq> None
     then (Err (already_exists ''machineconfigs.machineconfiguration.openshift.io'' name), w)
     else (Ok (), w\<lparr>cs_MachineConfigs := (cs_MachineConfigs w)
                      (name \<mapsto> stampMachineConfig (Suc (cs_Revision w)) mc),
                    cs_Revision := Suc (cs_Revision w),
                    cs_Writes := cs_Writes w @ [CreatedMachineConfig mc]\<rparr>))"

definition conflict :: "string \<Rightarrow> string \<Rightarrow> error" where
  "conflict resource name = ErrApi OtherReason (''Operation cannot be fulfilled on '' @ resource @ '' ''
     @ go_quote name @ '': the object has been modified; please apply your changes to the latest version and try again'')"

text \<open>
  The status subresource: only the status of the stored object changes, and only if the caller read the
  version that is stored. An update that changes nothing leaves the version as it is.
\<close>

definition put_status :: "nodeSwap \<Rightarrow> nodeSwapStatus \<Rightarrow> nat \<Rightarrow> nodeSwap \<times> nat" where
  "put_status stored st v =
     (if stored\<lparr>ns_Status := st\<rparr> = stored then (stored, v)
      else (stampNodeSwap (Suc v) (stored\<lparr>ns_Status := st\<rparr>), Suc v))"

definition api_UpdateStatus :: "nodeSwap \<Rightarrow> cluster \<Rightarrow> nodeSwap result \<times> cluster" where
  "api_UpdateStatus ns = api_call (\<lambda>w.
     case cs_NodeSwaps w (key_of ns) of
       None \<Rightarrow> (Err (not_found ''nodeswaps.node-swap.openshift.io'' (om_Name (ns_Meta ns))), w)
     | Some stored \<Rightarrow>
         if om_ResourceVersion (ns_Meta stored) \<noteq> om_ResourceVersion (ns_Meta ns)
         then (Err (conflict ''nodeswaps.node-swap.openshift.io'' (om_Name (ns_Meta ns))), w)
         else
           let (new, v) = put_status stored (ns_Status ns) (cs_Revision w) in
           (Ok new, w\<lparr>cs_NodeSwaps := (cs_NodeSwaps w)(key_of ns \<mapsto> new), cs_Revision := v,
                      cs_Writes := cs_Writes w @ [UpdatedStatus (key_of ns) (ns_Status ns)]\<rparr>))"

definition api_Now :: "cluster \<Rightarrow> int \<times> cluster" where
  "api_Now w = (cs_Times w (cs_Ticks w), w\<lparr>cs_Ticks := Suc (cs_Ticks w)\<rparr>)"

definition api_server :: "cluster client" where
  "api_server =
     \<lparr>cl_Now = api_Now, cl_GetNodeSwap = api_GetNodeSwap, cl_GetMachineConfig = api_GetMachineConfig,
      cl_ListMachineConfigPools = api_ListMachineConfigPools,
      cl_CreateMachineConfig = api_CreateMachineConfig, cl_UpdateStatus = api_UpdateStatus\<rparr>"

lemmas api_defs =
  api_GetNodeSwap_def api_GetMachineConfig_def api_ListMachineConfigPools_def
  api_CreateMachineConfig_def api_UpdateStatus_def

lemma api_server_simps [simp]:
  "cl_Now api_server = api_Now" "cl_GetNodeSwap api_server = api_GetNodeSwap"
  "cl_GetMachineConfig api_server = api_GetMachineConfig"
  "cl_ListMachineConfigPools api_server = api_ListMachineConfigPools"
  "cl_CreateMachineConfig api_server = api_CreateMachineConfig"
  "cl_UpdateStatus api_server = api_UpdateStatus"
  by (simp_all add: api_server_def)

lemma stampNodeSwap_simps [simp]:
  "ns_Spec (stampNodeSwap v ns) = ns_Spec ns" "ns_Status (stampNodeSwap v ns) = ns_Status ns"
  "om_ResourceVersion (ns_Meta (stampNodeSwap v ns)) = v" "key_of (stampNodeSwap v ns) = key_of ns"
  by (simp_all add: stampNodeSwap_def key_of_def)

lemma key_of_status [simp]: "key_of (ns\<lparr>ns_Status := st\<rparr>) = key_of ns"
  by (simp add: key_of_def)

lemma stampMachineConfig_simps [simp]:
  "om_Name (mc_Meta (stampMachineConfig v mc)) = om_Name (mc_Meta mc)"
  "om_ResourceVersion (mc_Meta (stampMachineConfig v mc)) = v"
  "om_Namespace (mc_Meta (stampMachineConfig v mc)) = om_Namespace (mc_Meta mc)"
  by (simp_all add: stampMachineConfig_def)

lemma put_status_fields:
  assumes "put_status stored st v = (new, v')"
  shows "ns_Status new = st" and "ns_Spec new = ns_Spec stored" and "key_of new = key_of stored"
    and "v' = v \<and> new = stored \<or> v' = Suc v \<and> om_ResourceVersion (ns_Meta new) = v'"
proof -
  have "ns_Status new = st \<and> ns_Spec new = ns_Spec stored \<and> key_of new = key_of stored
    \<and> (v' = v \<and> new = stored \<or> v' = Suc v \<and> om_ResourceVersion (ns_Meta new) = v')"
  proof (cases "stored\<lparr>ns_Status := st\<rparr> = stored")
    case True
    then have "ns_Status stored = st" by (metis nodeSwap.select_convs(3) nodeSwap.surjective nodeSwap.update_convs(3))
    then show ?thesis using assms True by (auto simp: put_status_def)
  qed (use assms in \<open>auto simp: put_status_def\<close>)
  then show "ns_Status new = st" "ns_Spec new = ns_Spec stored" "key_of new = key_of stored"
    "v' = v \<and> new = stored \<or> v' = Suc v \<and> om_ResourceVersion (ns_Meta new) = v'" by auto
qed

lemma env_steps_writes [simp]: "cs_Writes (fold env_step actions w) = cs_Writes w"
proof (induction actions arbitrary: w)
  case (Cons a actions)
  then show ?case by (cases a) simp_all
qed simp

lemma begin_call_writes: "begin_call w = (f, w') \<Longrightarrow> cs_Writes w' = cs_Writes w"
  by (auto simp: begin_call_def split: list.splits)

text \<open>What holds of the effect of a call holds of the call.\<close>

lemma api_call_no_panic: "(\<And>w. no_panic (fst (effect w))) \<Longrightarrow> no_panic (fst (api_call effect w))"
  by (simp add: api_call_def split: prod.split option.split)

lemma api_call_writes:
  assumes "\<And>w. cs_Writes (snd (effect w)) = cs_Writes w @ (if is_ok (fst (effect w)) then extra else [])"
  shows "cs_Writes (snd (api_call effect w)) = cs_Writes w @ (if is_ok (fst (api_call effect w)) then extra else [])"
  using assms begin_call_writes [of w] by (auto simp: api_call_def split: prod.split option.split)

lemma api_call_reads:
  "(\<And>w. cs_Writes (snd (effect w)) = cs_Writes w) \<Longrightarrow> cs_Writes (snd (api_call effect w)) = cs_Writes w"
  using api_call_writes [of effect "[]"] by simp

interpretation api: kube_client api_server cs_Writes
proof unfold_locales
  fix w
  show "cs_Writes (snd (cl_Now api_server w)) = cs_Writes w" by (simp add: api_Now_def)
  fix key name mc ns
  show "cs_Writes (snd (cl_GetNodeSwap api_server key w)) = cs_Writes w"
    "cs_Writes (snd (cl_GetMachineConfig api_server name w)) = cs_Writes w"
    "cs_Writes (snd (cl_ListMachineConfigPools api_server w)) = cs_Writes w"
    unfolding api_server_simps api_defs by (rule api_call_reads, simp)+
  show "cs_Writes (snd (cl_CreateMachineConfig api_server mc w)) =
      cs_Writes w @ (if is_ok (fst (cl_CreateMachineConfig api_server mc w)) then [CreatedMachineConfig mc] else [])"
    unfolding api_server_simps api_defs by (rule api_call_writes) (simp add: Let_def)
  show "cs_Writes (snd (cl_UpdateStatus api_server ns w)) =
      cs_Writes w @ (if is_ok (fst (cl_UpdateStatus api_server ns w)) then [UpdatedStatus (key_of ns) (ns_Status ns)] else [])"
    unfolding api_server_simps api_defs by (rule api_call_writes) (simp add: Let_def split: option.split prod.split)
  show "no_panic (fst (cl_GetNodeSwap api_server key w))" "no_panic (fst (cl_GetMachineConfig api_server name w))"
    "no_panic (fst (cl_ListMachineConfigPools api_server w))" "no_panic (fst (cl_CreateMachineConfig api_server mc w))"
    "no_panic (fst (cl_UpdateStatus api_server ns w))"
    unfolding api_server_simps api_defs
    by (rule api_call_no_panic, simp add: Let_def split: option.split prod.split)+
qed

end
