(* ===== verification/Conditions.thy ===== *)
theory Conditions
  imports ApiTypes
begin

text \<open>
  The condition list of a status: \<open>FindStatusCondition\<close> and \<open>SetStatusCondition\<close> of
  \<open>src/vendor/k8s.io/apimachinery/pkg/api/meta/conditions.go\<close>, which the reconciler uses to report.
  The locale \<open>condition_store\<close> is what a client may use of them: a condition that was set is found
  again, and the conditions of other types are as before.
\<close>

section \<open>The interface\<close>

text \<open>What a condition says, without its time and generation.\<close>

definition said :: "condition option \<Rightarrow> (string \<times> string \<times> string) option" where
  "said c = map_option (\<lambda>c. (c_Status c, c_Reason c, c_Message c)) c"

lemma said_simps [simp]:
  "said None = None" "said (Some c) = Some (c_Status c, c_Reason c, c_Message c)"
  "said d = None \<longleftrightarrow> d = None"
  by (auto simp: said_def)

locale condition_store =
  fixes put :: "int \<Rightarrow> condition list \<Rightarrow> condition \<Rightarrow> condition list"
    and get :: "condition list \<Rightarrow> string \<Rightarrow> condition option"
  assumes get_put: "said (get (put now cs c) t) =
      (if t = c_Type c then Some (c_Status c, c_Reason c, c_Message c) else said (get cs t))"
begin

text \<open>After several calls the last one of a type decides.\<close>

lemma get_put_fold:
  "said (get (fold (\<lambda>(now, c) cs. put now cs c) ups cs) t) =
     (case List.find (\<lambda>c. c_Type c = t) (rev (List.map snd ups)) of
        Some c \<Rightarrow> Some (c_Status c, c_Reason c, c_Message c)
      | None \<Rightarrow> said (get cs t))"
proof (induction ups arbitrary: cs)
  case (Cons up ups)
  obtain now c where up: "up = (now, c)" by fastforce
  have snoc: "List.find P (xs @ [x]) =
      (case List.find P xs of None \<Rightarrow> if P x then Some x else None | Some y \<Rightarrow> Some y)" for P x and xs :: "condition list"
    by (induction xs) auto
  show ?case by (simp add: up Cons.IH snoc get_put split: option.split)
qed simp

lemma get_put_three:
  assumes "c_Type a \<noteq> c_Type b" and "c_Type a \<noteq> c_Type c" and "c_Type b \<noteq> c_Type c"
  shows "said (get (put n3 (put n2 (put n1 cs a) b) c) (c_Type a)) = Some (c_Status a, c_Reason a, c_Message a)"
    and "said (get (put n3 (put n2 (put n1 cs a) b) c) (c_Type b)) = Some (c_Status b, c_Reason b, c_Message b)"
    and "said (get (put n3 (put n2 (put n1 cs a) b) c) (c_Type c)) = Some (c_Status c, c_Reason c, c_Message c)"
  using assms by (simp_all add: get_put)

end

section \<open>The functions\<close>

fun FindStatusCondition :: "condition list \<Rightarrow> string \<Rightarrow> condition option" where
  "FindStatusCondition [] conditionType = None"
| "FindStatusCondition (c # cs) conditionType =
     (if c_Type c = conditionType then Some c else FindStatusCondition cs conditionType)"

text \<open>Writing through the pointer that \<open>FindStatusCondition\<close> returns changes the first match in place.\<close>

fun modifyFirst :: "string \<Rightarrow> (condition \<Rightarrow> condition) \<Rightarrow> condition list \<Rightarrow> condition list" where
  "modifyFirst t f [] = []"
| "modifyFirst t f (c # cs) = (if c_Type c = t then f c # cs else c # modifyFirst t f cs)"

text \<open>The assignments to an existing condition, with the flag \<open>changed\<close>.\<close>

definition updateCondition :: "int \<Rightarrow> condition \<Rightarrow> condition \<Rightarrow> condition \<times> bool" where
  "updateCondition now newCondition existing =
     (let (c, changed) =
        (if c_Status existing \<noteq> c_Status newCondition then
           (existing\<lparr>c_Status := c_Status newCondition,
              c_LastTransitionTime :=
                (if c_LastTransitionTime newCondition \<noteq> None then c_LastTransitionTime newCondition
                 else Some now)\<rparr>, True)
         else (existing, False));
       (c, changed) =
        (if c_Reason c \<noteq> c_Reason newCondition then (c\<lparr>c_Reason := c_Reason newCondition\<rparr>, True) else (c, changed));
       (c, changed) =
        (if c_Message c \<noteq> c_Message newCondition then (c\<lparr>c_Message := c_Message newCondition\<rparr>, True)
         else (c, changed))
      in if c_ObservedGeneration c \<noteq> c_ObservedGeneration newCondition
         then (c\<lparr>c_ObservedGeneration := c_ObservedGeneration newCondition\<rparr>, True) else (c, changed))"

definition SetStatusCondition :: "int \<Rightarrow> condition list \<Rightarrow> condition \<Rightarrow> condition list \<times> bool" where
  "SetStatusCondition now conditions newCondition =
     (case FindStatusCondition conditions (c_Type newCondition) of
        None \<Rightarrow>
          (conditions @
             [if c_LastTransitionTime newCondition = None
              then newCondition\<lparr>c_LastTransitionTime := Some now\<rparr> else newCondition], True)
      | Some existing \<Rightarrow>
          (modifyFirst (c_Type newCondition) (\<lambda>c. fst (updateCondition now newCondition c)) conditions,
           snd (updateCondition now newCondition existing)))"

definition setCondition :: "int \<Rightarrow> condition list \<Rightarrow> condition \<Rightarrow> condition list" where
  "setCondition now cs c = fst (SetStatusCondition now cs c)"

section \<open>Lemmas\<close>

lemma updateCondition_fields [simp]:
  "c_Type (fst (updateCondition now new c)) = c_Type c"
  "c_Status (fst (updateCondition now new c)) = c_Status new"
  "c_Reason (fst (updateCondition now new c)) = c_Reason new"
  "c_Message (fst (updateCondition now new c)) = c_Message new"
  "c_ObservedGeneration (fst (updateCondition now new c)) = c_ObservedGeneration new"
  by (auto simp: updateCondition_def Let_def)

lemma updateCondition_time:
  "c_LastTransitionTime (fst (updateCondition now new c)) =
     (if c_Status c = c_Status new then c_LastTransitionTime c
      else case c_LastTransitionTime new of None \<Rightarrow> Some now | Some t \<Rightarrow> Some t)"
  by (auto simp: updateCondition_def Let_def split: option.split)

lemma updateCondition_unchanged: "\<not> snd (updateCondition now new c) \<Longrightarrow> fst (updateCondition now new c) = c"
  by (auto simp: updateCondition_def Let_def split: if_splits)

lemma find_modifyFirst:
  "(\<And>c. c_Type (f c) = c_Type c) \<Longrightarrow>
     FindStatusCondition (modifyFirst t f cs) u =
       (if u = t then map_option f (FindStatusCondition cs t) else FindStatusCondition cs u)"
  by (induction cs) auto

lemma find_append:
  "FindStatusCondition (cs @ ds) t =
     (case FindStatusCondition cs t of None \<Rightarrow> FindStatusCondition ds t | Some c \<Rightarrow> Some c)"
  by (induction cs) auto

lemma types_modifyFirst:
  "(\<And>c. c_Type (f c) = c_Type c) \<Longrightarrow> List.map c_Type (modifyFirst t f cs) = List.map c_Type cs"
  by (induction cs) auto

lemma find_None_iff_types: "FindStatusCondition cs t = None \<longleftrightarrow> t \<notin> c_Type ` set cs"
  by (induction cs) auto

lemma modifyFirst_id: "FindStatusCondition cs t = Some c \<Longrightarrow> f c = c \<Longrightarrow> modifyFirst t f cs = cs"
  by (induction cs) (auto split: if_splits)

lemma find_setCondition:
  "FindStatusCondition (setCondition now cs c) t =
     (if t \<noteq> c_Type c then FindStatusCondition cs t
      else case FindStatusCondition cs t of
        None \<Rightarrow> Some (if c_LastTransitionTime c = None then c\<lparr>c_LastTransitionTime := Some now\<rparr> else c)
      | Some old \<Rightarrow> Some (fst (updateCondition now c old)))"
  by (auto simp: setCondition_def SetStatusCondition_def find_modifyFirst find_append split: option.split)

interpretation conditions: condition_store setCondition FindStatusCondition
  by unfold_locales (auto simp: find_setCondition split: option.split)

text \<open>No type occurs twice.\<close>

definition conditions_wf :: "condition list \<Rightarrow> bool" where
  "conditions_wf cs \<longleftrightarrow> distinct (List.map c_Type cs)"

lemma types_setCondition:
  "List.map c_Type (setCondition now cs c) =
     (if c_Type c \<in> c_Type ` set cs then List.map c_Type cs else List.map c_Type cs @ [c_Type c])"
  by (auto simp: setCondition_def SetStatusCondition_def types_modifyFirst find_None_iff_types [symmetric]
      split: option.split)

lemma setCondition_wf: "conditions_wf cs \<Longrightarrow> conditions_wf (setCondition now cs c)"
  by (auto simp: conditions_wf_def types_setCondition)

lemma setCondition_not_Nil [simp]: "setCondition now cs c \<noteq> []"
  using types_setCondition [of now cs c] by (auto split: if_splits)

section \<open>Properties\<close>

text \<open>
  C25: after \<open>SetStatusCondition\<close> the condition of that type has the new status, reason and message,
  its transition time is kept when the status did not change and is otherwise the given one or, without
  one, the time of the call, every other type is as before, no type occurs twice if none did, and the
  result is \<open>False\<close> only if nothing changed.
\<close>

theorem SetStatusCondition_correct:
  assumes "conditions_wf cs"
  shows "conditions_wf (fst (SetStatusCondition now cs c))
    \<and> said (FindStatusCondition (fst (SetStatusCondition now cs c)) (c_Type c)) =
        Some (c_Status c, c_Reason c, c_Message c)
    \<and> (\<forall>t. t \<noteq> c_Type c \<longrightarrow>
        FindStatusCondition (fst (SetStatusCondition now cs c)) t = FindStatusCondition cs t)
    \<and> (\<forall>old new. FindStatusCondition cs (c_Type c) = Some old \<longrightarrow>
        FindStatusCondition (fst (SetStatusCondition now cs c)) (c_Type c) = Some new \<longrightarrow>
        c_LastTransitionTime new =
          (if c_Status old = c_Status c then c_LastTransitionTime old
           else case c_LastTransitionTime c of None \<Rightarrow> Some now | Some t \<Rightarrow> Some t))
    \<and> (\<not> snd (SetStatusCondition now cs c) \<longrightarrow> fst (SetStatusCondition now cs c) = cs)"
proof -
  have same: "\<not> snd (SetStatusCondition now cs c) \<longrightarrow> fst (SetStatusCondition now cs c) = cs"
    by (auto simp: SetStatusCondition_def modifyFirst_id updateCondition_unchanged split: option.splits)
  show ?thesis
    using setCondition_wf [OF assms, of now c] conditions.get_put [of now cs c "c_Type c"] same
    by (auto simp: find_setCondition updateCondition_time simp flip: setCondition_def)
qed

definition sample_condition :: "string \<Rightarrow> string \<Rightarrow> string \<Rightarrow> condition" where
  "sample_condition t status reason =
     \<lparr>c_Type = t, c_Status = status, c_ObservedGeneration = 0, c_LastTransitionTime = None,
      c_Reason = reason, c_Message = []\<rparr>"

theorem SetStatusCondition_correct_witness:
  "said (FindStatusCondition (fst (SetStatusCondition 5 [sample_condition ''Degraded'' ''True'' ''x'']
     (sample_condition ''Degraded'' ''False'' ''y''))) ''Degraded'') = Some (''False'', ''y'', [])"
proof -
  have "conditions_wf [sample_condition ''Degraded'' ''True'' ''x'']" by (simp add: conditions_wf_def)
  from SetStatusCondition_correct [OF this, of 5 "sample_condition ''Degraded'' ''False'' ''y''"]
  show ?thesis by (simp add: sample_condition_def)
qed

end
