(* ===== verification/FileSystem.thy ===== *)
theory FileSystem
  imports GoStrings
begin

text \<open>
  The file system as the operator sees it: a tree of files and directories without symbolic links,
  and a function that says which operations fail, so that every error path can be taken. On top of
  it \<open>ReadDir\<close> of \<open>src/internal/common/helpers.go\<close>, \<open>existsDir\<close> of
  \<open>src/internal/template/render.go\<close>, and the standard library's \<open>filepath.Walk\<close>. A path is the list of
  its components; \<open>filepath.Join\<close> with a plain name appends one.
\<close>

section \<open>Trees\<close>

type_synonym path = "string list"

text \<open>A directory is its listing in the order \<open>os.ReadDir\<close> returns it, by name.\<close>

datatype fs_node = FsFile string | FsDir "(string \<times> fs_node) list"

datatype fs_op = OpStat | OpLstat | OpReadDir | OpReadFile

record filesystem =
  fs_root :: fs_node
  fs_fault :: "fs_op \<Rightarrow> path \<Rightarrow> error option"

datatype lookup = Found fs_node | Missing | NotDirectory

fun fs_lookup :: "fs_node \<Rightarrow> path \<Rightarrow> lookup" where
  "fs_lookup n [] = Found n"
| "fs_lookup (FsFile c) (x # xs) = NotDirectory"
| "fs_lookup (FsDir es) (x # xs) = (case map_of es x of None \<Rightarrow> Missing | Some n \<Rightarrow> fs_lookup n xs)"

definition path_String :: "path \<Rightarrow> string" where
  "path_String p = join_with ''/'' p"

definition base_name :: "path \<Rightarrow> string" where
  "base_name p = last p"

fun is_dir :: "fs_node \<Rightarrow> bool" where
  "is_dir (FsFile c) = False"
| "is_dir (FsDir es) = True"

text \<open>What one system call on a path finds; \<open>NotExist\<close> is the error that \<open>os.IsNotExist\<close> recognises.\<close>

datatype access = Accessed fs_node | NotExist error | Failed error

definition fs_access :: "filesystem \<Rightarrow> fs_op \<Rightarrow> string \<Rightarrow> path \<Rightarrow> access" where
  "fs_access fs op verb p =
     (case fs_fault fs op p of
        Some e \<Rightarrow> Failed e
      | None \<Rightarrow>
          (case fs_lookup (fs_root fs) p of
             Found n \<Rightarrow> Accessed n
           | Missing \<Rightarrow> NotExist (ErrText (verb @ '' '' @ path_String p @ '': no such file or directory''))
           | NotDirectory \<Rightarrow> Failed (ErrText (verb @ '' '' @ path_String p @ '': not a directory''))))"

section \<open>Reading\<close>

definition os_ReadDir :: "filesystem \<Rightarrow> path \<Rightarrow> (string \<times> fs_node) list result" where
  "os_ReadDir fs p =
     (case fs_access fs OpReadDir ''open'' p of
        Failed e \<Rightarrow> Err e
      | NotExist e \<Rightarrow> Err e
      | Accessed (FsFile c) \<Rightarrow> Err (ErrText (''readdirent '' @ path_String p @ '': not a directory''))
      | Accessed (FsDir es) \<Rightarrow> Ok es)"

text \<open>\<open>common.ReadDir\<close>: the entries with their file info, which takes another call for each.\<close>

definition ReadDir :: "filesystem \<Rightarrow> path \<Rightarrow> (string \<times> fs_node) list result" where
  "ReadDir fs p =
     rbind (rwrap (''failed to read dir '' @ go_quote (path_String p) @ '': '') [] (os_ReadDir fs p))
       (rmap_list (\<lambda>(name, n).
          case fs_fault fs OpLstat (p @ [name]) of
            Some e \<Rightarrow> Err (ErrWrap (''failed to fetch fileInfo of '' @ go_quote name @ '' in ''
                        @ go_quote (path_String p) @ '': '') e [])
          | None \<Rightarrow> Ok (name, n)))"

definition existsDir :: "filesystem \<Rightarrow> path \<Rightarrow> bool result" where
  "existsDir fs p =
     (case fs_access fs OpStat ''stat'' p of
        NotExist e \<Rightarrow> Ok False
      | Failed e \<Rightarrow> Err (ErrWrap (''failed to open dir '' @ go_quote (path_String p) @ '': '') e [])
      | Accessed n \<Rightarrow>
          if \<not> is_dir n
          then Err (ErrText (''expected template directory, '' @ go_quote (path_String p) @ '' is not a directory''))
          else Ok True)"

definition os_ReadFile :: "filesystem \<Rightarrow> path \<Rightarrow> string result" where
  "os_ReadFile fs p =
     (case fs_access fs OpReadFile ''open'' p of
        Failed e \<Rightarrow> Err e
      | NotExist e \<Rightarrow> Err e
      | Accessed (FsFile c) \<Rightarrow> Ok c
      | Accessed (FsDir es) \<Rightarrow> Err (ErrText (''read '' @ path_String p @ '': is a directory'')))"

section \<open>Walking\<close>

text \<open>
  \<open>filepath.Walk\<close> with a callback that threads a state. The callback gets the path, the file info
  when there is one, and the error of the call that produced it; \<open>SkipDir\<close> and \<open>SkipAll\<close>, which no
  callback here returns, are left out.
\<close>

type_synonym 's walkFn = "path \<Rightarrow> fs_node option \<Rightarrow> error option \<Rightarrow> 's \<Rightarrow> 's result"

fun walk :: "filesystem \<Rightarrow> 's walkFn \<Rightarrow> path \<Rightarrow> fs_node \<Rightarrow> 's \<Rightarrow> 's result"
  and walkEntries :: "filesystem \<Rightarrow> 's walkFn \<Rightarrow> path \<Rightarrow> (string \<times> fs_node) list \<Rightarrow> 's \<Rightarrow> 's result" where
  "walk fs fn p (FsFile c) s = fn p (Some (FsFile c)) None s"
| "walk fs fn p (FsDir es) s =
     (case fs_fault fs OpReadDir p of
        Some e \<Rightarrow> fn p (Some (FsDir es)) (Some e) s
      | None \<Rightarrow> rbind (fn p (Some (FsDir es)) None s) (walkEntries fs fn p es))"
| "walkEntries fs fn p [] s = Ok s"
| "walkEntries fs fn p ((name, n) # es) s =
     rbind
       (case fs_fault fs OpLstat (p @ [name]) of
          Some e \<Rightarrow> fn (p @ [name]) None (Some e) s
        | None \<Rightarrow> walk fs fn (p @ [name]) n s)
       (walkEntries fs fn p es)"

definition filepath_Walk :: "filesystem \<Rightarrow> path \<Rightarrow> 's walkFn \<Rightarrow> 's \<Rightarrow> 's result" where
  "filepath_Walk fs root fn s =
     (case fs_access fs OpLstat ''lstat'' root of
        Failed e \<Rightarrow> fn root None (Some e) s
      | NotExist e \<Rightarrow> fn root None (Some e) s
      | Accessed n \<Rightarrow> walk fs fn root n s)"

section \<open>Lemmas\<close>

text \<open>The files under a node, in the order they are walked.\<close>

fun node_files :: "path \<Rightarrow> fs_node \<Rightarrow> (path \<times> string) list"
  and entry_files :: "path \<Rightarrow> (string \<times> fs_node) list \<Rightarrow> (path \<times> string) list" where
  "node_files p (FsFile c) = [(p, c)]"
| "node_files p (FsDir es) = entry_files p es"
| "entry_files p [] = []"
| "entry_files p ((name, n) # es) = node_files (p @ [name]) n @ entry_files p es"

definition no_faults :: "filesystem \<Rightarrow> bool" where
  "no_faults fs \<longleftrightarrow> (\<forall>op p. fs_fault fs op p = None)"

text \<open>
  A callback that does nothing on directories makes a walk without faults a loop over the files.
\<close>

lemma walk_files:
  assumes "no_faults fs" and "\<And>p es s. fn p (Some (FsDir es)) None s = Ok s"
  shows "walk fs fn p n s = rfold (\<lambda>s (p, c). fn p (Some (FsFile c)) None s) s (node_files p n)"
    and "walkEntries fs fn p es s = rfold (\<lambda>s (p, c). fn p (Some (FsFile c)) None s) s (entry_files p es)"
  using assms
proof (induction p n and p es arbitrary: s and s rule: node_files_entry_files.induct)
  case (4 p name n es)
  have "walkEntries fs fn p es = (\<lambda>s. rfold (\<lambda>s (p, c). fn p (Some (FsFile c)) None s) s (entry_files p es))"
    by (rule ext) (rule "4.IH"(2) [OF "4.prems"])
  then show ?case using "4.IH"(1) [OF "4.prems"] "4.prems"(1) by (simp add: no_faults_def rfold_append)
qed (simp_all add: no_faults_def)

lemma fs_access_no_faults:
  "no_faults fs \<Longrightarrow> fs_lookup (fs_root fs) p = Found n \<Longrightarrow> fs_access fs op verb p = Accessed n"
  by (simp add: fs_access_def no_faults_def)

lemma filepath_Walk_files:
  assumes "no_faults fs" and "fs_lookup (fs_root fs) root = Found n"
    and "\<And>p es s. fn p (Some (FsDir es)) None s = Ok s"
  shows "filepath_Walk fs root fn s = rfold (\<lambda>s (p, c). fn p (Some (FsFile c)) None s) s (node_files root n)"
  using walk_files(1) [where fn = fn, OF assms(1)] assms(3)
  by (simp add: filepath_Walk_def fs_access_no_faults [OF assms(1,2)])

text \<open>The paths that a walk names lead to the files it pairs them with.\<close>

lemma fs_lookup_append:
  "fs_lookup n p = Found m \<Longrightarrow> fs_lookup n (p @ q) = fs_lookup m q"
  by (induction n p rule: fs_lookup.induct) (auto split: option.splits)

fun distinct_names :: "fs_node \<Rightarrow> bool" where
  "distinct_names (FsFile c) \<longleftrightarrow> True"
| "distinct_names (FsDir es) \<longleftrightarrow> distinct (List.map fst es) \<and> (\<forall>(name, n)\<in>set es. distinct_names n)"

lemma node_files_lookup:
  "fs_lookup r p = Found n \<Longrightarrow> distinct_names n \<Longrightarrow> (q, c) \<in> set (node_files p n) \<Longrightarrow> fs_lookup r q = Found (FsFile c)"
  "fs_lookup r p = Found (FsDir (pre @ es)) \<Longrightarrow> distinct_names (FsDir (pre @ es)) \<Longrightarrow>
     (q, c) \<in> set (entry_files p es) \<Longrightarrow> fs_lookup r q = Found (FsFile c)"
proof (induction p n and p es arbitrary: and pre rule: node_files_entry_files.induct)
  case (2 p es)
  from "2.IH" [of "[]"] "2.prems" show ?case by simp
next
  case (4 p name n es)
  have found: "fs_lookup r (p @ [name]) = Found n"
  proof -
    have "map_of pre name = None" using "4.prems"(2) by (auto simp: map_of_eq_None_iff)
    then show ?thesis using "4.prems"(1) by (simp add: fs_lookup_append map_add_def)
  qed
  have "distinct_names n" using "4.prems"(2) by auto
  with 4 found show ?case by (auto simp: "4.IH"(2) [of "pre @ [(name, n)]"])
qed simp_all

text \<open>A walk that succeeds met no fault, when its callback passes every error on.\<close>

lemma walk_Ok_files:
  assumes "\<And>p i e s s'. fn p i (Some e) s \<noteq> Ok s'" and "\<And>p es s. fn p (Some (FsDir es)) None s = Ok s"
  shows "walk fs fn p n s = Ok s' \<Longrightarrow> rfold (\<lambda>s (p, c). fn p (Some (FsFile c)) None s) s (node_files p n) = Ok s'"
    and "walkEntries fs fn p es s = Ok s' \<Longrightarrow> rfold (\<lambda>s (p, c). fn p (Some (FsFile c)) None s) s (entry_files p es) = Ok s'"
proof (induction p n and p es arbitrary: s s' and s s' rule: node_files_entry_files.induct)
  case (2 p es)
  then show ?case using assms by (auto split: option.splits)
next
  case (4 p name n es)
  then obtain t where "walk fs fn (p @ [name]) n s = Ok t" "walkEntries fs fn p es t = Ok s'"
    using assms(1) by (auto simp: result_simps split: option.splits)
  then show ?case using "4.IH" by (simp add: rfold_append)
qed simp_all

lemma filepath_Walk_Ok_files:
  assumes "\<And>p i e s s'. fn p i (Some e) s \<noteq> Ok s'" and "\<And>p es s. fn p (Some (FsDir es)) None s = Ok s"
    and "filepath_Walk fs root fn s = Ok s'"
  obtains n where "fs_lookup (fs_root fs) root = Found n"
    and "rfold (\<lambda>s (p, c). fn p (Some (FsFile c)) None s) s (node_files root n) = Ok s'"
  using assms(3) walk_Ok_files(1) [where fn = fn, OF assms(1,2)] assms(1) that
  by (auto simp: filepath_Walk_def fs_access_def split: option.splits lookup.splits)

lemma fs_lookup_Missing: "fs_lookup n p = Missing \<Longrightarrow> fs_lookup n (p @ q) = Missing"
  by (induction n p rule: fs_lookup.induct) (auto split: option.splits)

lemma distinct_names_lookup:
  "distinct_names n \<Longrightarrow> fs_lookup n p = Found m \<Longrightarrow> distinct_names m"
proof (induction n p rule: fs_lookup.induct)
  case (3 es x xs)
  then obtain k where k: "map_of es x = Some k" "fs_lookup k xs = Found m" by (auto split: option.splits)
  then have "(x, k) \<in> set es" by (simp add: map_of_SomeD)
  with 3 k show ?case by auto
qed simp_all

text \<open>A callback that keeps an invariant gives a walk that keeps it, faults or not.\<close>

lemma walk_inv:
  assumes "\<And>p i e s s'. fn p i e s = Ok s' \<Longrightarrow> Q s \<Longrightarrow> Q s'"
  shows "walk fs fn p n s = Ok s' \<Longrightarrow> Q s \<Longrightarrow> Q s'"
    and "walkEntries fs fn p es s = Ok s' \<Longrightarrow> Q s \<Longrightarrow> Q s'"
proof (induction p n and p es arbitrary: s s' and s s' rule: node_files_entry_files.induct)
  case (1 p c)
  then show ?case using assms by simp
next
  case (2 p es)
  show ?case
  proof (cases "fs_fault fs OpReadDir p")
    case None
    with "2.prems" obtain t where "fn p (Some (FsDir es)) None s = Ok t" "walkEntries fs fn p es t = Ok s'"
      by (auto simp: result_simps)
    then show ?thesis using "2.IH" "2.prems"(2) assms by blast
  next
    case (Some e)
    then show ?thesis using "2.prems" assms by simp
  qed
next
  case (4 p name n es)
  show ?case
  proof (cases "fs_fault fs OpLstat (p @ [name])")
    case None
    with "4.prems" obtain t where "walk fs fn (p @ [name]) n s = Ok t" "walkEntries fs fn p es t = Ok s'"
      by (auto simp: result_simps)
    then show ?thesis using "4.IH" "4.prems"(2) by blast
  next
    case (Some e)
    with "4.prems" obtain t where "fn (p @ [name]) None (Some e) s = Ok t" "walkEntries fs fn p es t = Ok s'"
      by (auto simp: result_simps)
    then show ?thesis using "4.IH"(2) "4.prems"(2) assms by blast
  qed
qed simp

lemma filepath_Walk_inv:
  assumes "\<And>p i e s s'. fn p i e s = Ok s' \<Longrightarrow> Q s \<Longrightarrow> Q s'"
    and "filepath_Walk fs root fn s = Ok s'" and "Q s"
  shows "Q s'"
  using assms(2,3) walk_inv(1) [of fn Q, OF assms(1)] assms(1)
  by (auto simp: filepath_Walk_def split: access.splits)

lemma walk_no_panic:
  assumes "\<And>p i e s. i \<noteq> None \<or> e \<noteq> None \<Longrightarrow> no_panic (fn p i e s)"
  shows "no_panic (walk fs fn p n s)" and "no_panic (walkEntries fs fn p es s)"
  using assms
  by (induction p n and p es arbitrary: s and s rule: node_files_entry_files.induct)
    (auto intro!: rbind_no_panic split: option.split)

lemma filepath_Walk_no_panic:
  "(\<And>p i e s. i \<noteq> None \<or> e \<noteq> None \<Longrightarrow> no_panic (fn p i e s)) \<Longrightarrow> no_panic (filepath_Walk fs root fn s)"
  by (auto simp: filepath_Walk_def split: access.split intro!: walk_no_panic(1))

lemma existsDir_no_panic [simp]: "no_panic (existsDir fs p)"
  by (auto simp: existsDir_def split: access.split)

lemma os_ReadFile_no_panic [simp]: "no_panic (os_ReadFile fs p)"
  by (auto simp: os_ReadFile_def split: access.split fs_node.split)

lemma ReadDir_no_panic [simp]: "no_panic (ReadDir fs p)"
  unfolding ReadDir_def
  by (rule rbind_no_panic)
    (auto simp: os_ReadDir_def intro!: rmap_list_no_panic split: access.split fs_node.split option.split)

text \<open>Without faults \<open>ReadDir\<close> lists the directory.\<close>

lemma ReadDir_no_faults:
  assumes "no_faults fs" and "fs_lookup (fs_root fs) p = Found (FsDir es)"
  shows "ReadDir fs p = Ok es"
proof -
  have "rmap_list (\<lambda>(name, n). Ok (name, n)) es = Ok es" by (induction es) auto
  then show ?thesis
    using assms(1) by (simp add: ReadDir_def os_ReadDir_def fs_access_no_faults [OF assms] no_faults_def)
qed

end
