(* ===== verification/RenderConfig.thy ===== *)
theory RenderConfig
  imports ApiTypes
begin

text \<open>
  \<open>src/internal/renderconfig/config.go\<close>: the swap list of a \<open>NodeSwap\<close> turned into one render
  configuration per swap, and the size argument given to \<open>fallocate\<close>. The lemmas show when a size is
  accepted and that the argument decodes to the size in bytes, what \<open>Create\<close> produces for every
  swap, and which fields of a configuration never reach its caller.
\<close>

definition FileBasedSwapMCPrefix :: string where "FileBasedSwapMCPrefix = ''99-filebased-swap''"
definition DiskBasedSwapMCPrefix :: string where "DiskBasedSwapMCPrefix = ''99-diskbased-swap''"
definition ZramBasedSwapMCPrefix :: string where "ZramBasedSwapMCPrefix = ''99-zrambased-swap''"
definition SwapKubeletCgroupsMCPrefix :: string where
  "SwapKubeletCgroupsMCPrefix = ''99-swap-kubelet-cgroups''"

record renderConfig =
  rc_Name :: string
  rc_Index :: int
  rc_EnableFileBasedSwap :: bool
  rc_EnableDiskBasedSwap :: bool
  rc_EnableZramBasedSwap :: bool
  rc_SwapFileSize :: string
  rc_SwapFilePath :: string
  rc_SwapDevicePriotiry :: "64 word"

definition zeroRenderConfig :: renderConfig where
  "zeroRenderConfig =
     \<lparr>rc_Name = [], rc_Index = 0, rc_EnableFileBasedSwap = False, rc_EnableDiskBasedSwap = False,
      rc_EnableZramBasedSwap = False, rc_SwapFileSize = [], rc_SwapFilePath = [],
      rc_SwapDevicePriotiry = 0\<rparr>"

section \<open>The size argument\<close>

definition sizeUnits :: "(string \<times> int64) list" where
  "sizeUnits = [(''Gi'', 1024 * 1024 * 1024), (''Mi'', 1024 * 1024), (''Ki'', 1024)]"

fun tryUnits :: "int64 \<Rightarrow> (string \<times> int64) list \<Rightarrow> string result" where
  "tryUnits bytes [] =
     Err (ErrText (''swap size must be in Ki Mi or Gi formats, got '' @ format_int (sint bytes)))"
| "tryUnits bytes ((name, usize) # us) =
     (if go_mod bytes usize = 0 then Ok (format_int (sint (go_div bytes usize)) @ name)
      else tryUnits bytes us)"

definition MkswapSizeArg :: "quantity \<Rightarrow> string result" where
  "MkswapSizeArg q =
     (if quantity_Sign q \<le> 0
      then Err (ErrText (''swap size must be positive, got '' @ quantity_String q))
      else let bytes = quantity_Value q in
        if bytes \<le>s 0
        then Err (ErrText (''swap size must be positive in bytes, got '' @ format_int (sint bytes)))
        else tryUnits bytes sizeUnits)"

section \<open>Render configurations\<close>

definition generateName :: "int \<Rightarrow> swapSpec \<Rightarrow> string result" where
  "generateName i spec =
     (if sw_SwapType spec = FileBasedSwap then Ok (FileBasedSwapMCPrefix @ ''-'' @ format_int i)
      else if sw_SwapType spec = SwapOnDisk then Ok (DiskBasedSwapMCPrefix @ ''-'' @ format_int i)
      else if sw_SwapType spec = SwapOnZram then Ok (ZramBasedSwapMCPrefix @ ''-'' @ format_int i)
      else Err (ErrText (''unknown swap type: '' @ sw_SwapType spec)))"

fun generateFileBasedSwapConfig :: "swapFile option \<Rightarrow> renderConfig result" where
  "generateFileBasedSwapConfig None = Panic NilDeref"
| "generateFileBasedSwapConfig (Some swapConfig) =
     rbind (MkswapSizeArg (sf_Size swapConfig)) (\<lambda>size.
       Ok (zeroRenderConfig\<lparr>rc_SwapFileSize := size, rc_SwapFilePath := sf_Path swapConfig\<rparr>))"

definition generateDiskBasedSwapConfig :: "swapDisk option \<Rightarrow> renderConfig result" where
  "generateDiskBasedSwapConfig swapConfig = Ok zeroRenderConfig"

definition generateZramBasedSwapConfig :: "swapZram option \<Rightarrow> renderConfig result" where
  "generateZramBasedSwapConfig swapConfig = Ok zeroRenderConfig"

text \<open>
  As in the source, each branch first sets the enable flag of \<open>config\<close> and then assigns the whole
  struct from the generator.
\<close>

definition render :: "int \<Rightarrow> swapSpec \<Rightarrow> renderConfig result" where
  "render i swap =
     (let config = zeroRenderConfig\<lparr>rc_Index := i\<rparr> in
      rbind (generateName i swap) (\<lambda>name.
      rbind
        (if sw_SwapType swap = FileBasedSwap then
           (let config = config\<lparr>rc_EnableFileBasedSwap := True\<rparr>
            in generateFileBasedSwapConfig (sw_File swap))
         else if sw_SwapType swap = SwapOnDisk then
           (let config = config\<lparr>rc_EnableDiskBasedSwap := True\<rparr>
            in generateDiskBasedSwapConfig (sw_Disk swap))
         else if sw_SwapType swap = SwapOnZram then
           (let config = config\<lparr>rc_EnableZramBasedSwap := True\<rparr>
            in generateZramBasedSwapConfig (sw_Zram swap))
         else Err (ErrText (''unknown swap type: '' @ sw_SwapType swap)))
        (\<lambda>config. Ok (config\<lparr>rc_Name := name, rc_SwapDevicePriotiry := scast (sw_Priority swap)\<rparr>))))"

definition Create :: "nodeSwapSpec \<Rightarrow> renderConfig list result" where
  "Create spec =
     rmap_list (\<lambda>(idx, swap). render (int idx) swap) (List.enumerate 0 (sp_Swaps spec))"

section \<open>Lemmas on the size argument\<close>

text \<open>The reading of the argument by \<open>fallocate --length\<close>: a number and a binary suffix.\<close>

definition unit_bytes :: "string \<Rightarrow> nat option" where
  "unit_bytes u = map_of [(''Gi'', 1024 * 1024 * 1024), (''Mi'', 1024 * 1024), (''Ki'', 1024)] u"

definition parse_size :: "string \<Rightarrow> nat option" where
  "parse_size s =
     (let n = length s - 2 in
      case (parse_nat (take n s), unit_bytes (drop n s)) of
        (Some k, Some u) \<Rightarrow> Some (k * u)
      | _ \<Rightarrow> None)"

lemma go_mod_pos:
  assumes "0 < sint a" and "0 < sint b"
  shows "go_mod a b = 0 \<longleftrightarrow> sint b dvd sint a"
proof -
  have smod: "sint a smod sint b = sint a mod sint b"
    using assms by (simp add: signed_modulo_int_def)
  have "0 \<le> sint a mod sint b" and lt: "sint a mod sint b < sint b"
    using assms by auto
  then have "sint (go_mod a b) = sint a mod sint b"
    unfolding go_mod_def smod using sint_int64_range(2) [of b] by (intro sint_of_range) linarith+
  then show ?thesis by (metis dvd_eq_mod_eq_0 of_int_0 signed_0 word_of_sint)
qed

lemma go_div_pos:
  assumes "0 < sint a" and "0 < sint b"
  shows "sint (go_div a b) = sint a div sint b"
proof -
  have "sint a sdiv sint b = sint a div sint b"
    using assms by (simp add: signed_divide_int_def)
  moreover have "0 \<le> sint a div sint b" and "sint a div sint b \<le> sint a"
    using assms by (auto simp: pos_imp_zdiv_nonneg_iff intro: zdiv_mono2 [of "sint a" 1 "sint b", simplified])
  ultimately show ?thesis
    unfolding go_div_def using sint_int64_range(2) [of a] by (intro trans [OF sint_of_range]) auto
qed

lemma sizeUnits_eq: "sizeUnits = [(''Gi'', 1073741824), (''Mi'', 1048576), (''Ki'', 1024)]"
  by (simp add: sizeUnits_def)

lemma tryUnits_cases:
  assumes "0 < sint b"
  shows "tryUnits b sizeUnits =
     (if 1073741824 dvd sint b then Ok (fmt_nat (nat (sint b div 1073741824)) @ ''Gi'')
      else if 1048576 dvd sint b then Ok (fmt_nat (nat (sint b div 1048576)) @ ''Mi'')
      else if 1024 dvd sint b then Ok (fmt_nat (nat (sint b div 1024)) @ ''Ki'')
      else Err (ErrText (''swap size must be in Ki Mi or Gi formats, got '' @ format_int (sint b))))"
  using assms
  by (simp add: sizeUnits_eq go_mod_pos go_div_pos format_int_def pos_imp_zdiv_neg_iff)

lemma MkswapSizeArg_cases:
  "MkswapSizeArg q =
     (let b = sint (quantity_Value q) in
      if quantity_Sign q \<le> 0 then Err (ErrText (''swap size must be positive, got '' @ quantity_String q))
      else if b \<le> 0 then Err (ErrText (''swap size must be positive in bytes, got '' @ format_int b))
      else if 1073741824 dvd b then Ok (fmt_nat (nat (b div 1073741824)) @ ''Gi'')
      else if 1048576 dvd b then Ok (fmt_nat (nat (b div 1048576)) @ ''Mi'')
      else if 1024 dvd b then Ok (fmt_nat (nat (b div 1024)) @ ''Ki'')
      else Err (ErrText (''swap size must be in Ki Mi or Gi formats, got '' @ format_int b)))"
  by (auto simp: MkswapSizeArg_def Let_def word_sle_eq tryUnits_cases)

lemma parse_size_unit:
  "length u = 2 \<Longrightarrow> unit_bytes u = Some k \<Longrightarrow> parse_size (fmt_nat n @ u) = Some (n * k)"
  by (simp add: parse_size_def)

lemma nat_div_mult: "0 < b \<Longrightarrow> int k dvd b \<Longrightarrow> nat (b div int k) * k = nat b"
  by (metis dvd_div_mult_self nat_int nat_mult_distrib of_nat_0_le_iff mult.commute)

lemma MkswapSizeArg_Ok_iff:
  "is_ok (MkswapSizeArg q) \<longleftrightarrow>
     0 < quantity_Sign q \<and> 0 < sint (quantity_Value q) \<and> 1024 dvd sint (quantity_Value q)"
proof -
  have "1073741824 dvd b \<Longrightarrow> 1024 dvd b" "1048576 dvd b \<Longrightarrow> 1024 dvd b" for b :: int
    by (auto elim: dvd_trans [rotated])
  then show ?thesis by (auto simp: MkswapSizeArg_cases Let_def)
qed

lemma MkswapSizeArg_no_panic: "no_panic (MkswapSizeArg q)"
  by (simp add: MkswapSizeArg_cases Let_def)

lemma MkswapSizeArg_parse:
  assumes "MkswapSizeArg q = Ok s"
  shows "parse_size s = Some (nat (sint (quantity_Value q)))"
  using assms nat_div_mult [of "sint (quantity_Value q)" 1073741824]
    nat_div_mult [of "sint (quantity_Value q)" 1048576] nat_div_mult [of "sint (quantity_Value q)" 1024]
  by (auto simp: MkswapSizeArg_cases Let_def parse_size_unit unit_bytes_def split: if_splits)

section \<open>Lemmas on render configurations\<close>

definition swap_prefix :: "swapType \<Rightarrow> string option" where
  "swap_prefix t =
     map_of [(FileBasedSwap, FileBasedSwapMCPrefix), (SwapOnDisk, DiskBasedSwapMCPrefix),
             (SwapOnZram, ZramBasedSwapMCPrefix)] t"

lemma generateName_eq:
  "generateName i sw =
     (case swap_prefix (sw_SwapType sw) of
        Some p \<Rightarrow> Ok (p @ ''-'' @ format_int i)
      | None \<Rightarrow> Err (ErrText (''unknown swap type: '' @ sw_SwapType sw)))"
  by (simp add: generateName_def swap_prefix_def)


lemma render_eq:
  "render i sw =
     rbind (generateName i sw) (\<lambda>name. rbind
       (if sw_SwapType sw = FileBasedSwap then generateFileBasedSwapConfig (sw_File sw)
        else Ok zeroRenderConfig)
       (\<lambda>config. Ok (config\<lparr>rc_Name := name, rc_SwapDevicePriotiry := scast (sw_Priority sw)\<rparr>)))"
  by (auto simp: render_def generateName_def generateDiskBasedSwapConfig_def
      generateZramBasedSwapConfig_def Let_def)

text \<open>What a configuration that \<open>render\<close> returns holds.\<close>

lemma render_Ok:
  assumes "render i sw = Ok c"
  obtains p where "swap_prefix (sw_SwapType sw) = Some p" and "rc_Name c = p @ ''-'' @ format_int i"
    and "rc_Index c = 0" and "\<not> rc_EnableFileBasedSwap c" and "\<not> rc_EnableDiskBasedSwap c"
    and "\<not> rc_EnableZramBasedSwap c" and "rc_SwapDevicePriotiry c = scast (sw_Priority sw)"
proof -
  have gen: "generateFileBasedSwapConfig f = Ok d \<Longrightarrow>
      rc_Index d = 0 \<and> \<not> rc_EnableFileBasedSwap d \<and> \<not> rc_EnableDiskBasedSwap d \<and> \<not> rc_EnableZramBasedSwap d"
    for f d by (cases f) (auto simp: result_simps zeroRenderConfig_def)
  show ?thesis
    using assms gen [of "sw_File sw"] that
    by (auto simp: render_eq generateName_eq result_simps zeroRenderConfig_def
        split: option.splits if_splits)
qed

lemma render_is_ok_iff:
  "is_ok (render i sw) \<longleftrightarrow>
     (if sw_SwapType sw = FileBasedSwap
      then (\<exists>f. sw_File sw = Some f \<and> is_ok (MkswapSizeArg (sf_Size f)))
      else sw_SwapType sw \<in> {SwapOnDisk, SwapOnZram})"
proof (cases "sw_SwapType sw = FileBasedSwap")
  case True
  then show ?thesis
    by (cases "sw_File sw") (auto simp: render_eq generateName_def is_ok_iff result_simps)
next
  case False
  then show ?thesis by (auto simp: render_eq generateName_def is_ok_iff)
qed

lemma render_Panic_iff: "(\<exists>p. render i sw = Panic p) \<longleftrightarrow> sw_SwapType sw = FileBasedSwap \<and> sw_File sw = None"
proof (cases "sw_File sw")
  case None
  then show ?thesis by (auto simp: render_eq generateName_def)
next
  case (Some f)
  then show ?thesis
    by (cases "MkswapSizeArg (sf_Size f)")
      (use MkswapSizeArg_no_panic [of "sf_Size f"] in \<open>auto simp: render_eq generateName_def\<close>)
qed

lemma Create_Ok_nth:
  assumes "Create spec = Ok cs"
  shows "length cs = length (sp_Swaps spec)"
    and "i < length cs \<Longrightarrow> render (int i) (sp_Swaps spec ! i) = Ok (cs ! i)"
proof -
  show len: "length cs = length (sp_Swaps spec)"
    using assms by (simp add: Create_def rmap_list_Ok_length)
  assume "i < length cs"
  with len rmap_list_Ok_nth [OF assms [unfolded Create_def], of i]
  show "render (int i) (sp_Swaps spec ! i) = Ok (cs ! i)"
    by (simp add: nth_enumerate_eq)
qed

lemma Create_is_ok:
  "is_ok (Create spec) \<longleftrightarrow> (\<forall>i < length (sp_Swaps spec). is_ok (render (int i) (sp_Swaps spec ! i)))"
  by (auto simp: Create_def rmap_list_is_ok in_set_enumerate_eq all_set_conv_all_nth nth_enumerate_eq)

text \<open>Distinct positions give distinct names, whatever the swap types.\<close>

lemma format_int_no_dash: "0 \<le> i \<Longrightarrow> CHR ''-'' \<notin> set (format_int i)"
  by (auto simp: format_int_def dest: fmt_nat_digits)

lemma name_suffix_inj:
  assumes "p @ CHR ''-'' # s = q @ CHR ''-'' # t" and "CHR ''-'' \<notin> set s" and "CHR ''-'' \<notin> set t"
  shows "s = t"
proof -
  have "rev s @ CHR ''-'' # rev p = rev t @ CHR ''-'' # rev q"
    using arg_cong [OF assms(1), of rev] by simp
  then have "[rev s, rev p] = [rev t, rev q]"
    using assms(2,3) splitN2_sep [of "CHR ''-''" "rev s" "rev p"] splitN2_sep [of "CHR ''-''" "rev t" "rev q"]
    by (metis set_rev)
  then show ?thesis by simp
qed

lemma render_priority: "render i sw = Ok c \<Longrightarrow> rc_SwapDevicePriotiry c = scast (sw_Priority sw)"
  by (erule render_Ok) simp

lemma render_name: "render i sw = Ok c \<Longrightarrow> \<exists>p. rc_Name c = p @ CHR ''-'' # format_int i"
  by (erule render_Ok) simp

lemma render_names_differ:
  assumes "render (int i) sw = Ok c" and "render (int j) sw' = Ok d" and "rc_Name c = rc_Name d"
  shows "i = j"
proof -
  obtain p where p: "rc_Name c = p @ CHR ''-'' # format_int (int i)"
    using render_name [OF assms(1)] by blast
  obtain q where q: "rc_Name d = q @ CHR ''-'' # format_int (int j)"
    using render_name [OF assms(2)] by blast
  have "format_int (int i) = format_int (int j)"
    using assms(3) format_int_no_dash [of "int i"] format_int_no_dash [of "int j"]
    unfolding p q by (rule name_suffix_inj [of p _ q]) simp_all
  then show ?thesis by simp
qed

lemma Create_names_distinct:
  assumes "Create spec = Ok cs"
  shows "distinct (List.map rc_Name cs)"
proof (unfold distinct_conv_nth, intro allI impI)
  fix i j
  assume "i < length (List.map rc_Name cs)" and "j < length (List.map rc_Name cs)" and "i \<noteq> j"
  moreover from this Create_Ok_nth(2) [OF assms, of i] Create_Ok_nth(2) [OF assms, of j]
  have "rc_Name (cs ! i) \<noteq> rc_Name (cs ! j)"
    using render_names_differ [of i _ "cs ! i" j _ "cs ! j"] by auto
  ultimately show "List.map rc_Name cs ! i \<noteq> List.map rc_Name cs ! j" by simp
qed

section \<open>Properties\<close>

text \<open>
  The argument that \<open>MkswapSizeArg\<close> hands to \<open>fallocate\<close> decodes, as a number with a binary
  suffix, to exactly the size of the quantity in bytes (\<open>Value\<close>).
\<close>

theorem mkswap_roundtrip:
  assumes "MkswapSizeArg q = Ok s"
  shows "parse_size s = Some (nat (sint (quantity_Value q)))"
  by (rule MkswapSizeArg_parse [OF assms])

definition quantity_4Gi :: quantity where
  "quantity_4Gi = \<lparr>q_amount = Int64Amount 4294967296 0, q_string = ''4Gi''\<rparr>"

lemma quantity_4Gi_Value: "quantity_Value quantity_4Gi = 4294967296" "quantity_Sign quantity_4Gi = 1"
  by (simp_all add: quantity_4Gi_def quantity_Value_def quantity_Sign_def asScaledInt64_def
      positiveScaleInt64_def word_sless_alt)

lemma mkswap_4Gi: "MkswapSizeArg quantity_4Gi = Ok ''4Gi''"
  by (simp add: MkswapSizeArg_cases quantity_4Gi_Value fmt_nat_eval)

theorem mkswap_roundtrip_witness: "parse_size ''4Gi'' = Some 4294967296"
  using mkswap_roundtrip [OF mkswap_4Gi] by (simp add: quantity_4Gi_Value)

text \<open>
  C36: a size is accepted exactly when it is positive, also after the conversion to 64-bit bytes, and
  a multiple of 1024 bytes; there is no fall-back to raw bytes.
\<close>

theorem mkswap_accepts_iff:
  "is_ok (MkswapSizeArg q) \<longleftrightarrow>
     0 < quantity_Sign q \<and> 0 < sint (quantity_Value q) \<and> 1024 dvd sint (quantity_Value q)"
  by (rule MkswapSizeArg_Ok_iff)

text \<open>
  For an amount \<open>v * 10 ^ e\<close> that fits 64 bits, an accepted size is that amount in bytes: no
  rounding and no wrap-around on the way to \<open>fallocate\<close>.
\<close>

theorem mkswap_exact:
  assumes "q_amount q = Int64Amount v e" and "0 \<le> e" and "\<bar>sint v * 10 ^ nat e\<bar> < 2 ^ 63"
    and "MkswapSizeArg q = Ok s"
  shows "parse_size s = Some (nat (sint v * 10 ^ nat e))"
  using MkswapSizeArg_parse [OF assms(4)] quantity_Value_exact [OF assms(1-3)] by simp

theorem mkswap_exact_witness:
  "parse_size ''4Gi'' = Some (nat (sint (4294967296 :: int64) * 10 ^ nat 0))"
  by (rule mkswap_exact [OF _ _ _ mkswap_4Gi]) (simp_all add: quantity_4Gi_def)

text \<open>
  Beyond 64 bits the size wraps around unnoticed: the quantity 18446744074G, about 18 exabytes,
  is accepted and turned into the argument 283641Ki, about 277 megabytes.
\<close>

theorem mkswap_overflow_wraps:
  "MkswapSizeArg \<lparr>q_amount = Int64Amount 18446744074 9, q_string = ''18446744074G''\<rparr> = Ok ''283641Ki''
   \<and> parse_size ''283641Ki'' = Some 290448384 \<and> (290448384 :: int) \<noteq> 18446744074 * 10 ^ 9"
proof -
  let ?q = "\<lparr>q_amount = Int64Amount 18446744074 9, q_string = ''18446744074G''\<rparr> :: quantity"
  have v: "quantity_Value ?q = 290448384" and s: "quantity_Sign ?q = 1"
    by (simp_all add: quantity_Value_def quantity_Sign_def asScaledInt64_def positiveScaleInt64_def
        int64MultiplyScale_def mostNegative_def Let_def word_sless_alt)
  have ok: "MkswapSizeArg ?q = Ok ''283641Ki''"
    by (simp add: MkswapSizeArg_cases v s fmt_nat_eval)
  show ?thesis using ok MkswapSizeArg_parse [OF ok] v by simp
qed

text \<open>
  C6: whatever the index and the swap, a configuration that \<open>render\<close> returns has index 0 and all
  three enable flags off: the generators build a fresh struct, which overwrites the index and the
  flag set before the call. The name keeps the index, and the priority is the signed 32-bit priority
  extended to 64 bits.
\<close>

theorem render_drops_index_and_flags:
  assumes "render i sw = Ok c"
  shows "rc_Index c = 0 \<and> \<not> rc_EnableFileBasedSwap c \<and> \<not> rc_EnableDiskBasedSwap c
    \<and> \<not> rc_EnableZramBasedSwap c \<and> rc_SwapDevicePriotiry c = scast (sw_Priority sw)
    \<and> generateName i sw = Ok (rc_Name c)"
  using assms
  by (rule render_Ok) (use assms in \<open>auto simp: render_eq result_simps\<close>)

definition sample_swap :: swapSpec where
  "sample_swap = \<lparr>sw_Priority = 10, sw_SwapType = FileBasedSwap, sw_Disk = None,
     sw_File = Some \<lparr>sf_Path = ''/var/swap'', sf_Size = quantity_4Gi\<rparr>, sw_Zram = None\<rparr>"

lemma render_sample:
  "render 3 sample_swap =
     Ok \<lparr>rc_Name = ''99-filebased-swap-3'', rc_Index = 0, rc_EnableFileBasedSwap = False,
         rc_EnableDiskBasedSwap = False, rc_EnableZramBasedSwap = False, rc_SwapFileSize = ''4Gi'',
         rc_SwapFilePath = ''/var/swap'', rc_SwapDevicePriotiry = 10\<rparr>"
  by (simp add: render_eq generateName_def sample_swap_def mkswap_4Gi zeroRenderConfig_def
      FileBasedSwapMCPrefix_def format_int_def fmt_nat_eval)

theorem render_drops_index_and_flags_witness:
  "\<exists>c. render 3 sample_swap = Ok c \<and> rc_Index c = 0 \<and> \<not> rc_EnableFileBasedSwap c"
  using render_drops_index_and_flags [OF render_sample] render_sample by blast

text \<open>
  When \<open>Create\<close> succeeds it returns one configuration per swap, in order, each the result of
  \<open>render\<close> at its index, and their names are pairwise distinct.
\<close>

theorem Create_Ok_names:
  assumes "Create spec = Ok cs"
  shows "length cs = length (sp_Swaps spec)
    \<and> (\<forall>i < length cs. render (int i) (sp_Swaps spec ! i) = Ok (cs ! i))
    \<and> distinct (List.map rc_Name cs)"
  using Create_Ok_nth [OF assms] Create_names_distinct [OF assms] by blast

lemma Create_sample:
  "is_ok (Create \<lparr>sp_MachineConfigPoolSelector = [], sp_Swaps = [sample_swap, sample_swap], sp_LogLevel = None\<rparr>)"
  by (auto simp: Create_is_ok render_is_ok_iff sample_swap_def mkswap_4Gi less_Suc_eq)

theorem Create_Ok_names_witness:
  "\<exists>cs. Create \<lparr>sp_MachineConfigPoolSelector = [], sp_Swaps = [sample_swap, sample_swap], sp_LogLevel = None\<rparr> = Ok cs
     \<and> length cs = 2 \<and> distinct (List.map rc_Name cs)"
  using Create_sample Create_Ok_names [of "\<lparr>sp_MachineConfigPoolSelector = [], sp_Swaps = [sample_swap, sample_swap], sp_LogLevel = None\<rparr>"]
  by (auto simp: is_ok_iff)

text \<open>
  \<open>Create\<close> stops at the first swap that cannot be rendered: with the swaps before it accepted, its
  error is the error of the whole call.
\<close>

theorem Create_first_error:
  assumes "k < length (sp_Swaps spec)" and "\<forall>i < k. is_ok (render (int i) (sp_Swaps spec ! i))"
    and "render (int k) (sp_Swaps spec ! k) = Err e"
  shows "Create spec = Err e"
proof -
  let ?f = "\<lambda>(idx, swap). render (int idx) swap" and ?xs = "List.enumerate 0 (sp_Swaps spec)"
  have "?xs = take k ?xs @ ?xs ! k # drop (Suc k) ?xs"
    using assms(1) by (intro id_take_nth_drop) simp
  moreover have "\<forall>x\<in>set (take k ?xs). is_ok (?f x)"
    using assms(1,2) by (auto simp: set_conv_nth nth_enumerate_eq)
  moreover have "?f (?xs ! k) = Err e" using assms(1,3) by (simp add: nth_enumerate_eq)
  ultimately show ?thesis unfolding Create_def by (metis rmap_list_first_error)
qed

definition unknown_swap :: swapSpec where
  "unknown_swap = sample_swap\<lparr>sw_SwapType := ''unknown-type''\<rparr>"

lemma render_unknown: "render i unknown_swap = Err (ErrText ''unknown swap type: unknown-type'')"
  by (simp add: render_eq generateName_def unknown_swap_def swapType_defs)

theorem Create_first_error_witness:
  "Create \<lparr>sp_MachineConfigPoolSelector = [], sp_Swaps = [sample_swap, unknown_swap], sp_LogLevel = None\<rparr> =
     Err (ErrText ''unknown swap type: unknown-type'')"
proof (rule Create_first_error [where k = 1])
  show "\<forall>i < 1. is_ok (render (int i) (sp_Swaps
      \<lparr>sp_MachineConfigPoolSelector = [], sp_Swaps = [sample_swap, unknown_swap], sp_LogLevel = None\<rparr> ! i))"
    by (simp add: render_is_ok_iff sample_swap_def mkswap_4Gi)
qed (simp_all add: render_unknown)

text \<open>
  \<open>render\<close> panics (a nil dereference) exactly on a file-based swap without its \<open>file\<close> section, which
  the custom resource definition allows.
\<close>

theorem render_panics_iff:
  "render i sw = Panic NilDeref \<longleftrightarrow> sw_SwapType sw = FileBasedSwap \<and> sw_File sw = None"
proof -
  have "render i sw = Panic p \<Longrightarrow> p = NilDeref" for p
  proof (cases "sw_File sw")
    case (Some f)
    then show "render i sw = Panic p \<Longrightarrow> p = NilDeref"
      using MkswapSizeArg_no_panic [of "sf_Size f"]
      by (cases "MkswapSizeArg (sf_Size f)") (auto simp: render_eq generateName_def split: if_splits)
  qed (auto simp: render_eq generateName_def split: if_splits)
  then show ?thesis using render_Panic_iff [of i sw] by blast
qed

text \<open>
  The device priority handed to the templates is the priority of the resource when that is not
  negative; a negative priority wraps around to a number close to \<open>2 ^ 64\<close>.
\<close>

theorem priority_wraps:
  assumes "render i sw = Ok c"
  shows "uint (rc_SwapDevicePriotiry c) =
    (if 0 \<le> sint (sw_Priority sw) then sint (sw_Priority sw) else 2 ^ 64 + sint (sw_Priority sw))"
proof -
  let ?p = "sint (sw_Priority sw)"
  have range: "- (2 ^ 31) \<le> ?p" "?p < 2 ^ 31"
    using sint_ge [of "sw_Priority sw"] sint_lt [of "sw_Priority sw"] by simp_all
  have "rc_SwapDevicePriotiry c = word_of_int ?p"
    by (simp only: render_priority [OF assms] scast_eq)
  then have u: "uint (rc_SwapDevicePriotiry c) = ?p mod 2 ^ 64"
    by (simp only: uint_word_of_int) simp
  show ?thesis
  proof (cases "0 \<le> ?p")
    case True
    then show ?thesis using u range by (simp add: mod_pos_pos_trivial)
  next
    case False
    then have "?p mod 2 ^ 64 = (?p + 2 ^ 64) mod 2 ^ 64" by simp
    also have "\<dots> = ?p + 2 ^ 64" using False range by (intro mod_pos_pos_trivial) auto
    finally show ?thesis using u False by simp
  qed
qed

theorem priority_wraps_witness:
  "\<exists>c. render 0 (sample_swap\<lparr>sw_Priority := - 1\<rparr>) = Ok c \<and> uint (rc_SwapDevicePriotiry c) = 2 ^ 64 - 1"
proof -
  have "is_ok (render 0 (sample_swap\<lparr>sw_Priority := - 1\<rparr>))"
    by (simp add: render_is_ok_iff sample_swap_def mkswap_4Gi)
  then obtain c where c: "render 0 (sample_swap\<lparr>sw_Priority := - 1\<rparr>) = Ok c" by (auto simp: is_ok_iff)
  from priority_wraps [OF this] have "uint (rc_SwapDevicePriotiry c) = 2 ^ 64 - 1" by simp
  with c show ?thesis by blast
qed

end
