(* ===== verification/TemplateRender.thy ===== *)
theory TemplateRender
  imports FileSystem RenderConfig Transpile
begin

text \<open>
  \<open>src/internal/template/render.go\<close>: the template tree
  \<open><dir>/<role>/<name>/_base/{files,units,extensions}\<close> walked, rendered with a render configuration and
  turned into a machine config. The template engine (\<open>text/template\<close>) is a parameter. The maps of the
  source from file names to rendered text are association lists; Go ranges over them in any order.
\<close>

section \<open>Parameters\<close>

record 't engine =
  te_Parse :: "tmplFuncs \<Rightarrow> string \<Rightarrow> string \<Rightarrow> 't result"
  te_Execute :: "'t \<Rightarrow> renderConfig \<Rightarrow> string result"

record ('b, 't) renderer =
  re_fs :: filesystem
  re_engine :: "'t engine"
  re_toolchain :: "'b toolchain"
  re_converter :: "'b ign3 ign_any ignitionConverter"

definition filesDir :: string where "filesDir = ''files''"
definition unitsDir :: string where "unitsDir = ''units''"
definition extensionsDir :: string where "extensionsDir = ''extensions''"
definition platformBase :: string where "platformBase = ''_base''"
definition masterRole :: string where "masterRole = ''master''"
definition workerRole :: string where "workerRole = ''worker''"
definition arbiterRole :: string where "arbiterRole = ''arbiter''"

section \<open>Rendering\<close>

definition renderTemplate :: "'t engine \<Rightarrow> renderConfig \<Rightarrow> path \<Rightarrow> string \<Rightarrow> string result" where
  "renderTemplate eng config path b =
     rbind (rwrap (''failed to parse template '' @ path_String path @ '': '') []
              (te_Parse eng GetTemplateFuncMap (path_String path) b)) (\<lambda>tmpl.
     rwrap ''failed to execute template: '' [] (te_Execute eng tmpl config))"

type_synonym rendered = "(string \<times> string) list"

text \<open>The callback of \<open>filterTemplates\<close>.\<close>

definition walkTemplate :: "filesystem \<Rightarrow> 't engine \<Rightarrow> renderConfig \<Rightarrow> rendered walkFn" where
  "walkTemplate fs eng config path info err toFilter =
     (case err of
        Some e \<Rightarrow> Err e
      | None \<Rightarrow>
          (case info of
             None \<Rightarrow> Panic NilDeref
           | Some (FsDir es) \<Rightarrow> Ok toFilter
           | Some (FsFile contents) \<Rightarrow>
               if length contents = 0 then Ok (AList.delete (base_name path) toFilter)
               else
                 rbind (rwrap (''failed to read file '' @ go_quote (path_String path) @ '': '') [] (os_ReadFile fs path))
                   (\<lambda>filedata. rbind (renderTemplate eng config path filedata)
                   (\<lambda>renderedData.
                      if length (trim_space renderedData) > 0
                      then Ok (AList.update (base_name path) renderedData toFilter)
                      else Ok toFilter))))"

definition filterTemplates ::
  "filesystem \<Rightarrow> 't engine \<Rightarrow> rendered \<Rightarrow> path \<Rightarrow> renderConfig \<Rightarrow> rendered result" where
  "filterTemplates fs eng toFilter path config =
     filepath_Walk fs path (walkTemplate fs eng config) toFilter"

definition getPaths :: "string list" where
  "getPaths = (let platformBasedPaths = [platformBase] in platformBasedPaths)"

text \<open>\<open>keySortVals\<close>: the values in the order of their keys.\<close>

definition keySortVals :: "rendered \<Rightarrow> string list" where
  "keySortVals m = (let ks = sort (List.map fst m) in List.map (\<lambda>k. the (map_of m k)) ks)"

section \<open>Generating machine configs\<close>

text \<open>The two loops that collect the platform directories that exist.\<close>

definition addPlatformDir :: "filesystem \<Rightarrow> path list \<Rightarrow> path \<Rightarrow> path list result" where
  "addPlatformDir fs platformDirs p =
     rbind (existsDir fs p) (\<lambda>exists. Ok (if exists then platformDirs @ [p] else platformDirs))"

definition platformDirectories :: "filesystem \<Rightarrow> path \<Rightarrow> path \<Rightarrow> path list result" where
  "platformDirectories fs templateDir path =
     rbind (rfold (addPlatformDir fs) [] (List.map (\<lambda>dir. templateDir @ [''common'', dir]) getPaths))
       (\<lambda>platformDirs. rfold (addPlatformDir fs) platformDirs (List.map (\<lambda>dir. path @ [dir]) getPaths))"

text \<open>One of the three sections of the loop over them.\<close>

definition renderSection ::
  "filesystem \<Rightarrow> 't engine \<Rightarrow> renderConfig \<Rightarrow> path \<Rightarrow> rendered \<Rightarrow> rendered result" where
  "renderSection fs eng config p m =
     rbind (existsDir fs p) (\<lambda>exists. if exists then filterTemplates fs eng m p config else Ok m)"

record sections =
  se_files :: rendered
  se_units :: rendered
  se_extensions :: rendered

definition renderPlatform ::
  "filesystem \<Rightarrow> 't engine \<Rightarrow> renderConfig \<Rightarrow> sections \<Rightarrow> path \<Rightarrow> sections result" where
  "renderPlatform fs eng config s platformDir =
     rbind (renderSection fs eng config (platformDir @ [filesDir]) (se_files s)) (\<lambda>files.
     rbind (renderSection fs eng config (platformDir @ [unitsDir]) (se_units s)) (\<lambda>units.
     rbind (renderSection fs eng config (platformDir @ [extensionsDir]) (se_extensions s)) (\<lambda>extensions.
       Ok \<lparr>se_files = files, se_units = units, se_extensions = extensions\<rparr>)))"

definition no_sections :: sections where
  "no_sections = \<lparr>se_files = [], se_units = [], se_extensions = []\<rparr>"

definition renderSections ::
  "filesystem \<Rightarrow> 't engine \<Rightarrow> renderConfig \<Rightarrow> path \<Rightarrow> path \<Rightarrow> sections result" where
  "renderSections fs eng config templateDir path =
     rbind (platformDirectories fs templateDir path)
       (\<lambda>platformDirs. rfold (renderPlatform fs eng config) no_sections platformDirs)"

definition GenerateMachineConfigForName ::
  "('b, 't) renderer \<Rightarrow> renderConfig \<Rightarrow> string \<Rightarrow> string \<Rightarrow> path \<Rightarrow> path \<Rightarrow> machineConfig result" where
  "GenerateMachineConfigForName re config role name templateDir path =
     rbind (renderSections (re_fs re) (re_engine re) config templateDir path) (\<lambda>s.
     rbind (rwrap ''error transpiling CoreOS config to Ignition config: '' []
              (TranspileCoreOSConfigToIgn (re_toolchain re) (re_converter re)
                 (keySortVals (se_files s)) (keySortVals (se_units s)))) (\<lambda>ignCfg.
     rbind (rwrap ''error creating MachineConfig from Ignition config: '' []
              (MachineConfigFromIgnConfig (re_toolchain re) role name ignCfg)) (\<lambda>mcfg.
       Ok (mcfg\<lparr>mc_Extensions := mc_Extensions mcfg @ sort (List.map fst (se_extensions s))\<rparr>))))"

text \<open>The loops over the directories of a role and of the template tree; other entries are skipped.\<close>

definition addConfigForName ::
  "('b, 't) renderer \<Rightarrow> renderConfig \<Rightarrow> string \<Rightarrow> path \<Rightarrow> path \<Rightarrow> machineConfig list \<Rightarrow> string \<times> fs_node
     \<Rightarrow> machineConfig list result" where
  "addConfigForName re config role templateDir path cfgs info =
     (if \<not> is_dir (snd info) then Ok cfgs
      else rbind (GenerateMachineConfigForName re config role (fst info) templateDir (path @ [fst info]))
        (\<lambda>nameConfig. Ok (cfgs @ [nameConfig])))"

definition GenerateMachineConfigsForRole ::
  "('b, 't) renderer \<Rightarrow> renderConfig \<Rightarrow> string \<Rightarrow> path \<Rightarrow> machineConfig list result" where
  "GenerateMachineConfigsForRole re config role templateDir =
     (let rolePath = (if role \<noteq> workerRole \<and> role \<noteq> masterRole \<and> role \<noteq> arbiterRole then workerRole else role);
          path = templateDir @ [rolePath] in
      rbind (ReadDir (re_fs re) path) (\<lambda>infos.
        rfold (addConfigForName re config role templateDir path) [] infos))"

definition addConfigsForRole ::
  "('b, 't) renderer \<Rightarrow> renderConfig \<Rightarrow> path \<Rightarrow> machineConfig list \<Rightarrow> string \<times> fs_node
     \<Rightarrow> machineConfig list result" where
  "addConfigsForRole re config templateDir cfgs info =
     (if \<not> is_dir (snd info) then Ok cfgs
      else rbind (rwrap (''failed to create MachineConfig for role '' @ fst info @ '': '') []
             (GenerateMachineConfigsForRole re config (fst info) templateDir))
        (\<lambda>roleConfigs. Ok (cfgs @ roleConfigs)))"

definition generateTemplateMachineConfigs ::
  "('b, 't) renderer \<Rightarrow> renderConfig \<Rightarrow> path \<Rightarrow> machineConfig list result" where
  "generateTemplateMachineConfigs re config templateDir =
     rbind (ReadDir (re_fs re) templateDir) (\<lambda>infos. rfold (addConfigsForRole re config templateDir) [] infos)"

section \<open>Lemmas on the rendered maps\<close>

definition rendered_ok :: "rendered \<Rightarrow> bool" where
  "rendered_ok m \<longleftrightarrow> distinct (List.map fst m) \<and> (\<forall>v\<in>snd ` set m. trim_space v \<noteq> [])"

lemma rendered_ok_Nil [simp]: "rendered_ok []"
  by (simp add: rendered_ok_def)

lemma rendered_ok_delete: "rendered_ok m \<Longrightarrow> rendered_ok (AList.delete k m)"
  using distinct_delete [of m k] by (auto simp: rendered_ok_def AList.delete_eq)

lemma set_update_values: "snd ` set (AList.update k v m) \<subseteq> insert v (snd ` set m)"
  by (induction m) auto

lemma rendered_ok_update: "rendered_ok m \<Longrightarrow> trim_space v \<noteq> [] \<Longrightarrow> rendered_ok (AList.update k v m)"
  using set_update_values [of k v m] distinct_update [of m k v] unfolding rendered_ok_def by fast

lemma walkTemplate_inv:
  "walkTemplate fs eng config p i e m = Ok m' \<Longrightarrow> rendered_ok m \<Longrightarrow> rendered_ok m'"
  by (auto simp: walkTemplate_def result_simps rendered_ok_delete rendered_ok_update
      split: option.splits fs_node.splits if_splits)

lemma filterTemplates_inv:
  "filterTemplates fs eng m p config = Ok m' \<Longrightarrow> rendered_ok m \<Longrightarrow> rendered_ok m'"
  unfolding filterTemplates_def by (rule filepath_Walk_inv [where Q = rendered_ok]) (rule walkTemplate_inv)

lemma renderSection_inv:
  "renderSection fs eng config p m = Ok m' \<Longrightarrow> rendered_ok m \<Longrightarrow> rendered_ok m'"
  by (auto simp: renderSection_def result_simps split: if_splits dest: filterTemplates_inv)

definition sections_ok :: "sections \<Rightarrow> bool" where
  "sections_ok s \<longleftrightarrow> rendered_ok (se_files s) \<and> rendered_ok (se_units s) \<and> rendered_ok (se_extensions s)"

lemma renderPlatform_inv:
  "renderPlatform fs eng config s p = Ok s' \<Longrightarrow> sections_ok s \<Longrightarrow> sections_ok s'"
  by (auto simp: renderPlatform_def sections_ok_def result_simps dest: renderSection_inv)

lemma renderSections_inv:
  assumes "renderSections fs eng config templateDir path = Ok s"
  shows "sections_ok s"
proof -
  obtain ds where "rfold (renderPlatform fs eng config) no_sections ds = Ok s"
    using assms by (auto simp: renderSections_def result_simps)
  then show ?thesis
    by (rule rfold_inv) (auto simp: no_sections_def sections_ok_def [of "\<lparr>se_files = [], se_units = [], se_extensions = []\<rparr>"]
        intro: renderPlatform_inv)
qed

text \<open>\<open>keySortVals\<close> depends on the map only, not on the order it is ranged over.\<close>

lemma keySortVals_map_of:
  assumes "distinct (List.map fst m)" and "distinct (List.map fst m')" and "map_of m = map_of m'"
  shows "keySortVals m = keySortVals m'"
proof -
  have "set (List.map fst m) = set (List.map fst m')"
    using assms(3) by (metis dom_map_of_conv_image_fst list.set_map)
  then have "sort (List.map fst m) = sort (List.map fst m')"
    by (metis assms(1,2) sorted_list_of_set_sort_remdups distinct_remdups_id)
  then show ?thesis using assms(3) by (simp add: keySortVals_def)
qed

lemma keySortVals_values:
  assumes "distinct (List.map fst m)"
  shows "set (keySortVals m) = snd ` set m" and "length (keySortVals m) = length m"
proof -
  have "the (map_of m k) = v" if "(k, v) \<in> set m" for k v
    using that assms by simp
  then show "set (keySortVals m) = snd ` set m"
    unfolding keySortVals_def Let_def by (force simp: image_iff)
  show "length (keySortVals m) = length m" by (simp add: keySortVals_def)
qed

section \<open>Lemmas on walking the templates\<close>

text \<open>One file of the tree, in a file system without faults.\<close>

definition templateStep :: "'t engine \<Rightarrow> renderConfig \<Rightarrow> rendered \<Rightarrow> path \<times> string \<Rightarrow> rendered result" where
  "templateStep eng config m f =
     (case f of (p, contents) \<Rightarrow>
        if contents = [] then Ok (AList.delete (base_name p) m)
        else rbind (renderTemplate eng config p contents) (\<lambda>out.
          Ok (if trim_space out = [] then m else AList.update (base_name p) out m)))"

lemma rfold_cong_set:
  "(\<And>s x. x \<in> set xs \<Longrightarrow> f s x = g s x) \<Longrightarrow> rfold f s xs = rfold g s xs"
  by (induction xs arbitrary: s) (auto intro!: arg_cong [where f = "rbind _"])

lemma filterTemplates_files:
  assumes "no_faults fs" and "distinct_names n" and found: "fs_lookup (fs_root fs) p = Found n"
  shows "filterTemplates fs eng m p config = rfold (templateStep eng config) m (node_files p n)"
proof -
  have "filterTemplates fs eng m p config =
      rfold (\<lambda>s (q, c). walkTemplate fs eng config q (Some (FsFile c)) None s) m (node_files p n)"
    unfolding filterTemplates_def
    by (rule filepath_Walk_files [OF assms(1) found]) (simp add: walkTemplate_def)
  also have "\<dots> = rfold (templateStep eng config) m (node_files p n)"
  proof (rule rfold_cong_set)
    fix s and f :: "path \<times> string"
    assume f: "f \<in> set (node_files p n)"
    obtain q c where qc: "f = (q, c)" by fastforce
    from f have "fs_lookup (fs_root fs) q = Found (FsFile c)"
      unfolding qc by (rule node_files_lookup(1) [OF found assms(2)])
    then have "os_ReadFile fs q = Ok c"
      by (simp add: os_ReadFile_def fs_access_no_faults [OF assms(1)])
    then show "(case f of (q, c) \<Rightarrow> walkTemplate fs eng config q (Some (FsFile c)) None s) = templateStep eng config s f"
      by (cases "renderTemplate eng config q c") (simp_all add: qc walkTemplate_def templateStep_def)
  qed
  finally show ?thesis .
qed

text \<open>Whatever may fail: a walk that succeeds is that loop.\<close>

lemma rfold_Ok_cong:
  assumes "\<And>s x s'. x \<in> set xs \<Longrightarrow> f s x = Ok s' \<Longrightarrow> g s x = Ok s'" and "rfold f s xs = Ok t"
  shows "rfold g s xs = Ok t"
  using assms
proof (induction xs arbitrary: s)
  case (Cons x xs)
  then obtain s1 where s1: "f s x = Ok s1" "rfold f s1 xs = Ok t" by (auto simp: result_simps)
  moreover from this have "g s x = Ok s1" using Cons.prems(1) by simp
  moreover have "rfold g s1 xs = Ok t" using Cons.IH [OF _ s1(2)] Cons.prems(1) by simp
  ultimately show ?case by simp
qed simp

lemma filterTemplates_Ok_files:
  assumes "filterTemplates fs eng m p config = Ok m'" and "distinct_names (fs_root fs)"
  obtains n where "fs_lookup (fs_root fs) p = Found n" and "rfold (templateStep eng config) m (node_files p n) = Ok m'"
proof -
  let ?fn = "walkTemplate fs eng config"
  have "\<And>p i e s s'. ?fn p i (Some e) s \<noteq> Ok s'" "\<And>p es s. ?fn p (Some (FsDir es)) None s = Ok s"
    by (simp_all add: walkTemplate_def)
  then obtain n where n: "fs_lookup (fs_root fs) p = Found n"
    and run: "rfold (\<lambda>s (q, c). ?fn q (Some (FsFile c)) None s) m (node_files p n) = Ok m'"
    using assms(1) unfolding filterTemplates_def by (rule filepath_Walk_Ok_files)
  have names: "distinct_names n" using assms(2) n by (rule distinct_names_lookup)
  have "templateStep eng config s f = Ok s'"
    if f: "f \<in> set (node_files p n)" and ok: "(case f of (q, c) \<Rightarrow> ?fn q (Some (FsFile c)) None s) = Ok s'" for s f s'
  proof -
    obtain q c where qc: "f = (q, c)" by fastforce
    have "fs_lookup (fs_root fs) q = Found (FsFile c)"
      using f unfolding qc by (rule node_files_lookup(1) [OF n names])
    then have "os_ReadFile fs q = Ok c" if "os_ReadFile fs q = Ok c'" for c'
      using that by (auto simp: os_ReadFile_def fs_access_def split: option.splits)
    with ok show ?thesis
      by (auto simp: qc walkTemplate_def templateStep_def result_simps split: if_splits)
  qed
  from rfold_Ok_cong [OF this run] show thesis using that [OF n] by simp
qed

section \<open>Lemmas on machine configs\<close>

lemma GenerateMachineConfigForName_Ok:
  assumes "GenerateMachineConfigForName re config role name templateDir path = Ok mc"
  obtains s where "renderSections (re_fs re) (re_engine re) config templateDir path = Ok s"
    and "mc_Meta mc = new_meta name (Some [MachineConfigRoleLabelKey \<mapsto> role])"
    and "mc_OSImageURL mc = []" and "mc_Extensions mc = sort (List.map fst (se_extensions s))"
    and "\<exists>ign. TranspileCoreOSConfigToIgn (re_toolchain re) (re_converter re)
           (keySortVals (se_files s)) (keySortVals (se_units s)) = Ok ign
         \<and> tc_jsonMarshal (re_toolchain re) ign = Ok (mc_Config mc)"
  using assms that
  by (auto simp: GenerateMachineConfigForName_def MachineConfigFromIgnConfig_def
      MachineConfigFromRawIgnConfig_def result_simps)

text \<open>What the renderer is given does not panic by itself.\<close>

definition renderer_ok :: "('b, 't) renderer \<Rightarrow> bool" where
  "renderer_ok re \<longleftrightarrow>
     (\<exists>order tr. source_order order \<and> re_converter re = ignitionConverter order tr)
     \<and> (\<forall>name text. no_panic (te_Parse (re_engine re) GetTemplateFuncMap name text))
     \<and> (\<forall>t config. no_panic (te_Execute (re_engine re) t config))
     \<and> (\<forall>s. no_panic (tc_unmarshalFile (re_toolchain re) s))
     \<and> (\<forall>s. no_panic (tc_unmarshalUnit (re_toolchain re) s))
     \<and> (\<forall>c. no_panic (tc_jsonMarshal (re_toolchain re) c))"

lemma renderTemplate_no_panic:
  "renderer_ok re \<Longrightarrow> no_panic (renderTemplate (re_engine re) config p b)"
  by (auto simp: renderTemplate_def renderer_ok_def intro!: rbind_no_panic)

text \<open>The walk calls back with a file info or with an error.\<close>

lemma walkTemplate_no_panic:
  "renderer_ok re \<Longrightarrow> info \<noteq> None \<or> err \<noteq> None \<Longrightarrow>
     no_panic (walkTemplate fs (re_engine re) config p info err m)"
  by (auto simp: walkTemplate_def renderTemplate_no_panic intro!: rbind_no_panic split: option.split fs_node.split)

lemma filterTemplates_no_panic:
  "renderer_ok re \<Longrightarrow> no_panic (filterTemplates fs (re_engine re) m p config)"
  unfolding filterTemplates_def by (intro filepath_Walk_no_panic walkTemplate_no_panic)

lemma renderSections_no_panic:
  assumes "renderer_ok re"
  shows "no_panic (renderSections fs (re_engine re) config templateDir path)"
proof -
  have dirs: "no_panic (platformDirectories fs templateDir path)"
    unfolding platformDirectories_def addPlatformDir_def
    by (intro rbind_no_panic rfold_no_panic) auto
  have sec: "no_panic (renderSection fs (re_engine re) config p m)" for p m
    by (auto simp: renderSection_def filterTemplates_no_panic [OF assms] intro!: rbind_no_panic)
  show ?thesis
    unfolding renderSections_def renderPlatform_def
    by (intro rbind_no_panic rfold_no_panic dirs sec) auto
qed

lemma GenerateMachineConfigForName_no_panic:
  assumes "renderer_ok re"
  shows "no_panic (GenerateMachineConfigForName re config role name templateDir path)"
proof -
  obtain order tr where "source_order order" "re_converter re = ignitionConverter order tr"
    using assms by (auto simp: renderer_ok_def)
  then have "no_panic (TranspileCoreOSConfigToIgn (re_toolchain re) (re_converter re) files units)" for files units
    using assms transpile_no_panic by (metis renderer_ok_def)
  moreover have "no_panic (MachineConfigFromIgnConfig (re_toolchain re) role name ign)" for ign
    using assms by (auto simp: MachineConfigFromIgnConfig_def renderer_ok_def intro!: rbind_no_panic)
  ultimately show ?thesis
    unfolding GenerateMachineConfigForName_def
    by (auto intro!: rbind_no_panic renderSections_no_panic [OF assms])
qed

text \<open>One machine config per directory of the role.\<close>

lemma rfold_addConfigForName:
  assumes "rfold (addConfigForName re config role templateDir path) cfgs infos = Ok out"
  shows "\<exists>new. out = cfgs @ new \<and>
    list_all2 (\<lambda>(name, n) mc. GenerateMachineConfigForName re config role name templateDir (path @ [name]) = Ok mc)
      (filter (\<lambda>info. is_dir (snd info)) infos) new"
  using assms
proof (induction infos arbitrary: cfgs)
  case (Cons info infos)
  obtain name n where info: "info = (name, n)" by fastforce
  show ?case
  proof (cases "is_dir n")
    case True
    then obtain mc where mc: "GenerateMachineConfigForName re config role name templateDir (path @ [name]) = Ok mc"
      and rest: "rfold (addConfigForName re config role templateDir path) (cfgs @ [mc]) infos = Ok out"
      using Cons.prems by (auto simp: info addConfigForName_def [of re config role templateDir path cfgs "(name, n)"] result_simps)
    from Cons.IH [OF rest] obtain new where "out = (cfgs @ [mc]) @ new" and
      "list_all2 (\<lambda>(name, n) mc. GenerateMachineConfigForName re config role name templateDir (path @ [name]) = Ok mc)
        (filter (\<lambda>info. is_dir (snd info)) infos) new" by blast
    then show ?thesis using True mc by (intro exI [of _ "mc # new"]) (simp add: info)
  next
    case False
    then show ?thesis
      using Cons by (simp add: info addConfigForName_def [of re config role templateDir path cfgs "(name, n)"])
  qed
qed simp

end
