(* ===== verification/TemplateText.thy ===== *)
theory TemplateText
  imports TemplateRender
begin

text \<open>
  What the template tree says of a machine config, name by name and apart from the maps of the code:
  the text that the template files of a name end with, the names that have one, in their order, and
  their texts. When rendering succeeds, the three maps of \<open>renderSections\<close> hold exactly these texts.
\<close>

section \<open>The text of a name\<close>

text \<open>The files of one section, in the order of the walk: those of the common directory, then the template's own.\<close>

definition section_dirs :: "path \<Rightarrow> path \<Rightarrow> string \<Rightarrow> path list" where
  "section_dirs templateDir path sub =
     [templateDir @ [''common'', ''_base'', sub], path @ [''_base'', sub]]"

definition files_under :: "filesystem \<Rightarrow> path \<Rightarrow> (path \<times> string) list" where
  "files_under fs p = (case fs_lookup (fs_root fs) p of Found n \<Rightarrow> node_files p n | _ \<Rightarrow> [])"

definition section_files :: "filesystem \<Rightarrow> path \<Rightarrow> path \<Rightarrow> string \<Rightarrow> (path \<times> string) list" where
  "section_files fs templateDir path sub = concat (List.map (files_under fs) (section_dirs templateDir path sub))"

text \<open>
  The text that the template files of a name end with, the newest file first: an empty file removes what
  older ones gave, a file that renders to blank text does not count.
\<close>

fun newest_text :: "'t engine \<Rightarrow> renderConfig \<Rightarrow> string \<Rightarrow> (path \<times> string) list \<Rightarrow> string option" where
  "newest_text eng config name [] = None"
| "newest_text eng config name ((p, contents) # older) =
     (if base_name p \<noteq> name then newest_text eng config name older
      else if contents = [] then None
      else case renderTemplate eng config p contents of
        Ok out \<Rightarrow> if trim_space out = [] then newest_text eng config name older else Some out
      | _ \<Rightarrow> None)"

definition section_text ::
  "('b, 't) renderer \<Rightarrow> renderConfig \<Rightarrow> path \<Rightarrow> path \<Rightarrow> string \<Rightarrow> string \<Rightarrow> string option" where
  "section_text re config templateDir path sub name =
     newest_text (re_engine re) config name (rev (section_files (re_fs re) templateDir path sub))"

lemma templateStep_map_of:
  assumes "templateStep eng config m f = Ok m'" and "map_of m = (\<lambda>k. newest_text eng config k older)"
  shows "map_of m' = (\<lambda>k. newest_text eng config k (f # older))"
proof -
  obtain p c where f: "f = (p, c)" by fastforce
  show ?thesis
  proof (cases "c = []")
    case True
    then show ?thesis using assms by (auto simp: f templateStep_def delete_conv' fun_eq_iff)
  next
    case False
    then obtain out where out: "renderTemplate eng config p c = Ok out"
      and m': "m' = (if trim_space out = [] then m else AList.update (base_name p) out m)"
      using assms(1) by (auto simp: f templateStep_def result_simps)
    show ?thesis unfolding m' using False assms(2) by (simp add: f out update_conv' fun_eq_iff)
  qed
qed

lemma rfold_templateStep:
  assumes "rfold (templateStep eng config) m fs = Ok m'" and "map_of m = (\<lambda>k. newest_text eng config k older)"
  shows "map_of m' = (\<lambda>k. newest_text eng config k (rev fs @ older))"
  using assms
proof (induction fs arbitrary: m older)
  case (Cons f fs)
  then obtain m1 where m1: "templateStep eng config m f = Ok m1" "rfold (templateStep eng config) m1 fs = Ok m'"
    by (auto simp: result_simps)
  from Cons.IH [OF m1(2) templateStep_map_of [OF m1(1) Cons.prems(2)]] show ?case by simp
qed simp

lemma renderSection_text:
  assumes "renderSection fs eng config p m = Ok m'" and "distinct_names (fs_root fs)"
    and "map_of m = (\<lambda>k. newest_text eng config k older)"
  shows "map_of m' = (\<lambda>k. newest_text eng config k (rev (files_under fs p) @ older))"
proof (cases "existsDir fs p = Ok True")
  case True
  then have "filterTemplates fs eng m p config = Ok m'" using assms(1) by (simp add: renderSection_def)
  then obtain n where "fs_lookup (fs_root fs) p = Found n" "rfold (templateStep eng config) m (node_files p n) = Ok m'"
    using assms(2) by (rule filterTemplates_Ok_files)
  then show ?thesis using rfold_templateStep assms(3) by (simp add: files_under_def)
next
  case False
  then have "existsDir fs p = Ok False" "m' = m"
    using assms(1) by (auto simp: renderSection_def result_simps split: if_splits)
  then have "files_under fs p = []"
    by (auto simp: existsDir_def fs_access_def files_under_def split: option.splits lookup.splits if_splits)
  then show ?thesis using assms(3) \<open>m' = m\<close> by simp
qed

section \<open>The sections hold the texts\<close>

text \<open>What the three sections hold after the platform directories: the text of every name.\<close>

definition sections_hold :: "filesystem \<Rightarrow> 't engine \<Rightarrow> renderConfig \<Rightarrow> path list \<Rightarrow> sections \<Rightarrow> bool" where
  "sections_hold fs eng config dirs s \<longleftrightarrow>
     (let holds = (\<lambda>sub m. map_of m =
        (\<lambda>k. newest_text eng config k (rev (concat (List.map (\<lambda>d. files_under fs (d @ [sub])) dirs)))))
      in holds filesDir (se_files s) \<and> holds unitsDir (se_units s) \<and> holds extensionsDir (se_extensions s))"

lemma renderPlatform_hold:
  assumes "renderPlatform fs eng config s d = Ok s'" and "distinct_names (fs_root fs)" and "sections_hold fs eng config dirs s"
  shows "sections_hold fs eng config (dirs @ [d]) s'"
proof -
  let ?old = "\<lambda>sub. rev (concat (List.map (\<lambda>d. files_under fs (d @ [sub])) dirs))"
  obtain files units exts where r: "renderSection fs eng config (d @ [filesDir]) (se_files s) = Ok files"
    "renderSection fs eng config (d @ [unitsDir]) (se_units s) = Ok units"
    "renderSection fs eng config (d @ [extensionsDir]) (se_extensions s) = Ok exts"
    "s' = \<lparr>se_files = files, se_units = units, se_extensions = exts\<rparr>"
    using assms(1) by (auto simp: renderPlatform_def result_simps)
  note h = assms(3) [unfolded sections_hold_def Let_def]
  have "map_of files = (\<lambda>k. newest_text eng config k (rev (files_under fs (d @ [filesDir])) @ ?old filesDir))"
    using renderSection_text [OF r(1) assms(2)] h by blast
  moreover have "map_of units = (\<lambda>k. newest_text eng config k (rev (files_under fs (d @ [unitsDir])) @ ?old unitsDir))"
    using renderSection_text [OF r(2) assms(2)] h by blast
  moreover have "map_of exts = (\<lambda>k. newest_text eng config k (rev (files_under fs (d @ [extensionsDir])) @ ?old extensionsDir))"
    using renderSection_text [OF r(3) assms(2)] h by blast
  ultimately show ?thesis by (simp add: sections_hold_def r(4))
qed

lemma rfold_renderPlatform_hold:
  assumes "rfold (renderPlatform fs eng config) s ds = Ok s'" and "distinct_names (fs_root fs)"
    and "sections_hold fs eng config dirs s"
  shows "sections_hold fs eng config (dirs @ ds) s'"
  using assms
proof (induction ds arbitrary: s dirs)
  case (Cons d ds)
  then obtain s1 where s1: "renderPlatform fs eng config s d = Ok s1" "rfold (renderPlatform fs eng config) s1 ds = Ok s'"
    by (auto simp: result_simps)
  from Cons.IH [OF s1(2) assms(2) renderPlatform_hold [OF s1(1) assms(2) Cons.prems(3)]] show ?case by simp
qed simp

text \<open>A directory that does not exist holds no files, so leaving it out changes nothing.\<close>

lemma addPlatformDir_files:
  assumes "addPlatformDir fs ds p = Ok ds'"
  shows "concat (List.map (\<lambda>d. files_under fs (d @ [sub])) ds') =
    concat (List.map (\<lambda>d. files_under fs (d @ [sub])) (ds @ [p]))"
proof (cases "existsDir fs p = Ok True")
  case False
  then have e: "existsDir fs p = Ok False" "ds' = ds"
    using assms by (auto simp: addPlatformDir_def result_simps split: if_splits)
  then have "fs_lookup (fs_root fs) p = Missing"
    by (auto simp: existsDir_def fs_access_def split: option.splits lookup.splits if_splits)
  then have "fs_lookup (fs_root fs) (p @ [sub]) = Missing" by (rule fs_lookup_Missing)
  then show ?thesis by (simp add: files_under_def e(2))
qed (use assms in \<open>simp add: addPlatformDir_def\<close>)

lemma platformDirectories_files:
  assumes "platformDirectories fs templateDir path = Ok ds"
  shows "concat (List.map (\<lambda>d. files_under fs (d @ [sub])) ds) = section_files fs templateDir path sub"
proof -
  obtain ds1 where "addPlatformDir fs [] (templateDir @ [''common'', ''_base'']) = Ok ds1"
    "addPlatformDir fs ds1 (path @ [''_base'']) = Ok ds"
    using assms by (auto simp: platformDirectories_def getPaths_def platformBase_def result_simps)
  then show ?thesis by (simp add: addPlatformDir_files section_files_def section_dirs_def)
qed

lemma renderSections_text:
  assumes "renderSections (re_fs re) (re_engine re) config templateDir path = Ok s" and "distinct_names (fs_root (re_fs re))"
  shows "map_of (se_files s) = section_text re config templateDir path filesDir"
    and "map_of (se_units s) = section_text re config templateDir path unitsDir"
    and "map_of (se_extensions s) = section_text re config templateDir path extensionsDir"
proof -
  obtain ds where ds: "platformDirectories (re_fs re) templateDir path = Ok ds"
    "rfold (renderPlatform (re_fs re) (re_engine re) config) no_sections ds = Ok s"
    using assms(1) by (auto simp: renderSections_def result_simps)
  have "sections_hold (re_fs re) (re_engine re) config [] no_sections"
    by (simp add: sections_hold_def no_sections_def fun_eq_iff)
  from rfold_renderPlatform_hold [OF ds(2) assms(2) this]
  show "map_of (se_files s) = section_text re config templateDir path filesDir"
    "map_of (se_units s) = section_text re config templateDir path unitsDir"
    "map_of (se_extensions s) = section_text re config templateDir path extensionsDir"
    by (simp_all add: sections_hold_def Let_def platformDirectories_files [OF ds(1)] section_text_def [abs_def])
qed

section \<open>Names and texts in order\<close>

text \<open>The names that have a text, in their order.\<close>

definition section_names :: "('b, 't) renderer \<Rightarrow> renderConfig \<Rightarrow> path \<Rightarrow> path \<Rightarrow> string \<Rightarrow> string list" where
  "section_names re config templateDir path sub =
     sort (filter (\<lambda>name. section_text re config templateDir path sub name \<noteq> None)
       (remdups (List.map (base_name \<circ> fst) (section_files (re_fs re) templateDir path sub))))"

definition section_snippets :: "('b, 't) renderer \<Rightarrow> renderConfig \<Rightarrow> path \<Rightarrow> path \<Rightarrow> string \<Rightarrow> string list" where
  "section_snippets re config templateDir path sub =
     List.map (\<lambda>name. the (section_text re config templateDir path sub name)) (section_names re config templateDir path sub)"

lemma newest_text_name: "newest_text eng config k files = Some v \<Longrightarrow> k \<in> base_name ` fst ` set files"
  by (induction eng config k files rule: newest_text.induct) (auto split: if_splits result.splits)

lemma section_names_facts:
  "sorted (section_names re config templateDir path sub)" "distinct (section_names re config templateDir path sub)"
  "set (section_names re config templateDir path sub) = {k. section_text re config templateDir path sub k \<noteq> None}"
proof -
  show "sorted (section_names re config templateDir path sub)" "distinct (section_names re config templateDir path sub)"
    by (simp_all add: section_names_def)
  show "set (section_names re config templateDir path sub) = {k. section_text re config templateDir path sub k \<noteq> None}"
    using newest_text_name [of "re_engine re" config _ "rev (section_files (re_fs re) templateDir path sub)"]
    by (force simp: section_names_def section_text_def)
qed

lemma sorted_keys:
  assumes "distinct (List.map fst m)" and "map_of m = section_text re config templateDir path sub"
  shows "sort (List.map fst m) = section_names re config templateDir path sub"
proof (rule sorted_distinct_set_unique)
  have "set (List.map fst m) = {k. map_of m k \<noteq> None}" by (auto simp: map_of_eq_None_iff)
  then show "set (sort (List.map fst m)) = set (section_names re config templateDir path sub)"
    by (simp add: section_names_facts(3) assms(2))
qed (simp_all add: section_names_facts assms(1))

lemma keySortVals_section:
  assumes "distinct (List.map fst m)" and "map_of m = section_text re config templateDir path sub"
  shows "keySortVals m = section_snippets re config templateDir path sub"
  by (simp add: keySortVals_def sorted_keys [OF assms] section_snippets_def assms(2))

lemma newest_text_shown: "newest_text eng config k files = Some v \<Longrightarrow> trim_space v \<noteq> []"
  by (induction eng config k files rule: newest_text.induct) (auto split: if_splits result.splits)

lemma section_snippets_shown: "v \<in> set (section_snippets re config templateDir path sub) \<Longrightarrow> trim_space v \<noteq> []"
  by (auto simp: section_snippets_def section_names_facts(3) section_text_def dest: newest_text_shown)

end
