(* ===== verification/TemplateSpec.thy ===== *)
theory TemplateSpec
  imports TemplateText
begin

text \<open>
  The properties of template rendering. The witnesses use a tree with the directories of
  \<open>src/templates\<close> and an engine whose templates are plain text, except that a text that starts
  with a question mark is shown only when file-based swap is enabled.
\<close>

section \<open>A concrete renderer\<close>

definition sample_engine :: "string engine" where
  "sample_engine =
     \<lparr>te_Parse = (\<lambda>funcs name text. if text = ''{{'' then Err (ErrText ''unclosed action'') else Ok text),
      te_Execute = (\<lambda>t config.
        Ok (if take 1 t = ''?'' then if rc_EnableFileBasedSwap config then drop 1 t else [] else t))\<rparr>"

definition sample_cgroups_dir :: fs_node where
  "sample_cgroups_dir =
     FsDir [(''_base'', FsDir
       [(''extensions'', FsDir [(''usbguard'', FsFile ''on'')]),
        (''files'', FsDir [(''kubeletdropin.yaml'', FsFile ''drop'')]),
        (''units'', FsDir [(''empty.service.yaml'', FsFile []), (''slice.service.yaml'', FsFile ''slice'')])])]"

definition sample_swap_dir :: fs_node where
  "sample_swap_dir =
     FsDir [(''_base'', FsDir [(''units'', FsDir [(''provision.service.yaml'', FsFile ''?swap'')])])]"

definition sample_fs :: filesystem where
  "sample_fs =
     \<lparr>fs_root = FsDir [(''templates'', FsDir [(''README'', FsFile ''x''), (''worker'', FsDir
        [(''99-filebased-swap'', sample_swap_dir), (''99-swap-kubelet-cgroups'', sample_cgroups_dir)])])],
      fs_fault = (\<lambda>op p. None)\<rparr>"

definition sample_renderer :: "(string, string) renderer" where
  "sample_renderer =
     \<lparr>re_fs = sample_fs, re_engine = sample_engine, re_toolchain = sample_tc,
      re_converter = ignitionConverter converter_sources sample_tr\<rparr>"

lemma sample_no_faults: "no_faults sample_fs"
  by (simp add: no_faults_def sample_fs_def)

lemma sample_renderer_ok: "renderer_ok sample_renderer"
proof -
  have "source_order converter_sources
      \<and> re_converter sample_renderer = ignitionConverter converter_sources sample_tr"
    by (simp add: source_order_converter_sources sample_renderer_def)
  then show ?thesis
    unfolding renderer_ok_def
    by (intro conjI) (blast, simp_all add: sample_renderer_def sample_engine_def sample_tc_def)
qed

lemma trim_space_word:
  assumes "s \<noteq> []" and "\<forall>c\<in>set s. 32 < byte c \<and> byte c < 128"
  shows "trim_space s = s"
proof -
  have "space_len t = 0 \<and> space_len_rev t = 0" if "\<forall>c\<in>set t. 32 < byte c \<and> byte c < 128" for t
    using that
    by (cases t rule: space_len.cases)
      (auto simp: ascii_space_def utf8_space2_def utf8_space3_def)
  with assms(2) show ?thesis by (intro trim_space_id) auto
qed

lemma trim_space_Nil: "trim_space [] = []"
  by (simp add: trim_space_def trim_left_id trim_right_id)

text \<open>Rendering the cgroups directory of the tree.\<close>

lemma sample_step:
  "templateStep sample_engine config m (p, []) = Ok (AList.delete (base_name p) m)"
  "templateStep sample_engine config m (p, ''on'') = Ok (AList.update (base_name p) ''on'' m)"
  "templateStep sample_engine config m (p, ''drop'') = Ok (AList.update (base_name p) ''drop'' m)"
  "templateStep sample_engine config m (p, ''slice'') = Ok (AList.update (base_name p) ''slice'' m)"
  "templateStep sample_engine config m (p, ''?swap'') =
     Ok (if rc_EnableFileBasedSwap config then AList.update (base_name p) ''swap'' m else m)"
  by (simp_all add: templateStep_def renderTemplate_def sample_engine_def trim_space_word byte_def
      trim_space_Nil)

lemma sample_existsDir:
  "existsDir sample_fs [''templates'', ''common'', ''_base''] = Ok False"
  "existsDir sample_fs [''templates'', ''worker'', ''99-swap-kubelet-cgroups'', ''_base''] = Ok True"
  "existsDir sample_fs [''templates'', ''worker'', ''99-swap-kubelet-cgroups'', ''_base'', ''files''] = Ok True"
  "existsDir sample_fs [''templates'', ''worker'', ''99-swap-kubelet-cgroups'', ''_base'', ''units''] = Ok True"
  "existsDir sample_fs [''templates'', ''worker'', ''99-swap-kubelet-cgroups'', ''_base'', ''extensions''] = Ok True"
  by (simp_all add: existsDir_def fs_access_def sample_fs_def sample_swap_dir_def sample_cgroups_dir_def)

lemma sample_lookup:
  "fs_lookup (fs_root sample_fs) [''templates'', ''worker'', ''99-swap-kubelet-cgroups'', ''_base'', ''files''] =
     Found (FsDir [(''kubeletdropin.yaml'', FsFile ''drop'')])"
  "fs_lookup (fs_root sample_fs) [''templates'', ''worker'', ''99-swap-kubelet-cgroups'', ''_base'', ''units''] =
     Found (FsDir [(''empty.service.yaml'', FsFile []), (''slice.service.yaml'', FsFile ''slice'')])"
  "fs_lookup (fs_root sample_fs) [''templates'', ''worker'', ''99-swap-kubelet-cgroups'', ''_base'', ''extensions''] =
     Found (FsDir [(''usbguard'', FsFile ''on'')])"
  by (simp_all add: sample_fs_def sample_swap_dir_def sample_cgroups_dir_def)

lemma sample_sections:
  "renderSections sample_fs sample_engine config [''templates''] [''templates'', ''worker'', ''99-swap-kubelet-cgroups''] =
     Ok \<lparr>se_files = [(''kubeletdropin.yaml'', ''drop'')], se_units = [(''slice.service.yaml'', ''slice'')],
         se_extensions = [(''usbguard'', ''on'')]\<rparr>"
  by (simp add: renderSections_def platformDirectories_def getPaths_def addPlatformDir_def platformBase_def
      sample_existsDir renderPlatform_def no_sections_def renderSection_def filesDir_def unitsDir_def extensionsDir_def
      filterTemplates_files [OF sample_no_faults _ sample_lookup(1)]
      filterTemplates_files [OF sample_no_faults _ sample_lookup(2)]
      filterTemplates_files [OF sample_no_faults _ sample_lookup(3)] sample_step base_name_def)

lemma sample_mc:
  "GenerateMachineConfigForName sample_renderer config ''worker'' ''99-swap-kubelet-cgroups'' [''templates'']
     [''templates'', ''worker'', ''99-swap-kubelet-cgroups''] =
   Ok \<lparr>mc_Meta = new_meta ''99-swap-kubelet-cgroups'' (Some [MachineConfigRoleLabelKey \<mapsto> ''worker'']),
       mc_OSImageURL = [], mc_Config = ''3.5.0 drop;slice;'', mc_Extensions = [''usbguard'']\<rparr>"
proof -
  have "TranspileCoreOSConfigToIgn sample_tc (ignitionConverter converter_sources sample_tr) [''drop''] [''slice''] =
      Ok \<lparr>i3_Version = ''3.5.0'', i3_Body = ''drop;slice;''\<rparr>"
    unfolding transpile_Ok_iff [OF source_order_converter_sources]
    by (simp add: list_all2_Cons1 sample_tc_def snippet35_def ToIgn3_0_def fileSnippet_def unitSnippet_def
        upgrade_from_32_def sample_tr_def set_version_def)
  then show ?thesis
    by (simp add: GenerateMachineConfigForName_def sample_renderer_def sample_sections keySortVals_def
        MachineConfigFromIgnConfig_def MachineConfigFromRawIgnConfig_def)
      (simp add: sample_tc_def)
qed

lemma sample_mc_role:
  "is_ok (GenerateMachineConfigForName sample_renderer config role name [''templates'']
     [''templates'', ''worker'', ''99-swap-kubelet-cgroups''])"
  using sample_mc [of config]
  by (auto simp: GenerateMachineConfigForName_def MachineConfigFromIgnConfig_def is_ok_iff result_simps)

section \<open>Properties\<close>

text \<open>
  C12: without file-system faults, \<open>filterTemplates\<close> is a loop over the files of the tree in the order
  of the walk: an empty file deletes the entry of its name, a file that renders to blank text leaves
  the map as it is, and any other sets the entry; the first template error ends the loop.
\<close>

theorem filterTemplates_is_loop_over_files:
  assumes "no_faults fs" and "distinct_names n" and "fs_lookup (fs_root fs) p = Found n"
  shows "filterTemplates fs eng m p config = rfold (templateStep eng config) m (node_files p n)"
  by (rule filterTemplates_files [OF assms])

theorem filterTemplates_is_loop_over_files_witness:
  "filterTemplates sample_fs sample_engine [(''empty.service.yaml'', ''old'')]
     [''templates'', ''worker'', ''99-swap-kubelet-cgroups'', ''_base'', ''units''] zeroRenderConfig =
   Ok [(''slice.service.yaml'', ''slice'')]"
  by (simp add: filterTemplates_is_loop_over_files [OF sample_no_faults _ sample_lookup(2)] sample_step base_name_def)

text \<open>
  The list of rendered snippets does not depend on the order in which Go ranges over the map: two
  listings of the same map give the same list.
\<close>

theorem keySortVals_order_irrelevant:
  assumes "distinct (List.map fst m)" and "distinct (List.map fst m')" and "map_of m = map_of m'"
  shows "keySortVals m = keySortVals m'"
  by (rule keySortVals_map_of [OF assms])

theorem keySortVals_order_irrelevant_witness:
  "keySortVals [(''b'', ''2''), (''a'', ''1'')] = keySortVals [(''a'', ''1''), (''b'', ''2'')]"
  by (rule keySortVals_order_irrelevant) auto

text \<open>
  C31: whatever may fail on the way, a machine config that is generated has the given name, the role as
  its only label and no OS image; its extensions are, in order, exactly the names that have a text in the
  \<open>extensions\<close> directories of the template tree; and its configuration merges, into the empty one and in
  this order, the texts of the \<open>files\<close> directories in the order of their names and then those of the
  \<open>units\<close> directories, each decoded and taken from 3.0 to 3.5. The text of a name is the one of its newest
  file that renders to something, the template's own files after the common ones, unless an empty file
  is newer.
\<close>

theorem machine_config_contents:
  assumes "distinct_names (fs_root (re_fs re))" and "source_order order" and "re_converter re = ignitionConverter order tr"
    and "GenerateMachineConfigForName re config role name templateDir path = Ok mc"
  shows "mc_Meta mc = new_meta name (Some [MachineConfigRoleLabelKey \<mapsto> role])
    \<and> mc_OSImageURL mc = [] \<and> mc_Extensions mc = section_names re config templateDir path ''extensions''
    \<and> (\<exists>files units.
         list_all2 (\<lambda>s f. tc_unmarshalFile (re_toolchain re) s = Ok f)
           (section_snippets re config templateDir path ''files'') files
       \<and> list_all2 (\<lambda>s u. tc_unmarshalUnit (re_toolchain re) s = Ok u)
           (section_snippets re config templateDir path ''units'') units
       \<and> tc_jsonMarshal (re_toolchain re)
           (fold (\<lambda>c out. tc_Merge (re_toolchain re) out (snippet35 tr (re_toolchain re) c))
             (List.map fileSnippet files @ List.map unitSnippet units) (tc_zero (re_toolchain re))) = Ok (mc_Config mc))"
proof -
  obtain s where s: "renderSections (re_fs re) (re_engine re) config templateDir path = Ok s"
    and facts: "mc_Meta mc = new_meta name (Some [MachineConfigRoleLabelKey \<mapsto> role])"
      "mc_OSImageURL mc = []" "mc_Extensions mc = sort (List.map fst (se_extensions s))"
      "\<exists>ign. TranspileCoreOSConfigToIgn (re_toolchain re) (re_converter re)
           (keySortVals (se_files s)) (keySortVals (se_units s)) = Ok ign
         \<and> tc_jsonMarshal (re_toolchain re) ign = Ok (mc_Config mc)"
    by (rule GenerateMachineConfigForName_Ok [OF assms(4)])
  note sec = renderSections_text [OF s assms(1), unfolded filesDir_def unitsDir_def extensionsDir_def]
  have keys: "distinct (List.map fst (se_files s))" "distinct (List.map fst (se_units s))" "distinct (List.map fst (se_extensions s))"
    using renderSections_inv [OF s] by (simp_all add: sections_ok_def rendered_ok_def)
  show ?thesis
    using facts(4) unfolding assms(3) keySortVals_section [OF keys(1) sec(1)] keySortVals_section [OF keys(2) sec(2)]
      transpile_Ok_iff [OF assms(2)] facts(1-3) sorted_keys [OF keys(3) sec(3)]
    by blast
qed

theorem machine_config_contents_witness:
  "\<exists>mc. GenerateMachineConfigForName sample_renderer zeroRenderConfig ''worker'' ''99-swap-kubelet-cgroups''
      [''templates''] [''templates'', ''worker'', ''99-swap-kubelet-cgroups''] = Ok mc
    \<and> mc_Extensions mc = [''usbguard'']
    \<and> section_names sample_renderer zeroRenderConfig [''templates'']
        [''templates'', ''worker'', ''99-swap-kubelet-cgroups''] ''extensions'' = [''usbguard'']"
proof -
  have "distinct_names (fs_root (re_fs sample_renderer))"
    by (simp add: sample_renderer_def sample_fs_def sample_swap_dir_def sample_cgroups_dir_def)
  moreover have "re_converter sample_renderer = ignitionConverter converter_sources sample_tr"
    by (simp add: sample_renderer_def)
  ultimately show ?thesis
    using machine_config_contents [OF _ source_order_converter_sources _ sample_mc [of zeroRenderConfig]]
      sample_mc [of zeroRenderConfig] by auto
qed

text \<open>
  For a role, one machine config is generated for each directory of the role's template directory,
  in their order, named after it and labelled with the role; a custom role takes the worker's
  directory.
\<close>

theorem role_machine_configs:
  assumes "GenerateMachineConfigsForRole re config role templateDir = Ok mcs"
  shows "\<exists>infos. ReadDir (re_fs re) (templateDir @
        [if role \<in> {workerRole, masterRole, arbiterRole} then role else workerRole]) = Ok infos
    \<and> List.map (\<lambda>mc. om_Name (mc_Meta mc)) mcs = List.map fst (filter (\<lambda>info. is_dir (snd info)) infos)
    \<and> (\<forall>mc\<in>set mcs. om_Labels (mc_Meta mc) = Some [MachineConfigRoleLabelKey \<mapsto> role])"
proof -
  let ?path = "templateDir @ [if role \<in> {workerRole, masterRole, arbiterRole} then role else workerRole]"
  have "(if role \<noteq> workerRole \<and> role \<noteq> masterRole \<and> role \<noteq> arbiterRole then workerRole else role) =
      (if role \<in> {workerRole, masterRole, arbiterRole} then role else workerRole)" by auto
  then obtain infos where infos: "ReadDir (re_fs re) ?path = Ok infos"
    and run: "rfold (addConfigForName re config role templateDir ?path) [] infos = Ok mcs"
    using assms by (auto simp only: GenerateMachineConfigsForRole_def Let_def rbind_Ok_iff)
  from rfold_addConfigForName [OF run] have
    "list_all2 (\<lambda>(name, n) mc. GenerateMachineConfigForName re config role name templateDir (?path @ [name]) = Ok mc)
      (filter (\<lambda>info. is_dir (snd info)) infos) mcs" by simp
  then have meta: "list_all2 (\<lambda>info mc. mc_Meta mc =
      new_meta (fst info) (Some [MachineConfigRoleLabelKey \<mapsto> role]))
      (filter (\<lambda>info. is_dir (snd info)) infos) mcs"
    by (rule list_all2_mono) (auto elim: GenerateMachineConfigForName_Ok)
  then have "List.map (\<lambda>mc. om_Name (mc_Meta mc)) mcs = List.map fst (filter (\<lambda>info. is_dir (snd info)) infos)"
    by (induction rule: list_all2_induct) auto
  moreover from meta have "\<forall>mc\<in>set mcs. om_Labels (mc_Meta mc) = Some [MachineConfigRoleLabelKey \<mapsto> role]"
    by (induction rule: list_all2_induct) auto
  ultimately show ?thesis using infos by blast
qed

lemma sample_swap_mc:
  "is_ok (GenerateMachineConfigForName sample_renderer zeroRenderConfig role name [''templates'']
     [''templates'', ''worker'', ''99-filebased-swap''])"
proof -
  have ex: "existsDir sample_fs [''templates'', ''worker'', ''99-filebased-swap'', ''_base''] = Ok True"
    "existsDir sample_fs [''templates'', ''worker'', ''99-filebased-swap'', ''_base'', ''files''] = Ok False"
    "existsDir sample_fs [''templates'', ''worker'', ''99-filebased-swap'', ''_base'', ''units''] = Ok True"
    "existsDir sample_fs [''templates'', ''worker'', ''99-filebased-swap'', ''_base'', ''extensions''] = Ok False"
    by (simp_all add: existsDir_def fs_access_def sample_fs_def sample_swap_dir_def)
  have lk: "fs_lookup (fs_root sample_fs) [''templates'', ''worker'', ''99-filebased-swap'', ''_base'', ''units''] =
      Found (FsDir [(''provision.service.yaml'', FsFile ''?swap'')])"
    by (simp add: sample_fs_def sample_swap_dir_def)
  have "renderSections sample_fs sample_engine zeroRenderConfig [''templates'']
      [''templates'', ''worker'', ''99-filebased-swap''] = Ok no_sections"
    by (simp add: renderSections_def platformDirectories_def getPaths_def addPlatformDir_def platformBase_def
        sample_existsDir(1) ex renderPlatform_def no_sections_def renderSection_def filesDir_def unitsDir_def
        extensionsDir_def filterTemplates_files [OF sample_no_faults _ lk] sample_step zeroRenderConfig_def)
  then show ?thesis
    by (simp add: GenerateMachineConfigForName_def sample_renderer_def no_sections_def keySortVals_def
        TranspileCoreOSConfigToIgn_def MachineConfigFromIgnConfig_def)
      (simp add: sample_tc_def)
qed

theorem role_machine_configs_witness:
  "\<exists>mcs. GenerateMachineConfigsForRole sample_renderer zeroRenderConfig ''infra'' [''templates''] = Ok mcs
    \<and> List.map (\<lambda>mc. om_Name (mc_Meta mc)) mcs = [''99-filebased-swap'', ''99-swap-kubelet-cgroups'']"
proof -
  let ?es = "[(''99-filebased-swap'', sample_swap_dir), (''99-swap-kubelet-cgroups'', sample_cgroups_dir)]"
  have dir: "ReadDir sample_fs [''templates'', ''worker''] = Ok ?es"
    by (rule ReadDir_no_faults [OF sample_no_faults]) (simp add: sample_fs_def)
  obtain mc1 where mc1: "GenerateMachineConfigForName sample_renderer zeroRenderConfig ''infra'' ''99-filebased-swap''
      [''templates''] [''templates'', ''worker'', ''99-filebased-swap''] = Ok mc1"
    using sample_swap_mc [of "''infra''" "''99-filebased-swap''"] unfolding is_ok_iff by blast
  obtain mc2 where mc2: "GenerateMachineConfigForName sample_renderer zeroRenderConfig ''infra'' ''99-swap-kubelet-cgroups''
      [''templates''] [''templates'', ''worker'', ''99-swap-kubelet-cgroups''] = Ok mc2"
    using sample_mc_role [of zeroRenderConfig "''infra''" "''99-swap-kubelet-cgroups''"] unfolding is_ok_iff by blast
  have "GenerateMachineConfigsForRole sample_renderer zeroRenderConfig ''infra'' [''templates''] = Ok [mc1, mc2]"
    using dir mc1 mc2
    by (simp add: GenerateMachineConfigsForRole_def workerRole_def masterRole_def arbiterRole_def addConfigForName_def
        sample_swap_dir_def sample_cgroups_dir_def sample_renderer_def)
  from role_machine_configs [OF this] this show ?thesis
    using dir by (auto simp: workerRole_def masterRole_def arbiterRole_def sample_renderer_def
        sample_swap_dir_def sample_cgroups_dir_def)
qed

text \<open>
  Generating a machine config never panics, whatever the file system holds and whichever of its
  operations fail, if the template engine and the coders do not.
\<close>

theorem machine_config_never_panics:
  assumes "renderer_ok re"
  shows "no_panic (GenerateMachineConfigForName re config role name templateDir path)"
  by (rule GenerateMachineConfigForName_no_panic [OF assms])

theorem machine_config_never_panics_witness:
  "no_panic (GenerateMachineConfigForName sample_renderer zeroRenderConfig ''worker'' ''x'' [''nowhere''] [''nowhere'', ''x''])"
  by (rule machine_config_never_panics [OF sample_renderer_ok])

end
