(* ===== verification/Reconciler.thy ===== *)
theory Reconciler
  imports KubeApi Conditions TemplateSpec
begin

text \<open>
  \<open>src/internal/controller/nodeswap_controller.go\<close>: the reconciliation of a \<open>NodeSwap\<close>. The state of
  the reconciler is a record, the cluster is the world \<open>'w\<close> of a client, and every call of the client
  returns the world after it. The lemmas inside the locale \<open>kube_client\<close> hold for any client that
  keeps its laws; they are used through the interpretation on the API server.
\<close>

definition typeAvailableNodeSwap :: string where "typeAvailableNodeSwap = ''Availabe''"
definition typeProgressingNodeSwap :: string where "typeProgressingNodeSwap = ''Progressing''"
definition typeDegradedNodeSwap :: string where "typeDegradedNodeSwap = ''Degraded''"

lemmas type_defs = typeAvailableNodeSwap_def typeProgressingNodeSwap_def typeDegradedNodeSwap_def

lemma types_differ [simp]:
  "typeAvailableNodeSwap \<noteq> typeProgressingNodeSwap" "typeAvailableNodeSwap \<noteq> typeDegradedNodeSwap"
  "typeProgressingNodeSwap \<noteq> typeDegradedNodeSwap" "typeProgressingNodeSwap \<noteq> typeAvailableNodeSwap"
  "typeDegradedNodeSwap \<noteq> typeAvailableNodeSwap" "typeDegradedNodeSwap \<noteq> typeProgressingNodeSwap"
  by (simp_all add: type_defs)

text \<open>The fields of \<open>NodeSwapReconciler\<close> other than the client and the context.\<close>

record reconciler =
  rr_TemplateDir :: path
  rr_config :: "renderConfig list"
  rr_desiredNodeSwap :: nodeSwap
  rr_mcpReady :: bool

section \<open>Helpers\<close>

definition parseLabelSelector :: "string \<Rightarrow> (string \<times> string) result" where
  "parseLabelSelector selector =
     (if selector = [] then Err (ErrText ''label selector is empty'')
      else
        let parts = splitN2 CHR '':'' selector in
        if length parts \<noteq> 2
        then Err (ErrText (''invalid label selector format: '' @ selector @ '', expected key: or key:value''))
        else
          let key = trim_space (parts ! 0); value = trim_space (parts ! 1) in
          if key = [] then Err (ErrText (''label selector has empty key: '' @ selector))
          else Ok (key, value))"

definition MachineConfigPoolUpdated :: string where "MachineConfigPoolUpdated = ''Updated''"
definition MachineConfigPoolUpdating :: string where "MachineConfigPoolUpdating = ''Updating''"
definition MachineConfigPoolDegraded :: string where "MachineConfigPoolDegraded = ''Degraded''"

lemmas pool_type_defs = MachineConfigPoolUpdated_def MachineConfigPoolUpdating_def MachineConfigPoolDegraded_def

text \<open>The body of the loop over the conditions, on the three variables.\<close>

definition poolStep :: "mcpCondition \<Rightarrow> bool \<times> bool \<times> bool \<Rightarrow> bool \<times> bool \<times> bool" where
  "poolStep condition st =
     (case st of (updated, updating, degraded) \<Rightarrow>
        if pc_Type condition = MachineConfigPoolUpdated
        then (pc_Status condition = ConditionTrue, updating, degraded)
        else if pc_Type condition = MachineConfigPoolUpdating
        then (updated, pc_Status condition = ConditionTrue, degraded)
        else if pc_Type condition = MachineConfigPoolDegraded
        then (updated, updating, pc_Status condition = ConditionTrue)
        else (updated, updating, degraded))"

definition isMachineConfigPoolUpdated :: "machineConfigPool \<Rightarrow> bool" where
  "isMachineConfigPoolUpdated mcp =
     (case fold poolStep (mp_Conditions mcp) (False, False, False) of
        (updated, updating, degraded) \<Rightarrow> updated \<and> \<not> updating \<and> \<not> degraded)"

text \<open>The body of the loop over the pools: the matching, the updated and the other pools.\<close>

definition filterPool ::
  "string \<Rightarrow> string \<Rightarrow> machineConfigPool \<Rightarrow>
     machineConfigPool list \<times> machineConfigPool list \<times> machineConfigPool list \<Rightarrow>
     machineConfigPool list \<times> machineConfigPool list \<times> machineConfigPool list" where
  "filterPool labelKey labelValue mcp st =
     (case st of (matchingMCPs, updatedMCPs, notUpdatedMCPs) \<Rightarrow>
        (case mp_Selector mcp of
           Some (Some matchLabels) \<Rightarrow>
             (case matchLabels labelKey of
                Some value \<Rightarrow>
                  if value = labelValue then
                    if isMachineConfigPoolUpdated mcp
                    then (matchingMCPs @ [mcp], updatedMCPs @ [mcp], notUpdatedMCPs)
                    else (matchingMCPs @ [mcp], updatedMCPs, notUpdatedMCPs @ [mcp])
                  else (matchingMCPs, updatedMCPs, notUpdatedMCPs)
              | None \<Rightarrow> (matchingMCPs, updatedMCPs, notUpdatedMCPs))
         | _ \<Rightarrow> (matchingMCPs, updatedMCPs, notUpdatedMCPs)))"

section \<open>The reconciliation\<close>

definition withLabel :: "string \<Rightarrow> string \<Rightarrow> machineConfig \<Rightarrow> machineConfig" where
  "withLabel key value mc =
     mc\<lparr>mc_Meta := (mc_Meta mc)\<lparr>om_Labels :=
       Some ((case om_Labels (mc_Meta mc) of None \<Rightarrow> Map.empty | Some m \<Rightarrow> m)(key \<mapsto> value))\<rparr>\<rparr>"

definition ReconcileKubeletCgroups ::
  "('b, 't) renderer \<Rightarrow> 'w client \<Rightarrow> reconciler \<Rightarrow> 'w \<Rightarrow> unit result \<times> 'w" where
  "ReconcileKubeletCgroups re cl r w =
     (case cl_GetMachineConfig cl SwapKubeletCgroupsMCPrefix w of
        (Ok kubeletMachineConfig, w) \<Rightarrow> (Ok (), w)
      | (Panic p, w) \<Rightarrow> (Panic p, w)
      | (Err err, w) \<Rightarrow>
          if isNotFound err then
            (let fullTemplatePath = rr_TemplateDir r @ [''worker'', ''99-swap-kubelet-cgroups''] in
             case GenerateMachineConfigForName re zeroRenderConfig ''worker'' ''99-swap-kubelet-cgroups''
                    (rr_TemplateDir r) fullTemplatePath of
               Err err \<Rightarrow> (Err err, w)
             | Panic p \<Rightarrow> (Panic p, w)
             | Ok mc \<Rightarrow>
                 (case parseLabelSelector (sp_MachineConfigPoolSelector (ns_Spec (rr_desiredNodeSwap r))) of
                    Err err \<Rightarrow> (Err err, w)
                  | Panic p \<Rightarrow> (Panic p, w)
                  | Ok (key, value) \<Rightarrow>
                      (case cl_CreateMachineConfig cl (withLabel key value mc) w of
                         (Ok _, w) \<Rightarrow> (Ok (), w)
                       | (Panic p, w) \<Rightarrow> (Panic p, w)
                       | (Err err, w) \<Rightarrow> if isAlreadyExists err then (Ok (), w) else (Err err, w))))
          else (Err err, w))"

definition ReconcileSpec ::
  "('b, 't) renderer \<Rightarrow> 'w client \<Rightarrow> reconciler \<Rightarrow> 'w \<Rightarrow> unit result \<times> reconciler \<times> 'w" where
  "ReconcileSpec re cl r w =
     (case Create (ns_Spec (rr_desiredNodeSwap r)) of
        Err err \<Rightarrow> (Err err, r, w)
      | Panic p \<Rightarrow> (Panic p, r, w)
      | Ok config \<Rightarrow>
          (let r = r\<lparr>rr_config := config\<rparr> in
           case cl_ListMachineConfigPools cl w of
             (Err err, w) \<Rightarrow> (Err err, r, w)
           | (Panic p, w) \<Rightarrow> (Panic p, r, w)
           | (Ok pools, w) \<Rightarrow>
               (case parseLabelSelector (sp_MachineConfigPoolSelector (ns_Spec (rr_desiredNodeSwap r))) of
                  Err err \<Rightarrow> (Err err, r, w)
                | Panic p \<Rightarrow> (Panic p, r, w)
                | Ok (labelKey, labelValue) \<Rightarrow>
                    (let (matchingMCPs, updatedMCPs, notUpdatedMCPs) =
                           fold (filterPool labelKey labelValue) pools ([], [], []);
                         r = r\<lparr>rr_mcpReady := (length notUpdatedMCPs = 0)\<rparr>;
                         (result, w) = ReconcileKubeletCgroups re cl r w
                     in (result, r, w)))))"

definition newCondition :: "string \<Rightarrow> string \<Rightarrow> string \<Rightarrow> string \<Rightarrow> condition" where
  "newCondition ctype status reason message =
     \<lparr>c_Type = ctype, c_Status = status, c_ObservedGeneration = 0, c_LastTransitionTime = None,
      c_Reason = reason, c_Message = message\<rparr>"

text \<open>The conditions that \<open>ReconcileStatus\<close> sets, one \<open>SetStatusCondition\<close> after the other.\<close>

definition statusUpdates :: "error option \<Rightarrow> condition list \<Rightarrow> condition list" where
  "statusUpdates reconcileErr conds =
     (case reconcileErr of
        Some err \<Rightarrow>
          [newCondition typeDegradedNodeSwap ConditionTrue ''ReconciliationFailed''
             (''Failed to reconcile: '' @ err_text err),
           newCondition typeProgressingNodeSwap ConditionFalse ''ReconciliationFailed'' ''Reconciliation failed'',
           newCondition typeAvailableNodeSwap ConditionFalse ''ReconciliationFailed'' []]
      | None \<Rightarrow>
          if length conds = 0 then
            [newCondition typeProgressingNodeSwap ConditionTrue ''Reconciling'' ''NodeSwap is reconciling'']
          else
            [newCondition typeAvailableNodeSwap ConditionTrue ''ReconciliationSucceeded''
               ''NodeSwap successfully reconciled'',
             newCondition typeDegradedNodeSwap ConditionFalse ''ReconciliationSucceeded'' [],
             newCondition typeProgressingNodeSwap ConditionFalse ''ReconciliationSucceeded'' []])"

text \<open>One \<open>meta.SetStatusCondition(&r.desiredNodeSwap.Status.Conditions, c)\<close>, with its clock reading.\<close>

definition setConditionNow :: "'w client \<Rightarrow> condition \<Rightarrow> condition list \<times> 'w \<Rightarrow> condition list \<times> 'w" where
  "setConditionNow cl c st =
     (case st of (conds, w) \<Rightarrow> let (now, w) = cl_Now cl w in (fst (SetStatusCondition now conds c), w))"

definition ReconcileStatus ::
  "'w client \<Rightarrow> error option \<Rightarrow> reconciler \<Rightarrow> 'w \<Rightarrow> unit result \<times> reconciler \<times> 'w" where
  "ReconcileStatus cl reconcileErr r w =
     (let conds = st_Conditions (ns_Status (rr_desiredNodeSwap r));
          (conds, w) = fold (setConditionNow cl) (statusUpdates reconcileErr conds) (conds, w);
          ns = (rr_desiredNodeSwap r)\<lparr>ns_Status := \<lparr>st_Conditions = conds\<rparr>\<rparr>
      in case cl_UpdateStatus cl ns w of
        (Ok stored, w) \<Rightarrow> (Ok (), r\<lparr>rr_desiredNodeSwap := stored\<rparr>, w)
      | (Err err, w) \<Rightarrow> (Err err, r\<lparr>rr_desiredNodeSwap := ns\<rparr>, w)
      | (Panic p, w) \<Rightarrow> (Panic p, r\<lparr>rr_desiredNodeSwap := ns\<rparr>, w))"

definition Reconcile ::
  "('b, 't) renderer \<Rightarrow> 'w client \<Rightarrow> objectKey \<Rightarrow> reconciler \<Rightarrow> 'w \<Rightarrow> unit result \<times> reconciler \<times> 'w" where
  "Reconcile re cl key r w =
     (case cl_GetNodeSwap cl key w of
        (Err err, w) \<Rightarrow> if isNotFound err then (Ok (), r, w) else (Err err, r, w)
      | (Panic p, w) \<Rightarrow> (Panic p, r, w)
      | (Ok ns, w) \<Rightarrow>
          (let r = r\<lparr>rr_desiredNodeSwap := ns\<rparr> in
           case ReconcileSpec re cl r w of
             (Panic p, r, w) \<Rightarrow> (Panic p, r, w)
           | (Ok _, r, w) \<Rightarrow> ReconcileStatus cl None r w
           | (Err reconcileErr, r, w) \<Rightarrow>
               (case ReconcileStatus cl (Some reconcileErr) r w of
                  (Panic p, r, w) \<Rightarrow> (Panic p, r, w)
                | (Ok _, r, w) \<Rightarrow> (Err reconcileErr, r, w)
                | (Err statusErr, r, w) \<Rightarrow>
                    (Err (ErrText (''reconcile error: '' @ err_text reconcileErr @ '', status update error: ''
                       @ err_text statusErr)), r, w))))"

section \<open>Lemmas on the helpers\<close>

lemma parseLabelSelector_Ok_iff:
  "parseLabelSelector s = Ok (k, v) \<longleftrightarrow>
     (\<exists>a b. s = a @ CHR '':'' # b \<and> CHR '':'' \<notin> set a \<and> k = trim_space a \<and> v = trim_space b \<and> k \<noteq> [])"
proof -
  consider "CHR '':'' \<notin> set s" "splitN2 CHR '':'' s = [s]"
    | a b where "s = a @ CHR '':'' # b" "CHR '':'' \<notin> set a" "splitN2 CHR '':'' s = [a, b]"
    using splitN2_cases [of "CHR '':''" s] by blast
  then show ?thesis
  proof cases
    case 1
    then show ?thesis by (auto simp: parseLabelSelector_def)
  next
    case (2 a b)
    have uniq: "a' = a \<and> b' = b" if "s = a' @ CHR '':'' # b'" "CHR '':'' \<notin> set a'" for a' b'
      by (metis 2(3) list.inject splitN2_sep that)
    have "s \<noteq> []" using 2(1) by simp
    then have "parseLabelSelector s =
        (if trim_space a = [] then Err (ErrText (''label selector has empty key: '' @ s))
         else Ok (trim_space a, trim_space b))"
      by (simp add: parseLabelSelector_def 2(3))
    then have "parseLabelSelector s = Ok (k, v) \<longleftrightarrow> trim_space a \<noteq> [] \<and> k = trim_space a \<and> v = trim_space b"
      by auto
    also have "\<dots> \<longleftrightarrow> (\<exists>a b. s = a @ CHR '':'' # b \<and> CHR '':'' \<notin> set a \<and> k = trim_space a \<and> v = trim_space b \<and> k \<noteq> [])"
      using 2(1,2) uniq by blast
    finally show ?thesis .
  qed
qed

lemma parseLabelSelector_no_panic [simp]: "no_panic (parseLabelSelector s)"
  by (auto simp: parseLabelSelector_def Let_def)

lemma parseLabelSelector_not_Panic [simp]: "parseLabelSelector s \<noteq> Panic p"
  by (metis no_panic_simps(3) parseLabelSelector_no_panic)

text \<open>The status that the last condition of a type gives.\<close>

definition last_status :: "string \<Rightarrow> mcpCondition list \<Rightarrow> string option" where
  "last_status t cs = map_option pc_Status (List.find (\<lambda>c. pc_Type c = t) (rev cs))"

lemma last_status_snoc:
  "last_status t (cs @ [c]) = (if pc_Type c = t then Some (pc_Status c) else last_status t cs)"
  by (simp add: last_status_def)

lemma poolStep_fold:
  "fold poolStep cs (False, False, False) =
     (last_status MachineConfigPoolUpdated cs = Some ConditionTrue,
      last_status MachineConfigPoolUpdating cs = Some ConditionTrue,
      last_status MachineConfigPoolDegraded cs = Some ConditionTrue)"
proof (induction cs rule: rev_induct)
  case Nil
  then show ?case by (simp add: last_status_def)
next
  case (snoc c cs)
  then show ?case by (simp add: poolStep_def last_status_snoc pool_type_defs)
qed

definition pool_matches :: "string \<Rightarrow> string \<Rightarrow> machineConfigPool \<Rightarrow> bool" where
  "pool_matches key value mcp \<longleftrightarrow> (\<exists>m. mp_Selector mcp = Some (Some m) \<and> m key = Some value)"

lemma filterPool_eq:
  "filterPool key value mcp (a, b, c) =
     (if pool_matches key value mcp
      then if isMachineConfigPoolUpdated mcp then (a @ [mcp], b @ [mcp], c) else (a @ [mcp], b, c @ [mcp])
      else (a, b, c))"
  by (auto simp: filterPool_def pool_matches_def split: option.splits)

lemma filterPool_fold:
  "fold (filterPool key value) pools (a, b, c) =
     (a @ filter (pool_matches key value) pools,
      b @ filter (\<lambda>p. pool_matches key value p \<and> isMachineConfigPoolUpdated p) pools,
      c @ filter (\<lambda>p. pool_matches key value p \<and> \<not> isMachineConfigPoolUpdated p) pools)"
  by (induction pools arbitrary: a b c) (auto simp: filterPool_eq)

section \<open>Lemmas on the status\<close>

text \<open>The conditions after the updates, with the clock readings \<open>stamps\<close>.\<close>

definition status_after :: "error option \<Rightarrow> condition list \<Rightarrow> int list \<Rightarrow> condition list" where
  "status_after e conds stamps =
     fold (\<lambda>(now, c) cs. setCondition now cs c) (zip stamps (statusUpdates e conds)) conds"

definition condition_is :: "condition list \<Rightarrow> string \<Rightarrow> string \<Rightarrow> string \<Rightarrow> string \<Rightarrow> bool" where
  "condition_is conds t status reason message \<longleftrightarrow>
     said (FindStatusCondition conds t) = Some (status, reason, message)"

lemma newCondition_simps [simp]:
  "c_Type (newCondition t s r m) = t" "c_Status (newCondition t s r m) = s"
  "c_Reason (newCondition t s r m) = r" "c_Message (newCondition t s r m) = m"
  by (simp_all add: newCondition_def)

lemma length3: "length ts = 3 \<Longrightarrow> \<exists>a b c. ts = [a, b, c]"
  by (auto simp: numeral_3_eq_3 length_Suc_conv)

lemma status_after_failure:
  assumes "length stamps = length (statusUpdates (Some e) conds)"
  shows "condition_is (status_after (Some e) conds stamps) typeDegradedNodeSwap ConditionTrue
      ''ReconciliationFailed'' (''Failed to reconcile: '' @ err_text e)"
    and "condition_is (status_after (Some e) conds stamps) typeProgressingNodeSwap ConditionFalse
      ''ReconciliationFailed'' ''Reconciliation failed''"
    and "condition_is (status_after (Some e) conds stamps) typeAvailableNodeSwap ConditionFalse
      ''ReconciliationFailed'' []"
proof -
  obtain n1 n2 n3 where "stamps = [n1, n2, n3]"
    using length3 [of stamps] assms by (auto simp: statusUpdates_def)
  then show "condition_is (status_after (Some e) conds stamps) typeDegradedNodeSwap ConditionTrue
      ''ReconciliationFailed'' (''Failed to reconcile: '' @ err_text e)"
    "condition_is (status_after (Some e) conds stamps) typeProgressingNodeSwap ConditionFalse
      ''ReconciliationFailed'' ''Reconciliation failed''"
    "condition_is (status_after (Some e) conds stamps) typeAvailableNodeSwap ConditionFalse
      ''ReconciliationFailed'' []"
    by (simp_all add: status_after_def statusUpdates_def condition_is_def conditions.get_put)
qed

lemma status_after_first:
  assumes "length stamps = length (statusUpdates None [])"
  shows "condition_is (status_after None [] stamps) typeProgressingNodeSwap ConditionTrue
      ''Reconciling'' ''NodeSwap is reconciling''"
    and "FindStatusCondition (status_after None [] stamps) typeAvailableNodeSwap = None"
    and "status_after None [] stamps \<noteq> []"
proof -
  obtain now where "stamps = [now]"
    using assms by (auto simp: statusUpdates_def length_Suc_conv)
  then have eq: "status_after None [] stamps = setCondition now []
      (newCondition typeProgressingNodeSwap ConditionTrue ''Reconciling'' ''NodeSwap is reconciling'')"
    by (simp add: status_after_def statusUpdates_def)
  show "condition_is (status_after None [] stamps) typeProgressingNodeSwap ConditionTrue
      ''Reconciling'' ''NodeSwap is reconciling''"
    "FindStatusCondition (status_after None [] stamps) typeAvailableNodeSwap = None"
    "status_after None [] stamps \<noteq> []"
    unfolding eq by (simp_all add: condition_is_def conditions.get_put find_setCondition)
qed

lemma status_after_later:
  assumes "conds \<noteq> []" and "length stamps = length (statusUpdates None conds)"
  shows "condition_is (status_after None conds stamps) typeAvailableNodeSwap ConditionTrue
      ''ReconciliationSucceeded'' ''NodeSwap successfully reconciled''"
    and "condition_is (status_after None conds stamps) typeDegradedNodeSwap ConditionFalse
      ''ReconciliationSucceeded'' []"
    and "condition_is (status_after None conds stamps) typeProgressingNodeSwap ConditionFalse
      ''ReconciliationSucceeded'' []"
proof -
  obtain n1 n2 n3 where "stamps = [n1, n2, n3]"
    using length3 [of stamps] assms by (auto simp: statusUpdates_def)
  then show "condition_is (status_after None conds stamps) typeAvailableNodeSwap ConditionTrue
      ''ReconciliationSucceeded'' ''NodeSwap successfully reconciled''"
    "condition_is (status_after None conds stamps) typeDegradedNodeSwap ConditionFalse
      ''ReconciliationSucceeded'' []"
    "condition_is (status_after None conds stamps) typeProgressingNodeSwap ConditionFalse
      ''ReconciliationSucceeded'' []"
    using assms(1) by (simp_all add: status_after_def statusUpdates_def condition_is_def conditions.get_put)
qed

lemma set_fold_wf: "conditions_wf conds \<Longrightarrow> conditions_wf (fold (\<lambda>(now, c) cs. setCondition now cs c) ups conds)"
  by (induction ups arbitrary: conds) (auto simp: setCondition_wf)

lemma set_fold_not_Nil: "conds \<noteq> [] \<Longrightarrow> fold (\<lambda>(now, c) cs. setCondition now cs c) ups conds \<noteq> []"
proof (induction ups arbitrary: conds)
  case (Cons up ups)
  show ?case
    using Cons.IH [OF setCondition_not_Nil, of "fst up" conds "snd up"] by (simp add: case_prod_beta)
qed simp

lemma status_after_wf: "conditions_wf conds \<Longrightarrow> conditions_wf (status_after e conds stamps)"
  by (simp add: status_after_def set_fold_wf)

lemma status_after_not_Nil: "conds \<noteq> [] \<Longrightarrow> status_after e conds stamps \<noteq> []"
  by (simp add: status_after_def set_fold_not_Nil)

end
