(* ===== verification/ReconcilerClient.thy ===== *)
theory ReconcilerClient
  imports Reconciler
begin

text \<open>
  What a reconciliation does to the cluster, proved once for any client that keeps the laws of
  \<open>kube_client\<close>, and the behaviour of the API server between undisturbed calls.
\<close>

section \<open>For any client\<close>

text \<open>The machine config that \<open>ReconcileKubeletCgroups\<close> may create.\<close>

definition kubelet_config :: "('b, 't) renderer \<Rightarrow> reconciler \<Rightarrow> machineConfig \<Rightarrow> bool" where
  "kubelet_config re r mc \<longleftrightarrow>
     (\<exists>key val mc'. parseLabelSelector (sp_MachineConfigPoolSelector (ns_Spec (rr_desiredNodeSwap r))) = Ok (key, val)
        \<and> GenerateMachineConfigForName re zeroRenderConfig ''worker'' ''99-swap-kubelet-cgroups''
            (rr_TemplateDir r) (rr_TemplateDir r @ [''worker'', ''99-swap-kubelet-cgroups'']) = Ok mc'
        \<and> mc = withLabel key val mc')"

lemma kubelet_config_meta:
  assumes "kubelet_config re r mc"
  obtains key val
    where "parseLabelSelector (sp_MachineConfigPoolSelector (ns_Spec (rr_desiredNodeSwap r))) = Ok (key, val)"
      and "mc_Meta mc = new_meta ''99-swap-kubelet-cgroups'' (Some [MachineConfigRoleLabelKey \<mapsto> ''worker'', key \<mapsto> val])"
proof -
  obtain key val mc' where
      p: "parseLabelSelector (sp_MachineConfigPoolSelector (ns_Spec (rr_desiredNodeSwap r))) = Ok (key, val)"
    and g: "GenerateMachineConfigForName re zeroRenderConfig ''worker'' ''99-swap-kubelet-cgroups''
            (rr_TemplateDir r) (rr_TemplateDir r @ [''worker'', ''99-swap-kubelet-cgroups'']) = Ok mc'"
    and mc: "mc = withLabel key val mc'"
    using assms by (auto simp: kubelet_config_def)
  have "mc_Meta mc' = new_meta ''99-swap-kubelet-cgroups'' (Some [MachineConfigRoleLabelKey \<mapsto> ''worker''])"
    using g by (rule GenerateMachineConfigForName_Ok) simp
  then show ?thesis using that p by (simp add: mc withLabel_def)
qed

context kube_client
begin

lemma now: "cl_Now cl w = (t, w') \<Longrightarrow> writes w' = writes w"
  using now_writes [of w] by simp

lemma get_ns: "cl_GetNodeSwap cl key w = (x, w') \<Longrightarrow> writes w' = writes w \<and> no_panic x"
  using get_ns_writes [of key w] get_ns_no_panic [of key w] by simp

lemma get_mc: "cl_GetMachineConfig cl name w = (x, w') \<Longrightarrow> writes w' = writes w \<and> no_panic x"
  using get_mc_writes [of name w] get_mc_no_panic [of name w] by simp

lemma list_pools: "cl_ListMachineConfigPools cl w = (x, w') \<Longrightarrow> writes w' = writes w \<and> no_panic x"
  using list_writes [of w] list_no_panic [of w] by simp

lemma create: "cl_CreateMachineConfig cl mc w = (x, w') \<Longrightarrow>
    writes w' = writes w @ (if is_ok x then [CreatedMachineConfig mc] else []) \<and> no_panic x"
  using create_writes [of mc w] create_no_panic [of mc w] by simp

lemma update: "cl_UpdateStatus cl ns w = (x, w') \<Longrightarrow>
    writes w' = writes w @ (if is_ok x then [UpdatedStatus (key_of ns) (ns_Status ns)] else []) \<and> no_panic x"
  using update_writes [of ns w] update_no_panic [of ns w] by simp

lemma kubelet_writes:
  assumes "ReconcileKubeletCgroups re cl r w = (res, w')"
  shows "writes w' = writes w \<or> (res = Ok () \<and> (\<exists>mc. kubelet_config re r mc \<and> writes w' = writes w @ [CreatedMachineConfig mc]))"
proof -
  obtain x w1 where get: "cl_GetMachineConfig cl SwapKubeletCgroupsMCPrefix w = (x, w1)" by fastforce
  note w1 = get_mc [OF get]
  show ?thesis
  proof (cases "\<exists>e. x = Err e \<and> isNotFound e")
    case False
    then show ?thesis using assms w1 by (cases x) (auto simp: ReconcileKubeletCgroups_def get)
  next
    case True
    then obtain e where e: "x = Err e" "isNotFound e" by blast
    let ?gen = "GenerateMachineConfigForName re zeroRenderConfig ''worker'' ''99-swap-kubelet-cgroups''
        (rr_TemplateDir r) (rr_TemplateDir r @ [''worker'', ''99-swap-kubelet-cgroups''])"
    let ?sel = "parseLabelSelector (sp_MachineConfigPoolSelector (ns_Spec (rr_desiredNodeSwap r)))"
    show ?thesis
    proof (cases "\<exists>mc kv. ?gen = Ok mc \<and> ?sel = Ok kv")
      case False
      then show ?thesis
        using assms w1 by (cases ?gen; cases ?sel) (auto simp: ReconcileKubeletCgroups_def get e)
    next
      case True
      then obtain mc key val where gs: "?gen = Ok mc" "?sel = Ok (key, val)" by fastforce
      obtain y w2 where c: "cl_CreateMachineConfig cl (withLabel key val mc) w1 = (y, w2)" by fastforce
      have "kubelet_config re r (withLabel key val mc)" using gs by (auto simp: kubelet_config_def)
      then show ?thesis
        using assms w1 create [OF c]
        by (cases y) (auto simp: ReconcileKubeletCgroups_def get e gs c split: if_splits)
    qed
  qed
qed

lemma kubelet_no_panic:
  assumes "renderer_ok re"
  shows "no_panic (fst (ReconcileKubeletCgroups re cl r w))"
proof -
  have "no_panic (GenerateMachineConfigForName re zeroRenderConfig ''worker'' ''99-swap-kubelet-cgroups''
      (rr_TemplateDir r) (rr_TemplateDir r @ [''worker'', ''99-swap-kubelet-cgroups'']))"
    by (rule GenerateMachineConfigForName_no_panic [OF assms])
  then show ?thesis
    by (auto simp: ReconcileKubeletCgroups_def Let_def dest!: get_mc create split: prod.split result.split)
qed

lemma spec_facts:
  assumes "ReconcileSpec re cl r w = (res, r', w')"
  shows "rr_desiredNodeSwap r' = rr_desiredNodeSwap r"
    and "writes w' = writes w \<or> (res = Ok () \<and> (\<exists>mc. kubelet_config re r mc \<and> writes w' = writes w @ [CreatedMachineConfig mc]))"
proof -
  have kc: "kubelet_config re (r\<lparr>rr_config := c, rr_mcpReady := b\<rparr>) mc = kubelet_config re r mc" for c b mc
    by (simp add: kubelet_config_def)
  let ?sel = "parseLabelSelector (sp_MachineConfigPoolSelector (ns_Spec (rr_desiredNodeSwap r)))"
  obtain x w1 where l: "cl_ListMachineConfigPools cl w = (x, w1)" by fastforce
  note w1 = list_pools [OF l]
  have "rr_desiredNodeSwap r' = rr_desiredNodeSwap r \<and>
    (writes w' = writes w \<or> (res = Ok () \<and> (\<exists>mc. kubelet_config re r mc \<and> writes w' = writes w @ [CreatedMachineConfig mc])))"
  proof (cases "\<exists>config pools key val. Create (ns_Spec (rr_desiredNodeSwap r)) = Ok config \<and> x = Ok pools \<and> ?sel = Ok (key, val)")
    case True
    then obtain config pools key val where ok: "Create (ns_Spec (rr_desiredNodeSwap r)) = Ok config"
      "x = Ok pools" "?sel = Ok (key, val)" by blast
    obtain res2 w2 where k: "ReconcileKubeletCgroups re cl
        (r\<lparr>rr_config := config, rr_mcpReady := filter (\<lambda>p. pool_matches key val p \<and> \<not> isMachineConfigPoolUpdated p) pools = []\<rparr>) w1 = (res2, w2)"
      by fastforce
    have "(res, r', w') = (res2, r\<lparr>rr_config := config,
        rr_mcpReady := filter (\<lambda>p. pool_matches key val p \<and> \<not> isMachineConfigPoolUpdated p) pools = []\<rparr>, w2)"
      using assms k by (simp add: ReconcileSpec_def l ok filterPool_fold)
    then show ?thesis using kubelet_writes [OF k] w1 by (auto simp: kc)
  next
    case False
    then show ?thesis
      using assms w1
      by (cases "Create (ns_Spec (rr_desiredNodeSwap r))"; cases x; cases ?sel)
        (auto simp: ReconcileSpec_def l)
  qed
  then show "rr_desiredNodeSwap r' = rr_desiredNodeSwap r"
    "writes w' = writes w \<or> (res = Ok () \<and> (\<exists>mc. kubelet_config re r mc \<and> writes w' = writes w @ [CreatedMachineConfig mc]))"
    by blast+
qed

lemma set_conditions:
  "\<exists>stamps w'. fold (setConditionNow cl) ups (conds, w) =
      (fold (\<lambda>(now, c) cs. setCondition now cs c) (zip stamps ups) conds, w')
    \<and> length stamps = length ups \<and> writes w' = writes w"
proof (induction ups arbitrary: conds w)
  case (Cons c ups)
  obtain t w1 where n: "cl_Now cl w = (t, w1)" by fastforce
  obtain stamps w' where IH: "fold (setConditionNow cl) ups (setCondition t conds c, w1) =
      (fold (\<lambda>(now, c) cs. setCondition now cs c) (zip stamps ups) (setCondition t conds c), w')"
    "length stamps = length ups" "writes w' = writes w1"
    using Cons [of "setCondition t conds c" w1] by blast
  show ?case
    by (intro exI [of _ "t # stamps"] exI [of _ w'])
      (use IH now [OF n] in \<open>simp add: setConditionNow_def [of cl c] n setCondition_def [symmetric]\<close>)
qed simp

lemma status_facts:
  assumes "ReconcileStatus cl e r w = (res, r', w')"
  shows "\<exists>stamps. length stamps = length (statusUpdates e (st_Conditions (ns_Status (rr_desiredNodeSwap r))))
    \<and> writes w' = writes w @ (if is_ok res
        then [UpdatedStatus (key_of (rr_desiredNodeSwap r))
                \<lparr>st_Conditions = status_after e (st_Conditions (ns_Status (rr_desiredNodeSwap r))) stamps\<rparr>] else [])
    \<and> no_panic res"
proof -
  let ?conds = "st_Conditions (ns_Status (rr_desiredNodeSwap r))"
  obtain stamps w1 where s: "fold (setConditionNow cl) (statusUpdates e ?conds) (?conds, w) = (status_after e ?conds stamps, w1)"
    "length stamps = length (statusUpdates e ?conds)" "writes w1 = writes w"
    using set_conditions [of "statusUpdates e ?conds" ?conds w] by (auto simp: status_after_def)
  let ?ns = "(rr_desiredNodeSwap r)\<lparr>ns_Status := \<lparr>st_Conditions = status_after e ?conds stamps\<rparr>\<rparr>"
  obtain x w2 where u: "cl_UpdateStatus cl ?ns w1 = (x, w2)" by fastforce
  have key: "key_of ?ns = key_of (rr_desiredNodeSwap r)" by (simp add: key_of_def)
  have "res = (case x of Ok _ \<Rightarrow> Ok () | Err e \<Rightarrow> Err e | Panic p \<Rightarrow> Panic p) \<and> w' = w2"
    using assms by (cases x) (simp_all add: ReconcileStatus_def s(1) u)
  then show ?thesis
    using update [OF u] s(2,3) by (intro exI [of _ stamps]) (cases x; simp add: key)
qed

text \<open>A panic of \<open>ReconcileSpec\<close> reaches the caller before the status is reported.\<close>

lemma reconcile_panics:
  assumes "cl_GetNodeSwap cl key w = (Ok ns, w1)" and "Create (ns_Spec ns) = Panic p"
  shows "Reconcile re cl key r w = (Panic p, r\<lparr>rr_desiredNodeSwap := ns\<rparr>, w1) \<and> writes w1 = writes w"
  using assms get_ns [OF assms(1)] by (simp add: Reconcile_def ReconcileSpec_def)

lemma reconcile_get_error:
  assumes "cl_GetNodeSwap cl key w = (Err e, w1)"
  shows "Reconcile re cl key r w = (if isNotFound e then Ok () else Err e, r, w1) \<and> writes w1 = writes w"
  using assms get_ns [OF assms(1)] by (simp add: Reconcile_def)

text \<open>A failing spec: the status, when it can be written, says why; the error is never lost.\<close>

lemma reconcile_failure:
  assumes "cl_GetNodeSwap cl key w = (Ok ns, w1)"
    and "ReconcileSpec re cl (r\<lparr>rr_desiredNodeSwap := ns\<rparr>) w1 = (Err e, r2, w2)"
    and "Reconcile re cl key r w = (res, r', w')"
  shows "\<exists>stamps. length stamps = length (statusUpdates (Some e) (st_Conditions (ns_Status ns)))
    \<and> ((res = Err e \<and> writes w' = writes w @
          [UpdatedStatus (key_of ns) \<lparr>st_Conditions = status_after (Some e) (st_Conditions (ns_Status ns)) stamps\<rparr>])
       \<or> (\<exists>se. res = Err (ErrText (''reconcile error: '' @ err_text e @ '', status update error: '' @ err_text se))
            \<and> writes w' = writes w))"
proof -
  obtain y r3 w3 where st: "ReconcileStatus cl (Some e) r2 w2 = (y, r3, w3)" by (metis prod_cases3)
  have w2: "writes w2 = writes w" and ns: "rr_desiredNodeSwap r2 = ns"
    using spec_facts [OF assms(2)] get_ns [OF assms(1)] by auto
  from status_facts [OF st] obtain stamps where
    s: "length stamps = length (statusUpdates (Some e) (st_Conditions (ns_Status ns)))"
      "writes w3 = writes w @ (if is_ok y then [UpdatedStatus (key_of ns)
         \<lparr>st_Conditions = status_after (Some e) (st_Conditions (ns_Status ns)) stamps\<rparr>] else [])" "no_panic y"
    unfolding w2 ns by blast
  have "res = (case y of Ok _ \<Rightarrow> Err e
      | Err se \<Rightarrow> Err (ErrText (''reconcile error: '' @ err_text e @ '', status update error: '' @ err_text se))
      | Panic p \<Rightarrow> Panic p) \<and> w' = w3"
    using assms(3) by (cases y) (auto simp: Reconcile_def assms(1,2) st)
  with s show ?thesis by (intro exI [of _ stamps]) (cases y; auto)
qed

lemma reconcile_success:
  assumes "cl_GetNodeSwap cl key w = (Ok ns, w1)"
    and "ReconcileSpec re cl (r\<lparr>rr_desiredNodeSwap := ns\<rparr>) w1 = (Ok (), r2, w2)"
    and "Reconcile re cl key r w = (res, r', w')"
  shows "\<exists>stamps. length stamps = length (statusUpdates None (st_Conditions (ns_Status ns)))
    \<and> ((res = Ok () \<and> writes w' = writes w2 @
          [UpdatedStatus (key_of ns) \<lparr>st_Conditions = status_after None (st_Conditions (ns_Status ns)) stamps\<rparr>])
       \<or> (\<exists>se. res = Err se \<and> writes w' = writes w2))"
proof -
  have ns: "rr_desiredNodeSwap r2 = ns" using spec_facts [OF assms(2)] by simp
  have st: "ReconcileStatus cl None r2 w2 = (res, r', w')"
    using assms(3) by (simp add: Reconcile_def assms(1,2))
  from status_facts [OF st] obtain stamps where
    "length stamps = length (statusUpdates None (st_Conditions (ns_Status ns)))"
    "writes w' = writes w2 @ (if is_ok res then [UpdatedStatus (key_of ns)
         \<lparr>st_Conditions = status_after None (st_Conditions (ns_Status ns)) stamps\<rparr>] else [])" "no_panic res"
    unfolding ns by blast
  then show ?thesis by (intro exI [of _ stamps]) (cases res; auto)
qed

text \<open>What a whole reconciliation writes.\<close>

lemma reconcile_writes:
  assumes "Reconcile re cl key r w = (res, r', w')"
  shows "\<exists>mcs sts. writes w' = writes w @ mcs @ sts \<and> length mcs \<le> 1 \<and> length sts \<le> 1
    \<and> (\<forall>x\<in>set mcs. \<exists>ns mc. fst (cl_GetNodeSwap cl key w) = Ok ns
         \<and> kubelet_config re (r\<lparr>rr_desiredNodeSwap := ns\<rparr>) mc \<and> x = CreatedMachineConfig mc)
    \<and> (\<forall>x\<in>set sts. \<exists>ns st. fst (cl_GetNodeSwap cl key w) = Ok ns \<and> x = UpdatedStatus (key_of ns) st)"
proof -
  obtain x w1 where get: "cl_GetNodeSwap cl key w = (x, w1)" by fastforce
  show ?thesis
  proof (cases x)
    case (Err e)
    then show ?thesis
      using reconcile_get_error [OF get [unfolded Err], of re r] assms
      by (intro exI [of _ "[]"]) auto
  next
    case (Panic p)
    then show ?thesis using get_ns [OF get] by simp
  next
    case (Ok ns)
    let ?r = "r\<lparr>rr_desiredNodeSwap := ns\<rparr>"
    obtain y r2 w2 where sp: "ReconcileSpec re cl ?r w1 = (y, r2, w2)" by (metis prod_cases3)
    have w1: "writes w1 = writes w" using get_ns [OF get] by simp
    obtain mcs where mcs: "writes w2 = writes w @ mcs" "length mcs \<le> 1"
      "\<forall>x\<in>set mcs. \<exists>mc. kubelet_config re ?r mc \<and> x = CreatedMachineConfig mc" "mcs \<noteq> [] \<Longrightarrow> y = Ok ()"
      using spec_facts(2) [OF sp] w1 by fastforce
    obtain sts where sts: "writes w' = writes w2 @ sts" "length sts \<le> 1"
      "\<forall>x\<in>set sts. \<exists>st. x = UpdatedStatus (key_of ns) st"
    proof (cases y)
      case (Ok u)
      then have "ReconcileSpec re cl ?r w1 = (Ok (), r2, w2)" using sp by simp
      from reconcile_success [OF get [unfolded \<open>x = Ok ns\<close>] this assms]
      show ?thesis using that by fastforce
    next
      case (Err e)
      then have "writes w2 = writes w" using mcs by auto
      with reconcile_failure [OF get [unfolded \<open>x = Ok ns\<close>] sp [unfolded Err] assms]
      show ?thesis using that by fastforce
    next
      case (Panic p)
      then show ?thesis
        using that [of "[]"] assms by (simp add: Reconcile_def get \<open>x = Ok ns\<close> sp)
    qed
    show ?thesis
      by (intro exI [of _ mcs] exI [of _ sts]) (use mcs sts in \<open>auto simp: get Ok\<close>)
  qed
qed

end

end
