(* ===== verification/ClusterSteps.thy ===== *)
theory ClusterSteps
  imports ReconcilerClient
begin

text \<open>
  Reconciliations on the API server: their exact result when nobody disturbs the calls, the machine
  config that is there after any disturbed but successful pass, and the states a cluster can reach
  by reconciliations and by the actions of others.
\<close>

section \<open>Panics\<close>

lemma Create_no_panic:
  assumes "\<forall>sw\<in>set (sp_Swaps spec). sw_SwapType sw = FileBasedSwap \<longrightarrow> sw_File sw \<noteq> None"
  shows "no_panic (Create spec)"
proof -
  have "no_panic (render i sw)" if "sw \<in> set (sp_Swaps spec)" for i sw
    using render_Panic_iff [of i sw] assms that by (cases "render i sw") auto
  then show ?thesis
    unfolding Create_def by (intro rmap_list_no_panic) (auto simp: in_set_enumerate_eq)
qed

lemma Create_panics:
  assumes "sp_Swaps spec = before @ sw # rest"
    and "\<forall>i<length before. is_ok (render (int i) (before ! i))"
    and "sw_SwapType sw = FileBasedSwap" and "sw_File sw = None"
  shows "\<exists>p. Create spec = Panic p"
proof -
  obtain p where p: "render (int (length before)) sw = Panic p"
    using render_Panic_iff [of "int (length before)" sw] assms(3,4) by blast
  show ?thesis
    unfolding Create_def assms(1) enumerate_append_eq
    using assms(2) p
    by (intro exI) (simp, rule rmap_list_first_panic, auto simp: in_set_enumerate_eq)
qed

context kube_client
begin

lemma spec_no_panic:
  assumes "renderer_ok re" and "no_panic (Create (ns_Spec (rr_desiredNodeSwap r)))"
  shows "no_panic (fst (ReconcileSpec re cl r w))"
proof -
  obtain x w1 where l: "cl_ListMachineConfigPools cl w = (x, w1)" by fastforce
  have "no_panic y" if "ReconcileKubeletCgroups re cl r' w1 = (y, w')" for r' y w'
    using kubelet_no_panic [OF assms(1), of r' w1] that by simp
  then show ?thesis
    using assms(2) list_pools [OF l]
    by (auto simp: ReconcileSpec_def l Let_def split: result.split prod.split)
qed

lemma reconcile_no_panic:
  assumes "renderer_ok re"
    and "\<And>ns. fst (cl_GetNodeSwap cl key w) = Ok ns \<Longrightarrow>
      \<forall>sw\<in>set (sp_Swaps (ns_Spec ns)). sw_SwapType sw = FileBasedSwap \<longrightarrow> sw_File sw \<noteq> None"
  shows "no_panic (fst (Reconcile re cl key r w))"
proof -
  obtain x w1 where get: "cl_GetNodeSwap cl key w = (x, w1)" by fastforce
  show ?thesis
  proof (cases x)
    case (Ok ns)
    have "no_panic (Create (ns_Spec ns))"
      by (rule Create_no_panic) (use assms(2) [of ns] in \<open>simp add: get Ok\<close>)
    then have "no_panic (fst (ReconcileSpec re cl (r\<lparr>rr_desiredNodeSwap := ns\<rparr>) w1))"
      by (intro spec_no_panic [OF assms(1)]) simp
    moreover have "no_panic (fst (ReconcileStatus cl e r2 w2))" for e r2 w2
      using status_facts [of e r2 w2] by (metis prod.collapse)
    moreover from this have "ReconcileStatus cl e r2 w2 \<noteq> (Panic p, r', w')" for e r2 w2 p r' w'
      by (metis fst_conv no_panic_simps(3))
    ultimately show ?thesis
      by (auto simp: Reconcile_def get Ok split: result.split prod.split)
  qed (use get_ns [OF get] in \<open>auto simp: Reconcile_def get\<close>)
qed

end

section \<open>Undisturbed calls\<close>

lemma begin_call_Nil [simp]: "cs_Schedule w = [] \<Longrightarrow> begin_call w = (None, w)"
  by (simp add: begin_call_def)

lemma api_call_Nil: "cs_Schedule w = [] \<Longrightarrow> api_call effect w = effect w"
  by (simp add: api_call_def)

lemma set_conditions_quiet:
  "fold (setConditionNow api_server) ups (conds, w) =
     (fold (\<lambda>(now, c) cs. setCondition now cs c)
        (zip (List.map (cs_Times w) [cs_Ticks w ..< cs_Ticks w + length ups]) ups) conds,
      w\<lparr>cs_Ticks := cs_Ticks w + length ups\<rparr>)"
proof (induction ups arbitrary: conds w)
  case (Cons c ups)
  have "[cs_Ticks w ..< cs_Ticks w + length (c # ups)] =
      cs_Ticks w # [Suc (cs_Ticks w) ..< cs_Ticks w + length (c # ups)]"
    by (rule upt_conv_Cons) simp
  then show ?case
    by (simp add: Cons.IH setConditionNow_def [of api_server c] api_Now_def setCondition_def [symmetric]
        del: upt_Suc)
qed simp

lemma status_quiet:
  fixes e :: "error option"
  assumes "cs_Schedule w = []" and "cs_NodeSwaps w (key_of (rr_desiredNodeSwap r)) = Some stored"
    and "om_ResourceVersion (ns_Meta stored) = om_ResourceVersion (ns_Meta (rr_desiredNodeSwap r))"
  defines "conds \<equiv> st_Conditions (ns_Status (rr_desiredNodeSwap r))"
  defines "n \<equiv> length (statusUpdates e conds)"
  defines "st \<equiv> \<lparr>st_Conditions = status_after e conds (List.map (cs_Times w) [cs_Ticks w ..< cs_Ticks w + n])\<rparr>"
  defines "new \<equiv> put_status stored st (cs_Revision w)"
  shows "ReconcileStatus api_server e r w =
    (Ok (), r\<lparr>rr_desiredNodeSwap := fst new\<rparr>,
     w\<lparr>cs_Ticks := cs_Ticks w + n,
       cs_NodeSwaps := (cs_NodeSwaps w)(key_of (rr_desiredNodeSwap r) \<mapsto> fst new), cs_Revision := snd new,
       cs_Writes := cs_Writes w @ [UpdatedStatus (key_of (rr_desiredNodeSwap r)) st]\<rparr>)"
  using assms(1-3)
  by (simp add: ReconcileStatus_def set_conditions_quiet conds_def [symmetric] n_def [symmetric]
      api_UpdateStatus_def api_call_Nil Let_def st_def new_def status_after_def split: prod.split)

abbreviation kubelet_mc :: "('b, 't) renderer \<Rightarrow> path \<Rightarrow> machineConfig result" where
  "kubelet_mc re dir \<equiv> GenerateMachineConfigForName re zeroRenderConfig ''worker''
     ''99-swap-kubelet-cgroups'' dir (dir @ [''worker'', ''99-swap-kubelet-cgroups''])"

lemma kubelet_mc_name: "kubelet_mc re dir = Ok mc \<Longrightarrow> om_Name (mc_Meta mc) = SwapKubeletCgroupsMCPrefix"
  by (erule GenerateMachineConfigForName_Ok) (simp add: SwapKubeletCgroupsMCPrefix_def)

lemma withLabel_name [simp]: "om_Name (mc_Meta (withLabel key val mc)) = om_Name (mc_Meta mc)"
  by (simp add: withLabel_def)

lemma kubelet_quiet_present:
  assumes "cs_Schedule w = []" and "cs_MachineConfigs w SwapKubeletCgroupsMCPrefix = Some mc"
  shows "ReconcileKubeletCgroups re api_server r w = (Ok (), w)"
  using assms by (simp add: ReconcileKubeletCgroups_def api_GetMachineConfig_def api_call_Nil)

lemma kubelet_quiet_absent:
  assumes "cs_Schedule w = []" and "cs_MachineConfigs w SwapKubeletCgroupsMCPrefix = None"
    and "kubelet_mc re (rr_TemplateDir r) = Ok mc"
    and "parseLabelSelector (sp_MachineConfigPoolSelector (ns_Spec (rr_desiredNodeSwap r))) = Ok (key, val)"
  shows "ReconcileKubeletCgroups re api_server r w =
    (Ok (), w\<lparr>cs_MachineConfigs := (cs_MachineConfigs w)(SwapKubeletCgroupsMCPrefix \<mapsto>
                stampMachineConfig (Suc (cs_Revision w)) (withLabel key val mc)),
              cs_Revision := Suc (cs_Revision w),
              cs_Writes := cs_Writes w @ [CreatedMachineConfig (withLabel key val mc)]\<rparr>)"
  using assms kubelet_mc_name [OF assms(3)]
  by (simp add: ReconcileKubeletCgroups_def api_GetMachineConfig_def api_CreateMachineConfig_def
      api_call_Nil not_found_def isNotFound_def Let_def)

lemma spec_quiet:
  assumes "cs_Schedule w = []" and "Create (ns_Spec (rr_desiredNodeSwap r)) = Ok config"
    and "parseLabelSelector (sp_MachineConfigPoolSelector (ns_Spec (rr_desiredNodeSwap r))) = Ok (key, val)"
  defines "r' \<equiv> r\<lparr>rr_config := config, rr_mcpReady :=
      filter (\<lambda>p. pool_matches key val p \<and> \<not> isMachineConfigPoolUpdated p) (cs_Pools w) = []\<rparr>"
  shows "ReconcileSpec re api_server r w =
    (case ReconcileKubeletCgroups re api_server r' w of (res, w') \<Rightarrow> (res, r', w'))"
  using assms(1-3)
  by (simp add: ReconcileSpec_def r'_def api_ListMachineConfigPools_def api_call_Nil filterPool_fold Let_def)

section \<open>A cluster on which a reconciliation succeeds\<close>

text \<open>
  The custom resource is there and acceptable, the machine config is there or can be rendered, and
  nobody disturbs the calls.
\<close>

definition healthy :: "('b, 't) renderer \<Rightarrow> objectKey \<Rightarrow> path \<Rightarrow> cluster \<Rightarrow> bool" where
  "healthy re key dir w \<longleftrightarrow> cs_Schedule w = []
     \<and> (case cs_NodeSwaps w key of None \<Rightarrow> False
         | Some ns \<Rightarrow> key_of ns = key \<and> is_ok (Create (ns_Spec ns))
             \<and> is_ok (parseLabelSelector (sp_MachineConfigPoolSelector (ns_Spec ns))))
     \<and> (cs_MachineConfigs w SwapKubeletCgroupsMCPrefix \<noteq> None \<or> is_ok (kubelet_mc re dir))"

lemma healthyE:
  assumes "healthy re key dir w"
  obtains ns config lkey lval where "cs_Schedule w = []" "cs_NodeSwaps w key = Some ns" "key_of ns = key"
    "Create (ns_Spec ns) = Ok config"
    "parseLabelSelector (sp_MachineConfigPoolSelector (ns_Spec ns)) = Ok (lkey, lval)"
    "cs_MachineConfigs w SwapKubeletCgroupsMCPrefix \<noteq> None \<or> is_ok (kubelet_mc re dir)"
  using assms by (auto simp: healthy_def is_ok_iff split: option.splits)

text \<open>What one pass makes of a healthy cluster.\<close>

abbreviation no_kubelet_config :: "cluster \<Rightarrow> bool" where
  "no_kubelet_config w \<equiv> cs_MachineConfigs w SwapKubeletCgroupsMCPrefix = None"

definition with_kubelet_config :: "machineConfig \<Rightarrow> cluster \<Rightarrow> cluster" where
  "with_kubelet_config mc w =
     (if no_kubelet_config w
      then w\<lparr>cs_MachineConfigs := (cs_MachineConfigs w)
               (SwapKubeletCgroupsMCPrefix \<mapsto> stampMachineConfig (Suc (cs_Revision w)) mc),
             cs_Revision := Suc (cs_Revision w),
             cs_Writes := cs_Writes w @ [CreatedMachineConfig mc]\<rparr>
      else w)"

lemma with_kubelet_config_simps [simp]:
  "cs_NodeSwaps (with_kubelet_config mc w) = cs_NodeSwaps w" "cs_Pools (with_kubelet_config mc w) = cs_Pools w"
  "cs_Schedule (with_kubelet_config mc w) = cs_Schedule w" "cs_Times (with_kubelet_config mc w) = cs_Times w"
  "cs_Ticks (with_kubelet_config mc w) = cs_Ticks w"
  by (simp_all add: with_kubelet_config_def)

lemma with_kubelet_config_present: "\<not> no_kubelet_config (with_kubelet_config mc w)"
  by (simp add: with_kubelet_config_def)

lemma healthy_step:
  assumes "healthy re key dir w" and "rr_TemplateDir r = dir" and "cs_NodeSwaps w key = Some ns"
  defines "conds \<equiv> st_Conditions (ns_Status ns)"
  defines "n \<equiv> length (statusUpdates None conds)"
  defines "st \<equiv> \<lparr>st_Conditions = status_after None conds (List.map (cs_Times w) [cs_Ticks w ..< cs_Ticks w + n])\<rparr>"
  obtains r' mc where
    "Reconcile re api_server key r w = (Ok (), r', (with_kubelet_config mc w)
       \<lparr>cs_Ticks := cs_Ticks w + n,
        cs_NodeSwaps := (cs_NodeSwaps w)(key \<mapsto> fst (put_status ns st (cs_Revision (with_kubelet_config mc w)))),
        cs_Revision := snd (put_status ns st (cs_Revision (with_kubelet_config mc w))),
        cs_Writes := cs_Writes (with_kubelet_config mc w) @ [UpdatedStatus key st]\<rparr>)"
    "rr_TemplateDir r' = dir"
    "no_kubelet_config w \<Longrightarrow> kubelet_config re (r\<lparr>rr_desiredNodeSwap := ns\<rparr>) mc"
proof -
  obtain config lkey lval where h: "cs_Schedule w = []" "key_of ns = key" "Create (ns_Spec ns) = Ok config"
    "parseLabelSelector (sp_MachineConfigPoolSelector (ns_Spec ns)) = Ok (lkey, lval)"
    "cs_MachineConfigs w SwapKubeletCgroupsMCPrefix \<noteq> None \<or> is_ok (kubelet_mc re dir)"
    using healthyE [OF assms(1)] assms(3) by (metis option.inject)
  let ?r = "r\<lparr>rr_desiredNodeSwap := ns, rr_config := config, rr_mcpReady :=
      filter (\<lambda>p. pool_matches lkey lval p \<and> \<not> isMachineConfigPoolUpdated p) (cs_Pools w) = []\<rparr>"
  have get: "api_GetNodeSwap key w = (Ok ns, w)"
    by (simp add: api_GetNodeSwap_def api_call_Nil h(1) assms(3))
  have spec: "ReconcileSpec re api_server (r\<lparr>rr_desiredNodeSwap := ns\<rparr>) w =
      (case ReconcileKubeletCgroups re api_server ?r w of (res, w') \<Rightarrow> (res, ?r, w'))"
    by (subst spec_quiet [OF h(1)]) (simp_all add: h)
  obtain mc where kube: "ReconcileKubeletCgroups re api_server ?r w = (Ok (), with_kubelet_config mc w)"
    and mc: "no_kubelet_config w \<Longrightarrow> kubelet_config re (r\<lparr>rr_desiredNodeSwap := ns\<rparr>) mc"
  proof (cases "cs_MachineConfigs w SwapKubeletCgroupsMCPrefix")
    case (Some mc)
    then show ?thesis
      using that [of mc] kubelet_quiet_present [OF h(1) Some, of re ?r] by (simp add: with_kubelet_config_def)
  next
    case None
    then obtain mc where "kubelet_mc re (rr_TemplateDir r) = Ok mc" using h(5) assms(2) by (auto simp: is_ok_iff)
    then show ?thesis
      using that [of "withLabel lkey lval mc"] kubelet_quiet_absent [OF h(1) None, of re ?r mc lkey lval] None h(4)
      by (auto simp: with_kubelet_config_def kubelet_config_def)
  qed
  have "Reconcile re api_server key r w =
      (Ok (), ?r\<lparr>rr_desiredNodeSwap := fst (put_status ns st (cs_Revision (with_kubelet_config mc w)))\<rparr>,
       (with_kubelet_config mc w)
       \<lparr>cs_Ticks := cs_Ticks w + n,
        cs_NodeSwaps := (cs_NodeSwaps w)(key \<mapsto> fst (put_status ns st (cs_Revision (with_kubelet_config mc w)))),
        cs_Revision := snd (put_status ns st (cs_Revision (with_kubelet_config mc w))),
        cs_Writes := cs_Writes (with_kubelet_config mc w) @ [UpdatedStatus key st]\<rparr>)"
    by (simp add: Reconcile_def get spec kube status_quiet h(1,2) assms(3) conds_def n_def st_def del: upt_Suc)
  from that [OF this _ mc] show thesis by (simp add: assms(2))
qed

lemma healthy_mcpReady:
  assumes "healthy re key (rr_TemplateDir r) w" and "cs_NodeSwaps w key = Some ns"
    and "parseLabelSelector (sp_MachineConfigPoolSelector (ns_Spec ns)) = Ok (lkey, lval)"
    and "Reconcile re api_server key r w = (Ok (), r', w')"
    and "p \<in> set (cs_Pools w)" and "pool_matches lkey lval p" and "\<not> isMachineConfigPoolUpdated p"
  shows "\<not> rr_mcpReady r'"
proof -
  obtain config where h: "cs_Schedule w = []" "Create (ns_Spec ns) = Ok config"
    using healthyE [OF assms(1)] assms(2) by (metis option.inject)
  have get: "api_GetNodeSwap key w = (Ok ns, w)"
    by (simp add: api_GetNodeSwap_def api_call_Nil h(1) assms(2))
  have no: "filter (\<lambda>p. pool_matches lkey lval p \<and> \<not> isMachineConfigPoolUpdated p) (cs_Pools w) \<noteq> []"
    using assms(5-7) by (auto simp: filter_empty_conv)
  obtain y r2 w2 where spec: "ReconcileSpec re api_server (r\<lparr>rr_desiredNodeSwap := ns\<rparr>) w = (y, r2, w2)"
    by (metis prod_cases3)
  have r2: "\<not> rr_mcpReady r2"
    using spec no by (subst (asm) spec_quiet [OF h(1)]) (auto simp: h assms(3) split: prod.splits)
  have status: "rr_mcpReady r3 = rr_mcpReady r2" if "ReconcileStatus api_server e r2 w2 = (z, r3, w3)" for e z r3 w3
    using that by (auto simp: ReconcileStatus_def Let_def split: prod.splits result.splits)
  show ?thesis
    using assms(4) r2 status by (auto simp: Reconcile_def get spec split: result.splits prod.splits)
qed

section \<open>The status that further passes keep\<close>

definition same_report :: "condition \<Rightarrow> condition \<Rightarrow> bool" where
  "same_report old c \<longleftrightarrow> c_Status old = c_Status c \<and> c_Reason old = c_Reason c
     \<and> c_Message old = c_Message c \<and> c_ObservedGeneration old = c_ObservedGeneration c"

text \<open>A condition of the type is there and says exactly this.\<close>

definition condition_stands :: "condition list \<Rightarrow> string \<Rightarrow> string \<Rightarrow> string \<Rightarrow> string \<Rightarrow> bool" where
  "condition_stands conds t status reason message \<longleftrightarrow>
     (case FindStatusCondition conds t of
        None \<Rightarrow> False
      | Some c \<Rightarrow> c_Status c = status \<and> c_Reason c = reason \<and> c_Message c = message \<and> c_ObservedGeneration c = 0)"

text \<open>The report of a working operator: available, not degraded, not progressing.\<close>

definition settled_conditions :: "condition list \<Rightarrow> bool" where
  "settled_conditions conds \<longleftrightarrow>
     condition_stands conds typeAvailableNodeSwap ConditionTrue ''ReconciliationSucceeded'' ''NodeSwap successfully reconciled''
     \<and> condition_stands conds typeDegradedNodeSwap ConditionFalse ''ReconciliationSucceeded'' []
     \<and> condition_stands conds typeProgressingNodeSwap ConditionFalse ''ReconciliationSucceeded'' []"

lemma statusUpdates_later:
  "conds \<noteq> [] \<Longrightarrow> statusUpdates None conds =
     [newCondition typeAvailableNodeSwap ConditionTrue ''ReconciliationSucceeded'' ''NodeSwap successfully reconciled'',
      newCondition typeDegradedNodeSwap ConditionFalse ''ReconciliationSucceeded'' [],
      newCondition typeProgressingNodeSwap ConditionFalse ''ReconciliationSucceeded'' []]"
  by (simp add: statusUpdates_def)

text \<open>It is what a later success sets, so setting it again changes nothing.\<close>

lemma settled_updates:
  "settled_conditions conds \<longleftrightarrow> conds \<noteq> []
     \<and> (\<forall>c\<in>set (statusUpdates None conds).
          case FindStatusCondition conds (c_Type c) of None \<Rightarrow> False | Some old \<Rightarrow> same_report old c)"
proof (cases "conds = []")
  case True
  then show ?thesis by (simp add: settled_conditions_def condition_stands_def)
next
  case False
  then show ?thesis
    by (simp add: settled_conditions_def condition_stands_def statusUpdates_later same_report_def newCondition_def
        split: option.split)
qed

lemma setCondition_same:
  assumes "FindStatusCondition cs (c_Type c) = Some old" and "same_report old c"
  shows "setCondition now cs c = cs"
proof -
  have "updateCondition now c old = (old, False)"
    using assms(2) by (simp add: updateCondition_def same_report_def)
  then show ?thesis
    using assms(1) by (simp add: setCondition_def SetStatusCondition_def modifyFirst_id)
qed

lemma settled_status_after:
  assumes "settled_conditions conds"
  shows "status_after None conds stamps = conds"
proof -
  have "fold (\<lambda>(now, c) cs. setCondition now cs c) (zip stamps ups) conds = conds"
    if "set ups \<subseteq> set (statusUpdates None conds)" for ups
    using that
  proof (induction ups arbitrary: stamps)
    case (Cons c ups)
    then obtain old where "FindStatusCondition conds (c_Type c) = Some old" "same_report old c"
      using assms by (auto simp: settled_updates split: option.splits)
    then have "setCondition now conds c = conds" for now by (rule setCondition_same)
    with Cons show ?case by (cases stamps) auto
  qed simp
  from this [of "statusUpdates None conds"] show ?thesis by (simp add: status_after_def)
qed

lemma find_setCondition_report:
  assumes "c_LastTransitionTime c = None"
  shows "\<exists>old. FindStatusCondition (setCondition now cs c) (c_Type c) = Some old \<and> same_report old c"
  using assms by (auto simp: find_setCondition same_report_def split: option.splits)

lemma status_after_settled:
  assumes "conds \<noteq> []" and "length stamps = length (statusUpdates None conds)"
  shows "settled_conditions (status_after None conds stamps)"
proof -
  have ne: "status_after None conds stamps \<noteq> []" using assms(1) by (rule status_after_not_Nil)
  obtain n1 n2 n3 where "stamps = [n1, n2, n3]"
    using length3 [of stamps] assms by (auto simp: statusUpdates_def)
  then show ?thesis
    using ne assms(1)
    by (auto simp: settled_updates status_after_def statusUpdates_later find_setCondition
        same_report_def newCondition_def split: option.splits)
qed

lemma settled_report:
  assumes "settled_conditions conds"
  shows "condition_is conds typeAvailableNodeSwap ConditionTrue ''ReconciliationSucceeded'' ''NodeSwap successfully reconciled''"
    and "condition_is conds typeDegradedNodeSwap ConditionFalse ''ReconciliationSucceeded'' []"
    and "condition_is conds typeProgressingNodeSwap ConditionFalse ''ReconciliationSucceeded'' []"
  using assms
  by (auto simp: settled_updates statusUpdates_later condition_is_def same_report_def split: option.splits)

section \<open>Several passes\<close>

primrec passes ::
  "('b, 't) renderer \<Rightarrow> objectKey \<Rightarrow> nat \<Rightarrow> reconciler \<Rightarrow> cluster \<Rightarrow> unit result list \<times> reconciler \<times> cluster" where
  "passes re key 0 r w = ([], r, w)"
| "passes re key (Suc n) r w =
     (let (res, r, w) = Reconcile re api_server key r w; (rs, r, w) = passes re key n r w in (res # rs, r, w))"

definition creations :: "api_write list \<Rightarrow> nat" where
  "creations ws = length (filter (\<lambda>x. case x of CreatedMachineConfig _ \<Rightarrow> True | UpdatedStatus _ _ \<Rightarrow> False) ws)"

lemma creations_append [simp]: "creations (a @ b) = creations a + creations b"
  by (simp add: creations_def)

lemma creations_simps [simp]:
  "creations [] = 0" "creations (CreatedMachineConfig mc # ws) = Suc (creations ws)"
  "creations (UpdatedStatus k s # ws) = creations ws"
  by (simp_all add: creations_def)

lemma healthy_pass:
  assumes "healthy re key dir w" and "rr_TemplateDir r = dir" and "cs_NodeSwaps w key = Some ns"
  shows "\<exists>r' w' ns'. Reconcile re api_server key r w = (Ok (), r', w') \<and> rr_TemplateDir r' = dir
    \<and> healthy re key dir w' \<and> cs_NodeSwaps w' key = Some ns' \<and> ns_Spec ns' = ns_Spec ns
    \<and> st_Conditions (ns_Status ns') \<noteq> []
    \<and> (st_Conditions (ns_Status ns) \<noteq> [] \<longrightarrow> settled_conditions (st_Conditions (ns_Status ns')))
    \<and> cs_MachineConfigs w' SwapKubeletCgroupsMCPrefix \<noteq> None
    \<and> creations (cs_Writes w') =
        creations (cs_Writes w) + (if cs_MachineConfigs w SwapKubeletCgroupsMCPrefix = None then 1 else 0)"
proof -
  let ?c = "st_Conditions (ns_Status ns)"
  let ?stamps = "List.map (cs_Times w) [cs_Ticks w ..< cs_Ticks w + length (statusUpdates None ?c)]"
  let ?st = "\<lparr>st_Conditions = status_after None ?c ?stamps\<rparr>"
  obtain r' mc where step: "Reconcile re api_server key r w = (Ok (), r', (with_kubelet_config mc w)
       \<lparr>cs_Ticks := cs_Ticks w + length (statusUpdates None ?c),
        cs_NodeSwaps := (cs_NodeSwaps w)(key \<mapsto> fst (put_status ns ?st (cs_Revision (with_kubelet_config mc w)))),
        cs_Revision := snd (put_status ns ?st (cs_Revision (with_kubelet_config mc w))),
        cs_Writes := cs_Writes (with_kubelet_config mc w) @ [UpdatedStatus key ?st]\<rparr>)" (is "_ = (_, _, ?w)")
    "rr_TemplateDir r' = dir"
    by (rule healthy_step [OF assms])
  obtain ns' v where put: "put_status ns ?st (cs_Revision (with_kubelet_config mc w)) = (ns', v)" by fastforce
  note new = put_status_fields [OF put]
  have len: "length ?stamps = length (statusUpdates None ?c)" by simp
  have ne: "status_after None ?c ?stamps \<noteq> []"
  proof (cases "?c = []")
    case True
    show ?thesis using status_after_first(3) [of ?stamps] len unfolding True by (simp del: upt_Suc)
  qed (rule status_after_not_Nil)
  have settled: "settled_conditions (status_after None ?c ?stamps)" if "?c \<noteq> []"
    by (rule status_after_settled [OF that len])
  have "healthy re key dir ?w"
    using assms(1,3) with_kubelet_config_present [of mc w]
    by (auto simp: healthy_def put new simp del: upt_Suc)
  moreover have "creations (cs_Writes (with_kubelet_config mc w)) =
      creations (cs_Writes w) + (if no_kubelet_config w then 1 else 0)"
    by (simp add: with_kubelet_config_def)
  moreover have "cs_NodeSwaps ?w key = Some ns'" by (simp add: put)
  moreover have "\<not> no_kubelet_config ?w" using with_kubelet_config_present [of mc w] by simp
  ultimately show ?thesis
    using ne settled step new(1,2)
    by (intro exI [of _ r'] exI [of _ ?w] exI [of _ ns'] conjI) (simp_all del: upt_Suc)
qed

lemma passes_settled:
  assumes "healthy re key dir w" and "rr_TemplateDir r = dir" and "cs_NodeSwaps w key = Some ns"
    and "settled_conditions (st_Conditions (ns_Status ns))"
    and "cs_MachineConfigs w SwapKubeletCgroupsMCPrefix \<noteq> None"
    and "passes re key n r w = (rs, r', w')"
  shows "rs = replicate n (Ok ()) \<and> creations (cs_Writes w') = creations (cs_Writes w)
    \<and> cs_MachineConfigs w' SwapKubeletCgroupsMCPrefix \<noteq> None
    \<and> (\<exists>ns'. cs_NodeSwaps w' key = Some ns' \<and> ns_Spec ns' = ns_Spec ns
        \<and> settled_conditions (st_Conditions (ns_Status ns')))"
  using assms
proof (induction n arbitrary: r w ns rs)
  case (Suc n)
  obtain r1 w1 ns1 where p: "Reconcile re api_server key r w = (Ok (), r1, w1)" "rr_TemplateDir r1 = dir"
    "healthy re key dir w1" "cs_NodeSwaps w1 key = Some ns1" "ns_Spec ns1 = ns_Spec ns"
    "settled_conditions (st_Conditions (ns_Status ns1))"
    "cs_MachineConfigs w1 SwapKubeletCgroupsMCPrefix \<noteq> None" "creations (cs_Writes w1) = creations (cs_Writes w)"
    using healthy_pass [OF Suc.prems(1-3)] Suc.prems(4,5) by (auto simp: settled_updates)
  obtain rs1 where rs: "passes re key n r1 w1 = (rs1, r', w')" "rs = Ok () # rs1"
    using Suc.prems(6) by (auto simp: p(1) split: prod.splits)
  from Suc.IH [OF p(3,2,4,6,7) rs(1)] show ?case by (simp add: rs(2) p(5,8))
qed simp

end
