(* ===== verification/ClusterInvariant.thy ===== *)
theory ClusterInvariant
  imports ClusterSteps
begin

text \<open>
  What stays true of the cluster whatever the operator and the others do, in any order, with calls
  that fail at any point: the locale \<open>client_invariant\<close> shows once that a reconciliation keeps an
  invariant of the client's calls; \<open>reachable\<close> is the inductive set of states of the API server.
\<close>

section \<open>What the operator writes\<close>

definition own_machine_config :: "machineConfig \<Rightarrow> bool" where
  "own_machine_config mc \<longleftrightarrow>
     (\<exists>key val. key \<noteq> [] \<and> mc_Meta mc = new_meta SwapKubeletCgroupsMCPrefix
        (Some [MachineConfigRoleLabelKey \<mapsto> ''worker'', key \<mapsto> val]))"

lemma kubelet_config_own: "kubelet_config re r mc \<Longrightarrow> own_machine_config mc"
  by (erule kubelet_config_meta)
    (auto simp: own_machine_config_def SwapKubeletCgroupsMCPrefix_def parseLabelSelector_Ok_iff)

text \<open>The three reports: a failure, the first success, a later success.\<close>

definition failed_report :: "condition list \<Rightarrow> bool" where
  "failed_report conds \<longleftrightarrow>
     (\<exists>e. condition_is conds typeDegradedNodeSwap ConditionTrue ''ReconciliationFailed''
            (''Failed to reconcile: '' @ err_text e))
     \<and> condition_is conds typeProgressingNodeSwap ConditionFalse ''ReconciliationFailed'' ''Reconciliation failed''
     \<and> condition_is conds typeAvailableNodeSwap ConditionFalse ''ReconciliationFailed'' []"

definition first_report :: "condition list \<Rightarrow> bool" where
  "first_report conds \<longleftrightarrow>
     condition_is conds typeProgressingNodeSwap ConditionTrue ''Reconciling'' ''NodeSwap is reconciling''
     \<and> (\<forall>t. t \<noteq> typeProgressingNodeSwap \<longrightarrow> FindStatusCondition conds t = None)"

definition report_ok :: "condition list \<Rightarrow> bool" where
  "report_ok conds \<longleftrightarrow> failed_report conds \<or> first_report conds \<or> settled_conditions conds"

lemma status_after_report_first:
  assumes "length stamps = length (statusUpdates None [])"
  shows "first_report (status_after None [] stamps)"
proof -
  obtain now where "stamps = [now]"
    using assms by (auto simp: statusUpdates_def length_Suc_conv)
  then show ?thesis
    by (simp add: first_report_def status_after_def statusUpdates_def condition_is_def
        conditions.get_put find_setCondition)
qed

lemma status_after_report:
  assumes "length stamps = length (statusUpdates e conds)"
  shows "report_ok (status_after e conds stamps)"
proof (cases e)
  case (Some err)
  then have "failed_report (status_after e conds stamps)"
    using status_after_failure [of stamps err conds] assms by (auto simp: failed_report_def)
  then show ?thesis by (simp add: report_ok_def)
next
  case None
  show ?thesis
  proof (cases "conds = []")
    case True
    have "first_report (status_after e conds stamps)"
      using status_after_report_first [of stamps] assms by (simp add: None True)
    then show ?thesis by (simp add: report_ok_def)
  next
    case False
    then show ?thesis using status_after_settled [OF False] assms by (simp add: None report_ok_def)
  qed
qed

text \<open>No report says both \<open>Available\<close> and \<open>Degraded\<close>.\<close>

lemma report_ok_exclusive:
  assumes "report_ok conds"
    and "FindStatusCondition conds typeAvailableNodeSwap = Some a" and "c_Status a = ConditionTrue"
    and "FindStatusCondition conds typeDegradedNodeSwap = Some d"
  shows "c_Status d \<noteq> ConditionTrue"
  using assms(1) unfolding report_ok_def
proof (elim disjE)
  assume "settled_conditions conds"
  from settled_report(2) [OF this] show ?thesis by (simp add: condition_is_def assms(4))
qed (use assms(2-4) in \<open>auto simp: failed_report_def first_report_def condition_is_def\<close>)

definition write_ok :: "api_write \<Rightarrow> bool" where
  "write_ok x = (case x of CreatedMachineConfig mc \<Rightarrow> own_machine_config mc
     | UpdatedStatus k st \<Rightarrow> report_ok (st_Conditions st) \<and> conditions_wf (st_Conditions st))"

section \<open>Invariants of a client\<close>

locale client_invariant = kube_client cl writes
  for cl :: "'w client" and writes :: "'w \<Rightarrow> api_write list" +
  fixes inv :: "'w \<Rightarrow> bool"
  assumes now_inv: "inv w \<Longrightarrow> inv (snd (cl_Now cl w))"
    and get_ns_inv: "inv w \<Longrightarrow> inv (snd (cl_GetNodeSwap cl key w))"
    and get_mc_inv: "inv w \<Longrightarrow> inv (snd (cl_GetMachineConfig cl name w))"
    and list_inv: "inv w \<Longrightarrow> inv (snd (cl_ListMachineConfigPools cl w))"
    and create_inv: "inv w \<Longrightarrow> own_machine_config mc \<Longrightarrow> inv (snd (cl_CreateMachineConfig cl mc w))"
    and update_inv: "inv w \<Longrightarrow> report_ok (st_Conditions (ns_Status ns)) \<Longrightarrow>
      conditions_wf (st_Conditions (ns_Status ns)) \<Longrightarrow> inv (snd (cl_UpdateStatus cl ns w))"
    and get_ns_wf: "inv w \<Longrightarrow> fst (cl_GetNodeSwap cl key w) = Ok ns \<Longrightarrow>
      conditions_wf (st_Conditions (ns_Status ns))"
begin

lemma kubelet_inv:
  assumes "inv w"
  shows "inv (snd (ReconcileKubeletCgroups re cl r w))"
proof -
  obtain x w1 where get: "cl_GetMachineConfig cl SwapKubeletCgroupsMCPrefix w = (x, w1)" by fastforce
  have w1: "inv w1" using get_mc_inv [OF assms, of SwapKubeletCgroupsMCPrefix] by (simp add: get)
  show ?thesis
  proof (cases "\<exists>e key val mc. x = Err e \<and> isNotFound e \<and> kubelet_mc re (rr_TemplateDir r) = Ok mc
      \<and> parseLabelSelector (sp_MachineConfigPoolSelector (ns_Spec (rr_desiredNodeSwap r))) = Ok (key, val)")
    case True
    then obtain e key val mc where e: "x = Err e" "isNotFound e" "kubelet_mc re (rr_TemplateDir r) = Ok mc"
      "parseLabelSelector (sp_MachineConfigPoolSelector (ns_Spec (rr_desiredNodeSwap r))) = Ok (key, val)"
      by blast
    then have "kubelet_config re r (withLabel key val mc)" by (auto simp: kubelet_config_def)
    note own = kubelet_config_own [OF this]
    obtain y w2 where c: "cl_CreateMachineConfig cl (withLabel key val mc) w1 = (y, w2)" by fastforce
    show ?thesis
      using create_inv [OF w1 own] by (cases y) (simp_all add: ReconcileKubeletCgroups_def get e c)
  next
    case False
    then show ?thesis
      using w1 by (auto simp: ReconcileKubeletCgroups_def get split: result.split)
  qed
qed

lemma spec_inv:
  assumes "inv w"
  shows "inv (snd (snd (ReconcileSpec re cl r w)))"
proof -
  obtain x w1 where get: "cl_ListMachineConfigPools cl w = (x, w1)" by fastforce
  have w1: "inv w1" using list_inv [OF assms] by (simp add: get)
  have "inv w'" if "ReconcileKubeletCgroups re cl r' w1 = (y, w')" for r' y w'
    using kubelet_inv [OF w1, of re r'] that by simp
  then show ?thesis
    using assms w1 by (auto simp: ReconcileSpec_def get Let_def split: result.split prod.split)
qed

lemma clock_inv: "inv w \<Longrightarrow> inv (snd (fold (setConditionNow cl) ups (conds, w)))"
proof (induction ups arbitrary: conds w)
  case (Cons c ups)
  obtain t w1 where now: "cl_Now cl w = (t, w1)" by fastforce
  have "inv w1" using now_inv [OF Cons.prems] by (simp add: now)
  from Cons.IH [OF this] show ?case by (simp add: setConditionNow_def [of cl c] now)
qed simp

lemma status_inv:
  assumes "inv w" and "conditions_wf (st_Conditions (ns_Status (rr_desiredNodeSwap r)))"
  shows "inv (snd (snd (ReconcileStatus cl e r w)))"
proof -
  let ?conds = "st_Conditions (ns_Status (rr_desiredNodeSwap r))"
  obtain stamps w1 where s: "fold (setConditionNow cl) (statusUpdates e ?conds) (?conds, w) =
        (status_after e ?conds stamps, w1)"
    and len: "length stamps = length (statusUpdates e ?conds)"
    using set_conditions [of "statusUpdates e ?conds" ?conds w] by (auto simp: status_after_def)
  have "inv w1" using clock_inv [OF assms(1), of "statusUpdates e ?conds" ?conds] by (simp add: s)
  let ?ns = "(rr_desiredNodeSwap r)\<lparr>ns_Status := \<lparr>st_Conditions = status_after e ?conds stamps\<rparr>\<rparr>"
  obtain y w2 where u: "cl_UpdateStatus cl ?ns w1 = (y, w2)" by fastforce
  have "inv (snd (cl_UpdateStatus cl ?ns w1))"
    using \<open>inv w1\<close> by (rule update_inv) (simp_all add: status_after_report [OF len] status_after_wf [OF assms(2)])
  then show ?thesis by (cases y) (simp_all add: ReconcileStatus_def s u)
qed

lemma reconcile_inv:
  assumes "inv w"
  shows "inv (snd (snd (Reconcile re cl key r w)))"
proof -
  obtain x w1 where get: "cl_GetNodeSwap cl key w = (x, w1)" by fastforce
  have w1: "inv w1" using get_ns_inv [OF assms, of key] by (simp add: get)
  show ?thesis
  proof (cases x)
    case (Ok ns)
    let ?r = "r\<lparr>rr_desiredNodeSwap := ns\<rparr>"
    obtain y r2 w2 where spec: "ReconcileSpec re cl ?r w1 = (y, r2, w2)" by (metis prod_cases3)
    have w2: "inv w2" using spec_inv [OF w1, of re ?r] by (simp add: spec)
    have "conditions_wf (st_Conditions (ns_Status ns))"
      using get_ns_wf [OF assms, of key ns] by (simp add: get Ok)
    then have "conditions_wf (st_Conditions (ns_Status (rr_desiredNodeSwap r2)))"
      using spec_facts(1) [OF spec] by simp
    then have status: "inv (snd (snd (ReconcileStatus cl e r2 w2)))" for e
      by (rule status_inv [OF w2])
    then have "inv w'" if "ReconcileStatus cl e r2 w2 = (z, r', w')" for e z r' w'
      using that by (metis snd_conv)
    then show ?thesis
      using w2 status by (auto simp: Reconcile_def get Ok spec split: result.split prod.split)
  qed (use w1 in \<open>auto simp: Reconcile_def get\<close>)
qed

end

section \<open>The invariant of the API server\<close>

text \<open>
  What the others may do: the resource definition is namespaced and that of machine
  configs is not, so a \<open>NodeSwap\<close> they put has a namespace and a machine config has none; a \<open>NodeSwap\<close> has no condition type twice (\<open>+listType=map\<close>, \<open>+listMapKey=type\<close>); a call that is made to fail does not
  claim that the object exists already.
\<close>

fun action_ok :: "env_action \<Rightarrow> bool" where
  "action_ok (EnvPutNodeSwap ns) \<longleftrightarrow> om_Namespace (ns_Meta ns) \<noteq> [] \<and> conditions_wf (st_Conditions (ns_Status ns))"
| "action_ok (EnvPutMachineConfig mc) \<longleftrightarrow> om_Namespace (mc_Meta mc) = []"
| "action_ok _ = True"

definition tick_ok :: "tick \<Rightarrow> bool" where
  "tick_ok t \<longleftrightarrow> (\<forall>a\<in>set (fst t). action_ok a) \<and> (case snd t of None \<Rightarrow> True | Some e \<Rightarrow> \<not> isAlreadyExists e)"

definition cluster_ok :: "cluster \<Rightarrow> bool" where
  "cluster_ok w \<longleftrightarrow>
     (\<forall>key ns. cs_NodeSwaps w key = Some ns \<longrightarrow> key_of ns = key \<and> fst key \<noteq> []
        \<and> om_ResourceVersion (ns_Meta ns) \<le> cs_Revision w \<and> conditions_wf (st_Conditions (ns_Status ns)))
     \<and> (\<forall>name mc. cs_MachineConfigs w name = Some mc \<longrightarrow> om_Name (mc_Meta mc) = name \<and> om_Namespace (mc_Meta mc) = [])
     \<and> (\<forall>t\<in>set (cs_Schedule w). tick_ok t)
     \<and> (\<forall>x\<in>set (cs_Writes w). write_ok x)"

lemma stored_ok:
  assumes "cluster_ok w" and "cs_NodeSwaps w key = Some ns"
  shows "key_of ns = key" and "fst key \<noteq> []" and "om_ResourceVersion (ns_Meta ns) \<le> cs_Revision w"
  using assms unfolding cluster_ok_def by blast+

lemma stored_wf: "cluster_ok w \<Longrightarrow> cs_NodeSwaps w key = Some ns \<Longrightarrow> conditions_wf (st_Conditions (ns_Status ns))"
  unfolding cluster_ok_def by blast

lemma cluster_ok_put:
  assumes "cluster_ok w" and "key_of ns = key" and "fst key \<noteq> []" and "om_ResourceVersion (ns_Meta ns) \<le> v"
    and "cs_Revision w \<le> v" and "conditions_wf (st_Conditions (ns_Status ns))"
  shows "cluster_ok (w\<lparr>cs_NodeSwaps := (cs_NodeSwaps w)(key \<mapsto> ns), cs_Revision := v\<rparr>)"
proof -
  have "key_of ns' = key' \<and> fst key' \<noteq> [] \<and> om_ResourceVersion (ns_Meta ns') \<le> v
      \<and> conditions_wf (st_Conditions (ns_Status ns'))"
    if "((cs_NodeSwaps w)(key \<mapsto> ns)) key' = Some ns'" for key' ns'
  proof (cases "key' = key")
    case False
    then have "cs_NodeSwaps w key' = Some ns'" using that by simp
    with stored_ok [OF assms(1) this] stored_wf [OF assms(1) this] assms(5) show ?thesis by simp
  qed (use that assms(2-6) in simp)
  with assms(1) show ?thesis unfolding cluster_ok_def by simp
qed

lemma cluster_ok_write: "cluster_ok w \<Longrightarrow> write_ok x \<Longrightarrow> cluster_ok (w\<lparr>cs_Writes := cs_Writes w @ [x]\<rparr>)"
  by (auto simp: cluster_ok_def)

lemma env_step_ok: "cluster_ok w \<Longrightarrow> action_ok a \<Longrightarrow> cluster_ok (env_step a w)"
  by (cases a) (auto simp: cluster_ok_def key_of_def stampNodeSwap_def le_Suc_eq)

lemma put_status_ok:
  assumes "cluster_ok w" and "cs_NodeSwaps w key = Some stored" and "put_status stored st (cs_Revision w) = (new, v)"
  shows "key_of new = key" and "om_ResourceVersion (ns_Meta new) \<le> v" and "cs_Revision w \<le> v" and "fst key \<noteq> []"
  using put_status_fields [OF assms(3)] stored_ok [OF assms(1,2)] by auto

lemma env_steps_ok: "cluster_ok w \<Longrightarrow> \<forall>a\<in>set acts. action_ok a \<Longrightarrow> cluster_ok (fold env_step acts w)"
  by (induction acts arbitrary: w) (auto simp: env_step_ok)

lemma begin_call_ok:
  assumes "cluster_ok w" and "begin_call w = (f, w')"
  shows "cluster_ok w'" and "f = Some e \<Longrightarrow> \<not> isAlreadyExists e"
proof -
  have "cluster_ok w' \<and> (f = Some e \<longrightarrow> \<not> isAlreadyExists e)"
  proof (cases "cs_Schedule w")
    case Nil
    then show ?thesis using assms by simp
  next
    case (Cons t rest)
    obtain acts fault where t: "t = (acts, fault)" by fastforce
    have tick: "tick_ok (acts, fault)" using assms(1) Cons t by (simp add: cluster_ok_def)
    have "cluster_ok (w\<lparr>cs_Schedule := rest\<rparr>)" using assms(1) Cons by (simp add: cluster_ok_def)
    then have "cluster_ok (fold env_step acts (w\<lparr>cs_Schedule := rest\<rparr>))"
      using tick by (intro env_steps_ok) (simp_all add: tick_ok_def)
    then show ?thesis using assms(2) tick by (auto simp: begin_call_def Cons t tick_ok_def)
  qed
  then show "cluster_ok w'" "f = Some e \<Longrightarrow> \<not> isAlreadyExists e" by auto
qed

lemma api_call_ok:
  assumes "cluster_ok w" and "\<And>w. cluster_ok w \<Longrightarrow> cluster_ok (snd (effect w))"
  shows "cluster_ok (snd (api_call effect w))"
  using assms begin_call_ok(1) [OF assms(1)] by (auto simp: api_call_def split: prod.split option.split)

interpretation cluster: client_invariant api_server cs_Writes cluster_ok
proof unfold_locales
  fix w
  assume w: "cluster_ok w"
  then show "cluster_ok (snd (cl_Now api_server w))" by (simp add: api_Now_def cluster_ok_def)
  fix key name ns mc
  show "cluster_ok (snd (cl_GetNodeSwap api_server key w))" "cluster_ok (snd (cl_GetMachineConfig api_server name w))"
    "cluster_ok (snd (cl_ListMachineConfigPools api_server w))"
    unfolding api_server_simps api_defs using w by (auto intro!: api_call_ok)
  show "cluster_ok (snd (cl_CreateMachineConfig api_server mc w))" if "own_machine_config mc"
    unfolding api_server_simps api_defs
    using w by (rule api_call_ok) (use that in \<open>auto simp: Let_def cluster_ok_def write_ok_def own_machine_config_def le_Suc_eq\<close>)
  show "cluster_ok (snd (cl_UpdateStatus api_server ns w))"
    if "report_ok (st_Conditions (ns_Status ns))" "conditions_wf (st_Conditions (ns_Status ns))"
    unfolding api_server_simps api_defs
  proof (rule api_call_ok [OF w])
    fix w
    assume w: "cluster_ok w"
    show "cluster_ok (snd (case cs_NodeSwaps w (key_of ns) of
       None \<Rightarrow> (Err (not_found ''nodeswaps.node-swap.openshift.io'' (om_Name (ns_Meta ns))), w)
     | Some stored \<Rightarrow>
         if om_ResourceVersion (ns_Meta stored) \<noteq> om_ResourceVersion (ns_Meta ns)
         then (Err (conflict ''nodeswaps.node-swap.openshift.io'' (om_Name (ns_Meta ns))), w)
         else
           let (new, v) = put_status stored (ns_Status ns) (cs_Revision w) in
           (Ok new, w\<lparr>cs_NodeSwaps := (cs_NodeSwaps w)(key_of ns \<mapsto> new), cs_Revision := v,
                      cs_Writes := cs_Writes w @ [UpdatedStatus (key_of ns) (ns_Status ns)]\<rparr>)))"
    proof (cases "cs_NodeSwaps w (key_of ns)")
      case (Some stored)
      obtain new v where put: "put_status stored (ns_Status ns) (cs_Revision w) = (new, v)" by fastforce
      show ?thesis
        using cluster_ok_write [OF cluster_ok_put [OF w put_status_ok(1,4,2,3) [OF w Some put]],
            of "UpdatedStatus (key_of ns) (ns_Status ns)"] put_status_fields(1) [OF put] that w
        by (simp add: Some put write_ok_def)
    qed (use w in simp)
  qed
  show "conditions_wf (st_Conditions (ns_Status ns))" if "fst (cl_GetNodeSwap api_server key w) = Ok ns"
    using that begin_call_ok(1) [OF w] stored_wf
    by (auto simp: api_GetNodeSwap_def api_call_def split: prod.splits option.splits)
qed

section \<open>The machine config after a successful pass\<close>

lemma update_stored:
  "api_UpdateStatus ns w = (Ok stored, w') \<Longrightarrow>
     ns_Status stored = ns_Status ns \<and> cs_NodeSwaps w' (key_of ns) = Some stored"
  by (auto simp: api_UpdateStatus_def api_call_def Let_def put_status_fields(1)
      split: prod.splits option.splits if_splits)

lemma get_mc_present:
  "api_GetMachineConfig name w = (Ok mc, w') \<Longrightarrow> cs_MachineConfigs w' name = Some mc"
  by (auto simp: api_GetMachineConfig_def api_call_def split: prod.splits option.splits)

lemma create_mc_present:
  assumes "cluster_ok w" and "api_CreateMachineConfig mc w = (x, w')"
    and "is_ok x \<or> (\<exists>e. x = Err e \<and> isAlreadyExists e)"
  shows "cs_MachineConfigs w' (om_Name (mc_Meta mc)) \<noteq> None"
  using assms begin_call_ok(2) [OF assms(1)]
  by (auto simp: api_CreateMachineConfig_def api_call_def Let_def split: prod.splits option.splits if_splits)

lemma kubelet_present:
  assumes "cluster_ok w" and "ReconcileKubeletCgroups re api_server r w = (Ok (), w')"
  shows "cs_MachineConfigs w' SwapKubeletCgroupsMCPrefix \<noteq> None"
proof -
  obtain x w1 where get: "api_GetMachineConfig SwapKubeletCgroupsMCPrefix w = (x, w1)" by fastforce
  have w1: "cluster_ok w1" using cluster.get_mc_inv [OF assms(1), of SwapKubeletCgroupsMCPrefix] by (simp add: get)
  show ?thesis
  proof (cases x)
    case (Ok mc)
    then show ?thesis
      using get_mc_present [OF get [unfolded Ok]] assms(2) get by (simp add: ReconcileKubeletCgroups_def)
  next
    case (Err e)
    then obtain mc key val where ok: "isNotFound e" "kubelet_mc re (rr_TemplateDir r) = Ok mc"
      "parseLabelSelector (sp_MachineConfigPoolSelector (ns_Spec (rr_desiredNodeSwap r))) = Ok (key, val)"
      using assms(2) get
      by (auto simp: ReconcileKubeletCgroups_def split: if_splits result.splits prod.splits)
    obtain y w2 where c: "api_CreateMachineConfig (withLabel key val mc) w1 = (y, w2)" by fastforce
    have "w' = w2 \<and> (is_ok y \<or> (\<exists>e. y = Err e \<and> isAlreadyExists e))"
      using assms(2) get Err ok c by (cases y) (auto simp: ReconcileKubeletCgroups_def split: if_splits)
    then show ?thesis
      using create_mc_present [OF w1 c] kubelet_mc_name [OF ok(2)] by simp
  qed (use assms(2) get in \<open>simp add: ReconcileKubeletCgroups_def\<close>)
qed

lemma spec_present:
  assumes "cluster_ok w" and "ReconcileSpec re api_server r w = (Ok (), r', w')"
  shows "cs_MachineConfigs w' SwapKubeletCgroupsMCPrefix \<noteq> None"
proof -
  obtain x w1 where l: "api_ListMachineConfigPools w = (x, w1)" by fastforce
  have w1: "cluster_ok w1" using cluster.list_inv [OF assms(1)] by (simp add: l)
  obtain r1 where "ReconcileKubeletCgroups re api_server r1 w1 = (Ok (), w')"
    using assms(2) l by (auto simp: ReconcileSpec_def Let_def split: result.splits prod.splits)
  then show ?thesis by (rule kubelet_present [OF w1])
qed

section \<open>Reachable states\<close>

text \<open>
  A run of the operator: the others act, choose what will disturb the coming calls, the operator
  reconciles some key (whatever the outcome, a panic included, after which it starts afresh with any
  state of its own).
\<close>

inductive reachable :: "('b, 't) renderer \<Rightarrow> reconciler \<Rightarrow> cluster \<Rightarrow> bool" for re where
  start: "reachable re r \<lparr>cs_NodeSwaps = Map.empty, cs_MachineConfigs = Map.empty, cs_Pools = [],
    cs_Schedule = [], cs_Times = stamps, cs_Ticks = 0, cs_Revision = 0, cs_Writes = []\<rparr>"
| act: "reachable re r w \<Longrightarrow> action_ok a \<Longrightarrow> reachable re r (env_step a w)"
| disturb: "reachable re r w \<Longrightarrow> \<forall>t\<in>set ticks. tick_ok t \<Longrightarrow> reachable re r (w\<lparr>cs_Schedule := ticks\<rparr>)"
| reconcile: "reachable re r w \<Longrightarrow> Reconcile re api_server key r w = (res, r', w') \<Longrightarrow> reachable re r' w'"
| restart: "reachable re r w \<Longrightarrow> reachable re r' w"

lemma reachable_ok: "reachable re r w \<Longrightarrow> cluster_ok w"
proof (induction rule: reachable.induct)
  case (start r stamps)
  show ?case by (simp add: cluster_ok_def)
next
  case (act r w a)
  from act.IH act.hyps(2) show ?case by (rule env_step_ok)
next
  case (disturb r w ticks)
  then show ?case by (simp add: cluster_ok_def)
next
  case (reconcile r w key res r' w')
  from cluster.reconcile_inv [OF reconcile.IH, of re key r] reconcile.hyps(2) show ?case by simp
qed

end
