(* ===== verification/ReconcilerSpec.thy ===== *)
theory ReconcilerSpec
  imports ClusterInvariant
begin

text \<open>
  The properties of the reconciler. Those about any schedule of disturbances follow from the locales
  \<open>kube_client\<close> and \<open>client_invariant\<close> through their interpretations on the API server; those about
  a quiet cluster from the closed form of a pass. The witnesses use the renderer of the template
  witnesses and a cluster with one \<open>NodeSwap\<close>.
\<close>

section \<open>A concrete cluster\<close>

definition sample_spec :: nodeSwapSpec where
  "sample_spec = \<lparr>sp_MachineConfigPoolSelector = ''pool:workers'', sp_Swaps = [sample_swap], sp_LogLevel = None\<rparr>"

definition sample_ns :: "condition list \<Rightarrow> nodeSwap" where
  "sample_ns conds = \<lparr>ns_Meta = (new_meta ''swap'' None)\<lparr>om_Namespace := ''default'', om_ResourceVersion := 1\<rparr>,
     ns_Spec = sample_spec, ns_Status = \<lparr>st_Conditions = conds\<rparr>\<rparr>"

definition sample_key :: objectKey where "sample_key = (''default'', ''swap'')"

definition sample_pool :: machineConfigPool where
  "sample_pool = \<lparr>mp_Name = ''workers'', mp_Selector = Some (Some [''pool'' \<mapsto> ''workers'']),
     mp_Conditions = [\<lparr>pc_Type = ''Updated'', pc_Status = ''True''\<rparr>, \<lparr>pc_Type = ''Degraded'', pc_Status = ''True''\<rparr>]\<rparr>"

definition sample_cluster :: "condition list \<Rightarrow> cluster" where
  "sample_cluster conds =
     \<lparr>cs_NodeSwaps = [sample_key \<mapsto> sample_ns conds], cs_MachineConfigs = Map.empty, cs_Pools = [sample_pool],
      cs_Schedule = [], cs_Times = (\<lambda>i. int i), cs_Ticks = 0, cs_Revision = 1, cs_Writes = []\<rparr>"

definition sample_reconciler :: reconciler where
  "sample_reconciler = \<lparr>rr_TemplateDir = [''templates''], rr_config = [], rr_desiredNodeSwap = sample_ns [],
     rr_mcpReady = False\<rparr>"

lemma sample_selector: "parseLabelSelector ''pool:workers'' = Ok (''pool'', ''workers'')"
  unfolding parseLabelSelector_Ok_iff
  by (intro exI [of _ "''pool''"] exI [of _ "''workers''"]) (simp add: trim_space_word byte_def)

lemma sample_Create: "Create sample_spec = Ok [\<lparr>rc_Name = ''99-filebased-swap-0'', rc_Index = 0,
    rc_EnableFileBasedSwap = False, rc_EnableDiskBasedSwap = False, rc_EnableZramBasedSwap = False,
    rc_SwapFileSize = ''4Gi'', rc_SwapFilePath = ''/var/swap'', rc_SwapDevicePriotiry = 10\<rparr>]"
  by (simp add: Create_def sample_spec_def render_eq generateName_def sample_swap_def mkswap_4Gi zeroRenderConfig_def
      FileBasedSwapMCPrefix_def format_int_def fmt_nat_eval)

lemma sample_healthy: "healthy sample_renderer sample_key [''templates''] (sample_cluster conds)"
  using sample_mc [of zeroRenderConfig]
  by (simp add: healthy_def sample_cluster_def sample_ns_def sample_key_def key_of_def sample_Create)
    (simp add: sample_spec_def sample_selector)

text \<open>The cluster with another spec, and what the operator reads there.\<close>

definition sample_cluster_of :: "nodeSwapSpec \<Rightarrow> cluster" where
  "sample_cluster_of spec = (sample_cluster [])\<lparr>cs_NodeSwaps := [sample_key \<mapsto> (sample_ns [])\<lparr>ns_Spec := spec\<rparr>]\<rparr>"

lemma sample_get: "api_GetNodeSwap sample_key (sample_cluster conds) = (Ok (sample_ns conds), sample_cluster conds)"
  by (simp add: api_GetNodeSwap_def api_call_Nil sample_cluster_def)

lemma sample_get_of:
  "api_GetNodeSwap sample_key (sample_cluster_of spec) = (Ok ((sample_ns [])\<lparr>ns_Spec := spec\<rparr>), sample_cluster_of spec)"
  by (simp add: api_GetNodeSwap_def api_call_Nil sample_cluster_of_def sample_cluster_def)

lemma sample_key_of: "key_of ((sample_ns conds)\<lparr>ns_Spec := spec\<rparr>) = sample_key" "key_of (sample_ns conds) = sample_key"
  by (simp_all add: key_of_def sample_ns_def sample_key_def)

lemma sample_cluster_writes [simp]: "cs_Writes (sample_cluster conds) = []" "cs_Writes (sample_cluster_of spec) = []"
  by (simp_all add: sample_cluster_def sample_cluster_of_def)

lemma sample_spec_step:
  "\<exists>r' w'. ReconcileSpec sample_renderer api_server (sample_reconciler\<lparr>rr_desiredNodeSwap := sample_ns conds\<rparr>)
      (sample_cluster conds) = (Ok (), r', w')"
proof -
  have w: "cs_Schedule (sample_cluster conds) = []"
    "cs_MachineConfigs (sample_cluster conds) SwapKubeletCgroupsMCPrefix = None"
    by (simp_all add: sample_cluster_def)
  have sel: "sp_MachineConfigPoolSelector sample_spec = ''pool:workers''" by (simp add: sample_spec_def)
  have ns: "ns_Spec (sample_ns conds) = sample_spec" by (simp add: sample_ns_def)
  show ?thesis
    by (subst spec_quiet [OF w(1)], simp add: ns sample_Create, simp add: ns sel sample_selector)
      (simp add: kubelet_quiet_absent [OF w] sample_mc sample_reconciler_def ns sel sample_selector)
qed

section \<open>The selector and the pools\<close>

text \<open>
  A selector is accepted exactly when it has a colon and something other than space before the
  first one; key and value are the trimmed parts around that colon, the value may be empty and may
  hold further colons, and no selector makes the parser panic.
\<close>

theorem label_selector_format:
  "(parseLabelSelector s = Ok (k, v) \<longleftrightarrow>
     (\<exists>a b. s = a @ CHR '':'' # b \<and> CHR '':'' \<notin> set a \<and> k = trim_space a \<and> v = trim_space b \<and> k \<noteq> []))
   \<and> no_panic (parseLabelSelector s)"
  by (simp add: parseLabelSelector_Ok_iff)

text \<open>
  In a pass that gets as far as the pools, \<open>mcpReady\<close> becomes true exactly when every pool whose
  \<open>MatchLabels\<close> bind the selector's key to its value is updated: the last \<open>Updated\<close> condition of the
  pool says \<open>True\<close>, and neither the last \<open>Updating\<close> nor the last \<open>Degraded\<close> condition does.
\<close>

theorem mcp_ready_iff_pools_updated:
  assumes "cs_Schedule w = []" and "Create (ns_Spec (rr_desiredNodeSwap r)) = Ok config"
    and "parseLabelSelector (sp_MachineConfigPoolSelector (ns_Spec (rr_desiredNodeSwap r))) = Ok (key, val)"
    and "ReconcileSpec re api_server r w = (res, r', w')"
  shows "rr_config r' = config
    \<and> (rr_mcpReady r' \<longleftrightarrow> (\<forall>p\<in>set (cs_Pools w).
          (\<exists>m. mp_Selector p = Some (Some m) \<and> m key = Some val) \<longrightarrow>
          last_status ''Updated'' (mp_Conditions p) = Some ConditionTrue
          \<and> last_status ''Updating'' (mp_Conditions p) \<noteq> Some ConditionTrue
          \<and> last_status ''Degraded'' (mp_Conditions p) \<noteq> Some ConditionTrue))"
proof -
  have "r' = r\<lparr>rr_config := config, rr_mcpReady :=
      filter (\<lambda>p. pool_matches key val p \<and> \<not> isMachineConfigPoolUpdated p) (cs_Pools w) = []\<rparr>"
    using spec_quiet [OF assms(1-3), of re] assms(4) by (simp split: prod.splits)
  then show ?thesis
    by (auto simp: filter_empty_conv pool_matches_def isMachineConfigPoolUpdated_def poolStep_fold pool_type_defs)
qed

theorem mcp_ready_iff_pools_updated_witness:
  "\<not> rr_mcpReady (fst (snd (ReconcileSpec sample_renderer api_server sample_reconciler (sample_cluster []))))"
proof -
  obtain res r' w' where
    s: "ReconcileSpec sample_renderer api_server sample_reconciler (sample_cluster []) = (res, r', w')"
    by (metis prod_cases3)
  have "cs_Schedule (sample_cluster []) = []" by (simp add: sample_cluster_def)
  moreover have "Create (ns_Spec (rr_desiredNodeSwap sample_reconciler)) = Create sample_spec"
    and "parseLabelSelector (sp_MachineConfigPoolSelector (ns_Spec (rr_desiredNodeSwap sample_reconciler))) =
      Ok (''pool'', ''workers'')"
    by (simp_all add: sample_reconciler_def sample_ns_def) (simp add: sample_spec_def sample_selector)
  ultimately show ?thesis
    using mcp_ready_iff_pools_updated [OF _ _ _ s, of _ "''pool''" "''workers''"] sample_Create s
    by (auto simp: sample_cluster_def sample_pool_def last_status_def ConditionTrue_def)
qed

section \<open>What a pass writes\<close>

text \<open>
  However the calls of a pass are disturbed and fail, the pass creates at most one machine config
  and after that updates at most one status, both for the \<open>NodeSwap\<close> it read.
\<close>

theorem reconcile_writes_bounded:
  assumes "Reconcile re api_server key r w = (res, r', w')"
  shows "\<exists>mcs sts. cs_Writes w' = cs_Writes w @ mcs @ sts \<and> length mcs \<le> 1 \<and> length sts \<le> 1
    \<and> (\<forall>x\<in>set mcs. \<exists>ns mc. fst (api_GetNodeSwap key w) = Ok ns
         \<and> kubelet_config re (r\<lparr>rr_desiredNodeSwap := ns\<rparr>) mc \<and> x = CreatedMachineConfig mc)
    \<and> (\<forall>x\<in>set sts. \<exists>ns st. fst (api_GetNodeSwap key w) = Ok ns \<and> x = UpdatedStatus (key_of ns) st)"
  using api.reconcile_writes [OF assms] by simp

theorem reconcile_writes_bounded_witness:
  "\<exists>mcs sts. cs_Writes (snd (snd (Reconcile sample_renderer api_server sample_key sample_reconciler (sample_cluster [])))) =
     mcs @ sts \<and> length mcs \<le> 1 \<and> length sts \<le> 1"
proof -
  obtain res r' w' where
    s: "Reconcile sample_renderer api_server sample_key sample_reconciler (sample_cluster []) = (res, r', w')"
    by (metis prod_cases3)
  have "cs_Writes (sample_cluster []) = []" by (simp add: sample_cluster_def)
  with reconcile_writes_bounded [OF s] show ?thesis unfolding s by auto
qed

text \<open>
  C8: if the spec cannot be reconciled, the error is never lost: either it is returned and the last
  write of the pass is a status that says \<open>Degraded\<close> with the text of the error, not \<open>Progressing\<close> and
  not \<open>Available\<close>, or the status could not be written and both texts are in the returned error.
\<close>

theorem reconcile_failure_reported:
  assumes "api_GetNodeSwap key w = (Ok ns, w1)"
    and "ReconcileSpec re api_server (r\<lparr>rr_desiredNodeSwap := ns\<rparr>) w1 = (Err e, r2, w2)"
    and "Reconcile re api_server key r w = (res, r', w')"
  shows "(res = Err e \<and> (\<exists>conds. cs_Writes w' = cs_Writes w @ [UpdatedStatus (key_of ns) \<lparr>st_Conditions = conds\<rparr>]
        \<and> condition_is conds typeDegradedNodeSwap ConditionTrue ''ReconciliationFailed'' (''Failed to reconcile: '' @ err_text e)
        \<and> condition_is conds typeProgressingNodeSwap ConditionFalse ''ReconciliationFailed'' ''Reconciliation failed''
        \<and> condition_is conds typeAvailableNodeSwap ConditionFalse ''ReconciliationFailed'' []))
    \<or> (\<exists>se. res = Err (ErrText (''reconcile error: '' @ err_text e @ '', status update error: '' @ err_text se))
        \<and> cs_Writes w' = cs_Writes w)"
proof -
  obtain stamps where "length stamps = length (statusUpdates (Some e) (st_Conditions (ns_Status ns)))"
    and out: "(res = Err e \<and> cs_Writes w' = cs_Writes w @
          [UpdatedStatus (key_of ns) \<lparr>st_Conditions = status_after (Some e) (st_Conditions (ns_Status ns)) stamps\<rparr>])
       \<or> (\<exists>se. res = Err (ErrText (''reconcile error: '' @ err_text e @ '', status update error: '' @ err_text se))
            \<and> cs_Writes w' = cs_Writes w)"
    using api.reconcile_failure [of key w ns w1 re r e r2 w2 res r' w'] assms by auto
  note report = status_after_failure [OF this(1)]
  show ?thesis using out report by blast
qed

theorem reconcile_failure_reported_witness:
  "\<exists>r' w' conds. Reconcile sample_renderer api_server sample_key sample_reconciler
        (sample_cluster_of (sample_spec\<lparr>sp_MachineConfigPoolSelector := []\<rparr>)) =
      (Err (ErrText ''label selector is empty''), r', w')
    \<and> cs_Writes w' = [UpdatedStatus sample_key \<lparr>st_Conditions = conds\<rparr>]
    \<and> condition_is conds ''Degraded'' ''True'' ''ReconciliationFailed'' ''Failed to reconcile: label selector is empty''"
proof -
  let ?spec = "sample_spec\<lparr>sp_MachineConfigPoolSelector := []\<rparr>"
  let ?w = "sample_cluster_of ?spec" and ?ns = "(sample_ns [])\<lparr>ns_Spec := sample_spec\<lparr>sp_MachineConfigPoolSelector := []\<rparr>\<rparr>"
  have "Create ?spec = Create sample_spec" by (simp add: Create_def)
  then obtain r2 w2 where spec: "ReconcileSpec sample_renderer api_server (sample_reconciler\<lparr>rr_desiredNodeSwap := ?ns\<rparr>) ?w =
      (Err (ErrText ''label selector is empty''), r2, w2)" and w2: "w2 = ?w"
    by (simp add: ReconcileSpec_def sample_Create api_ListMachineConfigPools_def api_call_Nil
        sample_cluster_of_def sample_cluster_def parseLabelSelector_def)
  obtain res r' w' where run: "Reconcile sample_renderer api_server sample_key sample_reconciler ?w = (res, r', w')"
    by (metis prod_cases3)
  have sched: "cs_Schedule ?w = []" by (simp add: sample_cluster_of_def sample_cluster_def)
  have stored: "cs_NodeSwaps ?w sample_key = Some ?ns" by (simp add: sample_cluster_of_def)
  have "res = Err (ErrText ''label selector is empty'')"
  proof -
    have "rr_desiredNodeSwap r2 = ?ns" using api.spec_facts(1) [OF spec] by simp
    then show ?thesis
      using run spec w2 sched stored
      by (simp add: Reconcile_def sample_get_of status_quiet sample_key_of)
  qed
  with reconcile_failure_reported [OF sample_get_of spec run] run show ?thesis
    by (auto simp: sample_key_of type_defs ConditionTrue_def)
qed

text \<open>
  If the spec was reconciled, the last write of the pass is the status: the first time (no
  conditions yet) it says \<open>Progressing\<close> and nothing about availability, and any later time it says
  \<open>Available\<close>, not \<open>Degraded\<close> and not \<open>Progressing\<close>; if it cannot be written, that error is returned.
\<close>

theorem reconcile_success_reported:
  assumes "api_GetNodeSwap key w = (Ok ns, w1)"
    and "ReconcileSpec re api_server (r\<lparr>rr_desiredNodeSwap := ns\<rparr>) w1 = (Ok (), r2, w2)"
    and "Reconcile re api_server key r w = (res, r', w')"
  shows "(res = Ok () \<and> (\<exists>conds. cs_Writes w' = cs_Writes w2 @ [UpdatedStatus (key_of ns) \<lparr>st_Conditions = conds\<rparr>]
        \<and> (if st_Conditions (ns_Status ns) = [] then
             condition_is conds typeProgressingNodeSwap ConditionTrue ''Reconciling'' ''NodeSwap is reconciling''
             \<and> FindStatusCondition conds typeAvailableNodeSwap = None
           else
             condition_is conds typeAvailableNodeSwap ConditionTrue ''ReconciliationSucceeded'' ''NodeSwap successfully reconciled''
             \<and> condition_is conds typeDegradedNodeSwap ConditionFalse ''ReconciliationSucceeded'' []
             \<and> condition_is conds typeProgressingNodeSwap ConditionFalse ''ReconciliationSucceeded'' [])))
    \<or> (\<exists>se. res = Err se \<and> cs_Writes w' = cs_Writes w2)"
proof -
  obtain stamps where "length stamps = length (statusUpdates None (st_Conditions (ns_Status ns)))"
    and out: "(res = Ok () \<and> cs_Writes w' = cs_Writes w2 @
          [UpdatedStatus (key_of ns) \<lparr>st_Conditions = status_after None (st_Conditions (ns_Status ns)) stamps\<rparr>])
       \<or> (\<exists>se. res = Err se \<and> cs_Writes w' = cs_Writes w2)"
    using api.reconcile_success [of key w ns w1 re r r2 w2 res r' w'] assms by auto
  then show ?thesis
    using status_after_first [of stamps] status_after_later [of _ stamps] by auto
qed

theorem reconcile_success_reported_witness:
  "\<exists>res r' w'. Reconcile sample_renderer api_server sample_key sample_reconciler (sample_cluster []) = (res, r', w')
    \<and> ((\<exists>ws conds. cs_Writes w' = ws @ [UpdatedStatus sample_key \<lparr>st_Conditions = conds\<rparr>]
          \<and> condition_is conds ''Progressing'' ''True'' ''Reconciling'' ''NodeSwap is reconciling'')
        \<or> (\<exists>se. res = Err se))"
proof -
  obtain r2 w2 where spec: "ReconcileSpec sample_renderer api_server (sample_reconciler\<lparr>rr_desiredNodeSwap := sample_ns []\<rparr>)
      (sample_cluster []) = (Ok (), r2, w2)" using sample_spec_step by blast
  obtain res r' w' where run: "Reconcile sample_renderer api_server sample_key sample_reconciler (sample_cluster []) = (res, r', w')"
    by (metis prod_cases3)
  have none: "st_Conditions (ns_Status (sample_ns [])) = []" by (simp add: sample_ns_def)
  show ?thesis
    using reconcile_success_reported [OF sample_get spec run] run
    by (auto simp: none sample_key_of type_defs ConditionTrue_def)
qed

section \<open>The status as a state machine\<close>

text \<open>
  The abstract view of a status, read off the conditions alone: nothing reported yet; available, with
  \<open>Available\<close> true and \<open>Degraded\<close> and \<open>Progressing\<close> false (\<open>settled_conditions\<close>); failed, with \<open>Degraded\<close>
  true and the other two false (\<open>failed_report\<close>); started, with \<open>Progressing\<close> true and no other condition
  (\<open>first_report\<close>); or none of these. A pass makes one step of it, which depends only on whether the spec
  was reconciled.
\<close>

datatype phase = Fresh | Started | Available | Failed | Foreign

definition phase_of :: "condition list \<Rightarrow> phase" where
  "phase_of conds =
     (if conds = [] then Fresh
      else if settled_conditions conds then Available
      else if failed_report conds then Failed
      else if first_report conds then Started
      else Foreign)"

fun next_phase :: "bool \<Rightarrow> phase \<Rightarrow> phase" where
  "next_phase failed p = (if failed then Failed else if p = Fresh then Started else Available)"

lemma failed_not_settled: "failed_report conds \<Longrightarrow> \<not> settled_conditions conds"
  using settled_report(2) [of conds] by (auto simp: failed_report_def condition_is_def)

lemma first_report_other:
  assumes "first_report conds"
  shows "\<not> settled_conditions conds" and "\<not> failed_report conds"
  using assms settled_report(1) [of conds]
  by (auto simp: first_report_def failed_report_def condition_is_def)

lemma phase_status_after:
  assumes "length stamps = length (statusUpdates e conds)"
  shows "phase_of (status_after e conds stamps) = next_phase (e \<noteq> None) (phase_of conds)"
proof (cases e)
  case (Some err)
  have f: "failed_report (status_after e conds stamps)"
    using status_after_failure [of stamps err conds] assms by (auto simp: failed_report_def Some)
  then have "status_after e conds stamps \<noteq> []" by (auto simp: failed_report_def condition_is_def)
  then show ?thesis using f failed_not_settled [OF f] by (simp add: phase_of_def Some)
next
  case None
  show ?thesis
  proof (cases "conds = []")
    case True
    have f: "first_report (status_after e conds stamps)"
      using status_after_report_first [of stamps] assms by (simp add: None True)
    moreover have "status_after e conds stamps \<noteq> []"
      using status_after_first(3) [of stamps] assms by (simp add: None True)
    ultimately show ?thesis using first_report_other [OF f] by (simp add: phase_of_def None True)
  next
    case False
    then have "settled_conditions (status_after e conds stamps)"
      using status_after_settled [OF False] assms by (simp add: None)
    moreover from this have "status_after e conds stamps \<noteq> []" by (simp add: settled_updates)
    moreover have "phase_of conds \<noteq> Fresh" using False by (simp add: phase_of_def)
    ultimately show ?thesis by (simp add: phase_of_def None)
  qed
qed

text \<open>
  C23: a status update that succeeds makes exactly one step of the abstract machine, whatever disturbed
  it: the status stored in the cluster is in the next phase, \<open>Failed\<close> after an error, \<open>Started\<close> after the
  first success and \<open>Available\<close> after any later one, and is what the operator holds.
\<close>

theorem status_refines_phases:
  assumes "ReconcileStatus api_server e r w = (Ok (), r', w')"
  shows "cs_NodeSwaps w' (key_of (rr_desiredNodeSwap r)) = Some (rr_desiredNodeSwap r')
    \<and> phase_of (st_Conditions (ns_Status (rr_desiredNodeSwap r'))) =
        next_phase (e \<noteq> None) (phase_of (st_Conditions (ns_Status (rr_desiredNodeSwap r))))"
proof -
  let ?conds = "st_Conditions (ns_Status (rr_desiredNodeSwap r))"
  obtain stamps w1 where s: "fold (setConditionNow api_server) (statusUpdates e ?conds) (?conds, w) =
        (status_after e ?conds stamps, w1)"
    and len: "length stamps = length (statusUpdates e ?conds)"
    using api.set_conditions [of "statusUpdates e ?conds" ?conds w] by (auto simp: status_after_def)
  let ?ns = "(rr_desiredNodeSwap r)\<lparr>ns_Status := \<lparr>st_Conditions = status_after e ?conds stamps\<rparr>\<rparr>"
  obtain x w2 where u: "api_UpdateStatus ?ns w1 = (x, w2)" by fastforce
  obtain stored where x: "x = Ok stored" and out: "r' = r\<lparr>rr_desiredNodeSwap := stored\<rparr>" "w' = w2"
    using assms by (cases x) (auto simp: ReconcileStatus_def s u)
  have "key_of ?ns = key_of (rr_desiredNodeSwap r)" by (simp add: key_of_def)
  with update_stored [OF u [unfolded x]] show ?thesis
    by (simp add: out phase_status_after [OF len])
qed

theorem status_refines_phases_witness:
  "\<exists>r' w'. ReconcileStatus api_server None sample_reconciler (sample_cluster []) = (Ok (), r', w')
    \<and> phase_of (st_Conditions (ns_Status (rr_desiredNodeSwap r'))) = Started"
proof -
  have "cs_Schedule (sample_cluster []) = []"
    and "cs_NodeSwaps (sample_cluster []) (key_of (rr_desiredNodeSwap sample_reconciler)) = Some (sample_ns [])"
    and "om_ResourceVersion (ns_Meta (sample_ns [])) = om_ResourceVersion (ns_Meta (rr_desiredNodeSwap sample_reconciler))"
    by (simp_all add: sample_cluster_def sample_reconciler_def sample_key_of)
  then obtain r' w' where run: "ReconcileStatus api_server None sample_reconciler (sample_cluster []) = (Ok (), r', w')"
    using status_quiet by blast
  from status_refines_phases [OF run] run show ?thesis
    by (simp add: sample_reconciler_def sample_ns_def phase_of_def)
qed

section \<open>Panics\<close>

text \<open>
  A file swap without its file section, when every swap before it is acceptable, makes the pass
  panic right after reading the object: nothing is written, so no status tells the user.
\<close>

theorem reconcile_panic_unreported:
  assumes "api_GetNodeSwap key w = (Ok ns, w1)"
    and "sp_Swaps (ns_Spec ns) = before @ sw # rest"
    and "\<forall>i<length before. is_ok (render (int i) (before ! i))"
    and "sw_SwapType sw = FileBasedSwap" and "sw_File sw = None"
  shows "\<exists>p r' w'. Reconcile re api_server key r w = (Panic p, r', w') \<and> cs_Writes w' = cs_Writes w"
proof -
  obtain p where "Create (ns_Spec ns) = Panic p"
    using assms(2-5) Create_panics by metis
  from api.reconcile_panics [of key w ns w1 p re r] this assms(1) show ?thesis by auto
qed

theorem reconcile_panic_unreported_witness:
  "\<exists>p r' w'. Reconcile sample_renderer api_server sample_key sample_reconciler
      (sample_cluster_of (sample_spec\<lparr>sp_Swaps := [sample_swap\<lparr>sw_File := None\<rparr>]\<rparr>)) = (Panic p, r', w')
    \<and> cs_Writes w' = []"
proof -
  let ?sw = "sample_swap\<lparr>sw_File := None\<rparr>"
  have "sp_Swaps (ns_Spec ((sample_ns [])\<lparr>ns_Spec := sample_spec\<lparr>sp_Swaps := [?sw]\<rparr>\<rparr>)) = [] @ ?sw # []" by simp
  from reconcile_panic_unreported [OF sample_get_of this, of sample_renderer sample_reconciler] show ?thesis
    by (simp add: sample_swap_def)
qed

text \<open>
  C32: with every file swap carrying its file section a pass never panics, whatever the schedule of
  disturbances and faults and whatever the file system of the templates holds.
\<close>

theorem reconcile_never_panics:
  assumes "renderer_ok re"
    and "\<And>ns. fst (api_GetNodeSwap key w) = Ok ns \<Longrightarrow>
      \<forall>sw\<in>set (sp_Swaps (ns_Spec ns)). sw_SwapType sw = FileBasedSwap \<longrightarrow> sw_File sw \<noteq> None"
  shows "no_panic (fst (Reconcile re api_server key r w))"
  using api.reconcile_no_panic [OF assms(1), of key w r] assms(2) by auto

theorem reconcile_never_panics_witness:
  "no_panic (fst (Reconcile sample_renderer api_server sample_key sample_reconciler (sample_cluster [])))"
  by (rule reconcile_never_panics [OF sample_renderer_ok])
    (auto simp: sample_get sample_ns_def sample_spec_def sample_swap_def)

section \<open>The machine config\<close>




section \<open>Progress\<close>

text \<open>
  C1: on a quiet cluster whose \<open>NodeSwap\<close> is acceptable, any two or more passes succeed and end with
  the status \<open>Available\<close>, not \<open>Degraded\<close>, not \<open>Progressing\<close>, with the spec as it was, the machine
  config in place, and at most one machine config created in all of them, none if it was there.
\<close>

theorem reconcile_converges:
  assumes "healthy re key (rr_TemplateDir r) w" and "cs_NodeSwaps w key = Some ns" and "2 \<le> n"
    and "passes re key n r w = (rs, r', w')"
  shows "rs = replicate n (Ok ())
    \<and> (\<exists>ns'. cs_NodeSwaps w' key = Some ns' \<and> ns_Spec ns' = ns_Spec ns
        \<and> condition_is (st_Conditions (ns_Status ns')) typeAvailableNodeSwap ConditionTrue
            ''ReconciliationSucceeded'' ''NodeSwap successfully reconciled''
        \<and> condition_is (st_Conditions (ns_Status ns')) typeDegradedNodeSwap ConditionFalse ''ReconciliationSucceeded'' []
        \<and> condition_is (st_Conditions (ns_Status ns')) typeProgressingNodeSwap ConditionFalse ''ReconciliationSucceeded'' [])
    \<and> cs_MachineConfigs w' SwapKubeletCgroupsMCPrefix \<noteq> None
    \<and> creations (cs_Writes w') = creations (cs_Writes w)
        + (if cs_MachineConfigs w SwapKubeletCgroupsMCPrefix = None then 1 else 0)"
proof -
  obtain m where m: "n = Suc (Suc m)" using assms(3) by (metis le_add_diff_inverse add_2_eq_Suc)
  from healthy_pass [OF assms(1) refl assms(2)] obtain r1 w1 ns1 where
    p1: "Reconcile re api_server key r w = (Ok (), r1, w1)" "rr_TemplateDir r1 = rr_TemplateDir r"
      "healthy re key (rr_TemplateDir r) w1" "cs_NodeSwaps w1 key = Some ns1" "ns_Spec ns1 = ns_Spec ns"
      "st_Conditions (ns_Status ns1) \<noteq> []" "cs_MachineConfigs w1 SwapKubeletCgroupsMCPrefix \<noteq> None"
      "creations (cs_Writes w1) =
        creations (cs_Writes w) + (if cs_MachineConfigs w SwapKubeletCgroupsMCPrefix = None then 1 else 0)"
    by blast
  from healthy_pass [OF p1(3,2,4)] p1(6,7) obtain r2 w2 ns2 where
    p2: "Reconcile re api_server key r1 w1 = (Ok (), r2, w2)" "rr_TemplateDir r2 = rr_TemplateDir r"
      "healthy re key (rr_TemplateDir r) w2" "cs_NodeSwaps w2 key = Some ns2" "ns_Spec ns2 = ns_Spec ns1"
      "settled_conditions (st_Conditions (ns_Status ns2))" "cs_MachineConfigs w2 SwapKubeletCgroupsMCPrefix \<noteq> None"
      "creations (cs_Writes w2) = creations (cs_Writes w1)"
    by auto
  obtain rs2 where rs: "passes re key m r2 w2 = (rs2, r', w')" "rs = Ok () # Ok () # rs2"
    using assms(4) by (auto simp: m p1(1) p2(1) split: prod.splits)
  from passes_settled [OF p2(3,2,4,6,7) rs(1)] obtain ns3 where
    p3: "rs2 = replicate m (Ok ())" "creations (cs_Writes w') = creations (cs_Writes w2)"
      "cs_MachineConfigs w' SwapKubeletCgroupsMCPrefix \<noteq> None" "cs_NodeSwaps w' key = Some ns3"
      "ns_Spec ns3 = ns_Spec ns2" "settled_conditions (st_Conditions (ns_Status ns3))"
    by blast
  show ?thesis
    using p3 settled_report [OF p3(6)] p1(5,8) p2(5,8) by (auto simp: rs(2) m)
qed

theorem reconcile_converges_witness:
  "\<exists>w'. snd (snd (passes sample_renderer sample_key 2 sample_reconciler (sample_cluster []))) = w'
    \<and> creations (cs_Writes w') = 1
    \<and> (\<exists>ns'. cs_NodeSwaps w' sample_key = Some ns'
        \<and> condition_is (st_Conditions (ns_Status ns')) ''Availabe'' ''True'' ''ReconciliationSucceeded''
            ''NodeSwap successfully reconciled'')"
proof -
  obtain rs r' w' where run: "passes sample_renderer sample_key 2 sample_reconciler (sample_cluster []) = (rs, r', w')"
    by (metis prod_cases3)
  have h: "healthy sample_renderer sample_key (rr_TemplateDir sample_reconciler) (sample_cluster [])"
    using sample_healthy by (simp add: sample_reconciler_def)
  have "cs_NodeSwaps (sample_cluster []) sample_key = Some (sample_ns [])"
    "cs_MachineConfigs (sample_cluster []) = Map.empty" by (simp_all add: sample_cluster_def)
  with reconcile_converges [OF h _ _ run, of "sample_ns []"] run show ?thesis
    by (auto simp: type_defs ConditionTrue_def)
qed

text \<open>
  C14: once the status says so, a further pass on a quiet cluster changes no object: the machine configs
  and the \<open>NodeSwap\<close>, transition times included, stay as they are, and the one write is the same
  status again.
\<close>

theorem reconcile_idempotent:
  assumes "healthy re key (rr_TemplateDir r) w" and "cs_NodeSwaps w key = Some ns"
    and "settled_conditions (st_Conditions (ns_Status ns))"
    and "cs_MachineConfigs w SwapKubeletCgroupsMCPrefix \<noteq> None"
    and "Reconcile re api_server key r w = (res, r', w')"
  shows "res = Ok () \<and> cs_NodeSwaps w' = cs_NodeSwaps w \<and> cs_MachineConfigs w' = cs_MachineConfigs w
    \<and> cs_Pools w' = cs_Pools w \<and> cs_Writes w' = cs_Writes w @ [UpdatedStatus key (ns_Status ns)]"
proof -
  have st: "\<lparr>st_Conditions = status_after None (st_Conditions (ns_Status ns)) stamps\<rparr> = ns_Status ns" for stamps
    by (simp add: settled_status_after [OF assms(3)])
  have put: "put_status ns (ns_Status ns) v = (ns, v)" for v by (simp add: put_status_def)
  have same: "(cs_NodeSwaps w)(key \<mapsto> ns) = cs_NodeSwaps w" using assms(2) by auto
  have kube: "with_kubelet_config mc w = w" for mc using assms(4) by (auto simp: with_kubelet_config_def)
  obtain r1 where "Reconcile re api_server key r w = (Ok (), r1,
       w\<lparr>cs_Ticks := cs_Ticks w + length (statusUpdates None (st_Conditions (ns_Status ns))),
         cs_NodeSwaps := cs_NodeSwaps w, cs_Revision := cs_Revision w,
         cs_Writes := cs_Writes w @ [UpdatedStatus key (ns_Status ns)]\<rparr>)"
    by (rule healthy_step [OF assms(1) refl assms(2)]) (simp only: st put kube same fst_conv snd_conv)
  then show ?thesis using assms(5) by simp
qed

definition sample_settled :: "condition list" where
  "sample_settled =
     [newCondition typeAvailableNodeSwap ConditionTrue ''ReconciliationSucceeded'' ''NodeSwap successfully reconciled'',
      newCondition typeDegradedNodeSwap ConditionFalse ''ReconciliationSucceeded'' [],
      newCondition typeProgressingNodeSwap ConditionFalse ''ReconciliationSucceeded'' []]"

definition sample_machine_config :: machineConfig where
  "sample_machine_config =
     \<lparr>mc_Meta = new_meta SwapKubeletCgroupsMCPrefix None,
      mc_OSImageURL = [], mc_Config = [], mc_Extensions = []\<rparr>"

theorem reconcile_idempotent_witness:
  "\<exists>r' w'. Reconcile sample_renderer api_server sample_key sample_reconciler
      ((sample_cluster sample_settled)\<lparr>cs_MachineConfigs := [SwapKubeletCgroupsMCPrefix \<mapsto> sample_machine_config]\<rparr>) =
      (Ok (), r', w')
    \<and> cs_NodeSwaps w' = [sample_key \<mapsto> sample_ns sample_settled]
    \<and> cs_Writes w' = [UpdatedStatus sample_key \<lparr>st_Conditions = sample_settled\<rparr>]"
proof -
  let ?w = "(sample_cluster sample_settled)\<lparr>cs_MachineConfigs := [SwapKubeletCgroupsMCPrefix \<mapsto> sample_machine_config]\<rparr>"
  obtain res r' w' where run: "Reconcile sample_renderer api_server sample_key sample_reconciler ?w = (res, r', w')"
    by (metis prod_cases3)
  have "healthy sample_renderer sample_key (rr_TemplateDir sample_reconciler) ?w"
    using sample_healthy [of sample_settled] by (simp add: healthy_def sample_reconciler_def)
  moreover have "cs_NodeSwaps ?w sample_key = Some (sample_ns sample_settled)" by (simp add: sample_cluster_def)
  moreover have "settled_conditions (st_Conditions (ns_Status (sample_ns sample_settled)))"
    by (simp add: settled_updates statusUpdates_later sample_settled_def sample_ns_def same_report_def)
  ultimately show ?thesis
    using reconcile_idempotent [OF _ _ _ _ run] run by (simp add: sample_cluster_def sample_ns_def)
qed

text \<open>
  C33: \<open>Available\<close> does not wait for the pools: on a quiet cluster with an acceptable \<open>NodeSwap\<close> that has
  a status already, the pass reports \<open>Available\<close> even though a pool of the selector is not updated;
  the reconciler has noted it in \<open>mcpReady\<close>, which nothing reads.
\<close>

theorem available_despite_pools:
  assumes "healthy re key (rr_TemplateDir r) w" and "cs_NodeSwaps w key = Some ns"
    and "st_Conditions (ns_Status ns) \<noteq> []"
    and "parseLabelSelector (sp_MachineConfigPoolSelector (ns_Spec ns)) = Ok (lkey, lval)"
    and "p \<in> set (cs_Pools w)" and "pool_matches lkey lval p" and "\<not> isMachineConfigPoolUpdated p"
  shows "\<exists>r' w' ns'. Reconcile re api_server key r w = (Ok (), r', w') \<and> \<not> rr_mcpReady r'
    \<and> cs_NodeSwaps w' key = Some ns'
    \<and> condition_is (st_Conditions (ns_Status ns')) typeAvailableNodeSwap ConditionTrue
        ''ReconciliationSucceeded'' ''NodeSwap successfully reconciled''"
proof -
  from healthy_pass [OF assms(1) refl assms(2)] assms(3) obtain r' w' ns' where
    pass: "Reconcile re api_server key r w = (Ok (), r', w')" "cs_NodeSwaps w' key = Some ns'"
      "settled_conditions (st_Conditions (ns_Status ns'))" by blast
  have "\<not> rr_mcpReady r'"
    by (rule healthy_mcpReady [OF assms(1,2,4) pass(1) assms(5-7)])
  with pass settled_report(1) [OF pass(3)] show ?thesis by blast
qed

definition sample_degraded :: "condition list" where
  "sample_degraded = [newCondition typeDegradedNodeSwap ConditionTrue ''ReconciliationFailed'' ''x'']"

theorem available_despite_pools_witness:
  "\<exists>r' w' ns'. Reconcile sample_renderer api_server sample_key sample_reconciler (sample_cluster sample_degraded) =
      (Ok (), r', w')
    \<and> mp_Conditions sample_pool ! 1 = \<lparr>pc_Type = ''Degraded'', pc_Status = ''True''\<rparr> \<and> \<not> rr_mcpReady r'
    \<and> cs_NodeSwaps w' sample_key = Some ns'
    \<and> condition_is (st_Conditions (ns_Status ns')) ''Availabe'' ''True'' ''ReconciliationSucceeded''
        ''NodeSwap successfully reconciled''"
proof -
  have "healthy sample_renderer sample_key (rr_TemplateDir sample_reconciler) (sample_cluster sample_degraded)"
    using sample_healthy by (simp add: sample_reconciler_def)
  moreover have "cs_NodeSwaps (sample_cluster sample_degraded) sample_key = Some (sample_ns sample_degraded)"
    and "sample_pool \<in> set (cs_Pools (sample_cluster sample_degraded))"
    by (simp_all add: sample_cluster_def)
  moreover have "st_Conditions (ns_Status (sample_ns sample_degraded)) \<noteq> []"
    and "parseLabelSelector (sp_MachineConfigPoolSelector (ns_Spec (sample_ns sample_degraded))) = Ok (''pool'', ''workers'')"
    by (simp_all add: sample_ns_def sample_degraded_def) (simp add: sample_spec_def sample_selector)
  moreover have "pool_matches ''pool'' ''workers'' sample_pool" and "\<not> isMachineConfigPoolUpdated sample_pool"
    by (simp_all add: pool_matches_def sample_pool_def isMachineConfigPoolUpdated_def poolStep_def pool_type_defs
        ConditionTrue_def)
  moreover have "mp_Conditions sample_pool ! 1 = \<lparr>pc_Type = ''Degraded'', pc_Status = ''True''\<rparr>"
    by (simp add: sample_pool_def)
  ultimately show ?thesis
    using available_despite_pools [of sample_renderer sample_key sample_reconciler "sample_cluster sample_degraded"]
    unfolding type_defs ConditionTrue_def by blast
qed

section \<open>Every run\<close>

lemma sample_reachable: "reachable sample_renderer sample_reconciler (sample_cluster [])"
proof -
  let ?w = "\<lparr>cs_NodeSwaps = Map.empty, cs_MachineConfigs = Map.empty, cs_Pools = [],
    cs_Schedule = [], cs_Times = (\<lambda>i. int i), cs_Ticks = 0, cs_Revision = 0, cs_Writes = []\<rparr> :: cluster"
  have "reachable sample_renderer sample_reconciler (env_step (EnvPutNodeSwap (sample_ns [])) (env_step (EnvSetPools [sample_pool]) ?w))"
    by (intro reachable.act reachable.start) (simp_all add: sample_ns_def conditions_wf_def)
  moreover have "stampNodeSwap (Suc 0) (sample_ns []) = sample_ns []" by (simp add: stampNodeSwap_def sample_ns_def)
  ultimately show ?thesis by (simp add: sample_cluster_def sample_key_of)
qed

text \<open>
  C34: in every reachable state the conditions of every stored \<open>NodeSwap\<close> have pairwise different types,
  and objects are stored under their own names.
\<close>

theorem reachable_conditions_unique:
  assumes "reachable re r w"
  shows "(\<forall>key ns. cs_NodeSwaps w key = Some ns \<longrightarrow> key_of ns = key \<and> distinct (List.map c_Type (st_Conditions (ns_Status ns))))
    \<and> (\<forall>name mc. cs_MachineConfigs w name = Some mc \<longrightarrow> om_Name (mc_Meta mc) = name)"
  using reachable_ok [OF assms] unfolding cluster_ok_def conditions_wf_def by blast

theorem reachable_conditions_unique_witness:
  "\<exists>r w ns. reachable sample_renderer r w \<and> cs_NodeSwaps w sample_key = Some ns
     \<and> distinct (List.map c_Type (st_Conditions (ns_Status ns)))"
proof -
  have "cs_NodeSwaps (sample_cluster []) sample_key = Some (sample_ns [])" by (simp add: sample_cluster_def)
  with reachable_conditions_unique [OF sample_reachable] sample_reachable show ?thesis by blast
qed

text \<open>
  C4: in every run the operator writes only two things: the machine config
  \<open>99-swap-kubelet-cgroups\<close>, labelled with the worker role and the selector's key, which alone may
  override it (so no swap of the spec is ever rolled out as a machine config), and statuses that are
  one of the three reports, so that \<open>Available\<close> and \<open>Degraded\<close> are never reported together.
\<close>

theorem reachable_writes:
  assumes "reachable re r w"
  shows "\<forall>x\<in>set (cs_Writes w). case x of
      CreatedMachineConfig mc \<Rightarrow> om_Name (mc_Meta mc) = ''99-swap-kubelet-cgroups''
        \<and> (\<exists>key val. key \<noteq> [] \<and> om_Labels (mc_Meta mc) =
              Some [''machineconfiguration.openshift.io/role'' \<mapsto> ''worker'', key \<mapsto> val])
    | UpdatedStatus k st \<Rightarrow>
        (failed_report (st_Conditions st) \<or> first_report (st_Conditions st) \<or> settled_conditions (st_Conditions st))
        \<and> \<not> ((\<exists>c. FindStatusCondition (st_Conditions st) ''Availabe'' = Some c \<and> c_Status c = ConditionTrue)
            \<and> (\<exists>c. FindStatusCondition (st_Conditions st) ''Degraded'' = Some c \<and> c_Status c = ConditionTrue))"
proof
  fix x
  assume "x \<in> set (cs_Writes w)"
  then have ok: "write_ok x" using reachable_ok [OF assms] by (simp add: cluster_ok_def)
  show "case x of
      CreatedMachineConfig mc \<Rightarrow> om_Name (mc_Meta mc) = ''99-swap-kubelet-cgroups''
        \<and> (\<exists>key val. key \<noteq> [] \<and> om_Labels (mc_Meta mc) =
              Some [''machineconfiguration.openshift.io/role'' \<mapsto> ''worker'', key \<mapsto> val])
    | UpdatedStatus k st \<Rightarrow>
        (failed_report (st_Conditions st) \<or> first_report (st_Conditions st) \<or> settled_conditions (st_Conditions st))
        \<and> \<not> ((\<exists>c. FindStatusCondition (st_Conditions st) ''Availabe'' = Some c \<and> c_Status c = ConditionTrue)
            \<and> (\<exists>c. FindStatusCondition (st_Conditions st) ''Degraded'' = Some c \<and> c_Status c = ConditionTrue))"
  proof (cases x)
    case (CreatedMachineConfig mc)
    with ok have "own_machine_config mc" by (simp add: write_ok_def)
    then have "om_Name (mc_Meta mc) = ''99-swap-kubelet-cgroups''
        \<and> (\<exists>key val. key \<noteq> [] \<and> om_Labels (mc_Meta mc) =
              Some [''machineconfiguration.openshift.io/role'' \<mapsto> ''worker'', key \<mapsto> val])"
      unfolding own_machine_config_def SwapKubeletCgroupsMCPrefix_def MachineConfigRoleLabelKey_def
      by (elim exE conjE) (simp, blast)
    then show ?thesis by (simp only: CreatedMachineConfig api_write.case)
  next
    case (UpdatedStatus k st)
    with ok have "report_ok (st_Conditions st)" by (simp add: write_ok_def)
    then show ?thesis
      using report_ok_exclusive [of "st_Conditions st"] by (auto simp: UpdatedStatus report_ok_def type_defs)
  qed
qed

theorem reachable_writes_witness:
  "\<exists>r w mc. reachable sample_renderer r w \<and> CreatedMachineConfig mc \<in> set (cs_Writes w)
     \<and> om_Name (mc_Meta mc) = ''99-swap-kubelet-cgroups''"
proof -
  have h: "healthy sample_renderer sample_key [''templates''] (sample_cluster [])" by (rule sample_healthy)
  have dir: "rr_TemplateDir sample_reconciler = [''templates'']" by (simp add: sample_reconciler_def)
  have ns: "cs_NodeSwaps (sample_cluster []) sample_key = Some (sample_ns [])"
    and none: "cs_MachineConfigs (sample_cluster []) SwapKubeletCgroupsMCPrefix = None"
    by (simp_all add: sample_cluster_def)
  obtain r' w' mc where run: "Reconcile sample_renderer api_server sample_key sample_reconciler (sample_cluster []) = (Ok (), r', w')"
    and mc: "CreatedMachineConfig mc \<in> set (cs_Writes w')"
    by (rule healthy_step [OF h dir ns]) (use none in \<open>auto simp: with_kubelet_config_def\<close>)
  have reach: "reachable sample_renderer r' w'" by (rule reachable.reconcile [OF sample_reachable run])
  from reachable_writes [OF reach] mc have "om_Name (mc_Meta mc) = ''99-swap-kubelet-cgroups''" by fastforce
  with reach mc show ?thesis by blast
qed

end
