(* ===== verification/TextTemplate.thy ===== *)
theory TextTemplate
  imports TemplateRender
begin

text \<open>
  The fragment of Go's \<open>text/template\<close> that the shipped templates use, as a concrete engine: literal
  text, \<open>{{ .Field }}\<close>, \<open>{{ if .Field }} ... {{ end }}\<close> and the trim markers \<open>{{-\<close> and \<open>-}}\<close>. Anything
  else is refused (the real engine knows more); the texts of its errors are not Go's. The templates
  themselves, from \<open>src/templates\<close>, are here as strings.
\<close>

section \<open>Lexing\<close>

text \<open>The text before the first occurrence of two characters, and the text after them.\<close>

fun find2 :: "char \<Rightarrow> char \<Rightarrow> string \<Rightarrow> (string \<times> string) option" where
  "find2 a b [] = None"
| "find2 a b [x] = None"
| "find2 a b (x # y # s) =
     (if x = a \<and> y = b then Some ([], s)
      else case find2 a b (y # s) of None \<Rightarrow> None | Some (before, after) \<Rightarrow> Some (x # before, after))"

lemma find2_Some:
  assumes "find2 a b s = Some (before, after)"
  shows "s = before @ [a, b] @ after" and "length after < length s"
proof -
  show s: "s = before @ [a, b] @ after"
    using assms by (induction a b s arbitrary: before rule: find2.induct) (auto split: if_splits option.splits)
  then show "length after < length s" by simp
qed

definition tmpl_space :: "char \<Rightarrow> bool" where
  "tmpl_space c \<longleftrightarrow> c \<in> {CHR '' '', CHR 0x09, CHR 0x0D, CHR 0x0A}"

datatype token = TokText string | TokAction string

text \<open>\<open>{{-\<close> and \<open>-}}\<close> are trim markers only next to a space inside the action.\<close>

definition trims_left :: "string \<Rightarrow> bool" where
  "trims_left act \<longleftrightarrow> (case act of c # d # _ \<Rightarrow> c = CHR ''-'' \<and> tmpl_space d | _ \<Rightarrow> False)"

definition trims_right :: "string \<Rightarrow> bool" where
  "trims_right act \<longleftrightarrow> trims_left (rev act)"

definition action_words :: "string \<Rightarrow> string" where
  "action_words act =
     (let act = (if trims_left act then tl act else act) in if trims_right act then butlast act else act)"

function lex :: "bool \<Rightarrow> string \<Rightarrow> token list option" where
  "lex trim s =
     (case find2 CHR ''{'' CHR ''{'' s of
        None \<Rightarrow> Some [TokText (if trim then dropWhile tmpl_space s else s)]
      | Some (pre, r) \<Rightarrow>
          (case find2 CHR ''}'' CHR ''}'' r of
             None \<Rightarrow> None
           | Some (act, r') \<Rightarrow>
               let pre = (if trim then dropWhile tmpl_space pre else pre);
                   pre = (if trims_left act then rev (dropWhile tmpl_space (rev pre)) else pre)
               in map_option (\<lambda>ts. TokText pre # TokAction (action_words act) # ts) (lex (trims_right act) r')))"
  by pat_completeness auto
termination lex
proof (relation "measure (\<lambda>(trim, s). length s)")
  fix trim :: bool and s and x :: "string \<times> string" and pre r and y :: "string \<times> string" and act r' :: string
    and pre' pre'' :: string
  assume "find2 CHR ''{'' CHR ''{'' s = Some x" "(pre, r) = x"
    "find2 CHR ''}'' CHR ''}'' r = Some y" "(act, r') = y"
  then show "((trims_right act, r'), trim, s) \<in> measure (\<lambda>(trim, s). length s)"
    using find2_Some(2) [of _ _ s pre r] find2_Some(2) [of _ _ r act r'] by fastforce
qed simp

declare lex.simps [simp del]

section \<open>Parsing\<close>

datatype tmpl_node = Lit string | Field string | Cond string "tmpl_node list"

fun words :: "string \<Rightarrow> string list" where
  "words [] = []"
| "words (c # s) =
     (if tmpl_space c then words s
      else case s of
          [] \<Rightarrow> [[c]]
        | d # _ \<Rightarrow> if tmpl_space d then [c] # words s
            else (case words s of [] \<Rightarrow> [[c]] | w # ws \<Rightarrow> (c # w) # ws))"

definition field_name :: "string \<Rightarrow> string option" where
  "field_name w = (case w of [] \<Rightarrow> None
     | c # n \<Rightarrow> if c = CHR ''.'' \<and> n \<noteq> [] \<and> CHR ''.'' \<notin> set n then Some n else None)"

text \<open>The stack holds, for every open \<open>if\<close>, its field and the nodes before it, latest first.\<close>

fun parse_tokens ::
  "(string \<times> tmpl_node list) list \<Rightarrow> tmpl_node list \<Rightarrow> token list \<Rightarrow> tmpl_node list option" where
  "parse_tokens st acc [] = (if st = [] then Some (rev acc) else None)"
| "parse_tokens st acc (TokText s # ts) = parse_tokens st (if s = [] then acc else Lit s # acc) ts"
| "parse_tokens st acc (TokAction a # ts) =
     (case words a of
        [w] \<Rightarrow>
          if w = ''end'' then
            (case st of [] \<Rightarrow> None | (f, outer) # st' \<Rightarrow> parse_tokens st' (Cond f (rev acc) # outer) ts)
          else (case field_name w of None \<Rightarrow> None | Some f \<Rightarrow> parse_tokens st (Field f # acc) ts)
      | [w, v] \<Rightarrow>
          if w = ''if''
          then (case field_name v of None \<Rightarrow> None | Some f \<Rightarrow> parse_tokens ((f, acc) # st) [] ts)
          else None
      | _ \<Rightarrow> None)"

definition tmpl_parse :: "string \<Rightarrow> tmpl_node list option" where
  "tmpl_parse text = (case lex False text of None \<Rightarrow> None | Some ts \<Rightarrow> parse_tokens [] [] ts)"

section \<open>Execution\<close>

datatype field_value = VString string | VBool bool | VInt int

definition config_field :: "renderConfig \<Rightarrow> string \<Rightarrow> field_value option" where
  "config_field c = map_of
     [(''Name'', VString (rc_Name c)), (''Index'', VInt (rc_Index c)),
      (''EnableFileBasedSwap'', VBool (rc_EnableFileBasedSwap c)),
      (''EnableDiskBasedSwap'', VBool (rc_EnableDiskBasedSwap c)),
      (''EnableZramBasedSwap'', VBool (rc_EnableZramBasedSwap c)),
      (''SwapFileSize'', VString (rc_SwapFileSize c)), (''SwapFilePath'', VString (rc_SwapFilePath c)),
      (''SwapDevicePriotiry'', VInt (uint (rc_SwapDevicePriotiry c)))]"

fun value_text :: "field_value \<Rightarrow> string" where
  "value_text (VString s) = s"
| "value_text (VBool b) = (if b then ''true'' else ''false'')"
| "value_text (VInt i) = format_int i"

fun value_truth :: "field_value \<Rightarrow> bool" where
  "value_truth (VString s) = (s \<noteq> [])"
| "value_truth (VBool b) = b"
| "value_truth (VInt i) = (i \<noteq> 0)"

definition unknown_field :: "string \<Rightarrow> error" where
  "unknown_field f = ErrText (''can't evaluate field '' @ f @ '' in type *renderconfig.RenderConfig'')"

fun exec_node :: "renderConfig \<Rightarrow> tmpl_node \<Rightarrow> string result"
  and exec_nodes :: "renderConfig \<Rightarrow> tmpl_node list \<Rightarrow> string result" where
  "exec_node c (Lit s) = Ok s"
| "exec_node c (Field f) =
     (case config_field c f of None \<Rightarrow> Err (unknown_field f) | Some v \<Rightarrow> Ok (value_text v))"
| "exec_node c (Cond f body) =
     (case config_field c f of None \<Rightarrow> Err (unknown_field f)
      | Some v \<Rightarrow> if value_truth v then exec_nodes c body else Ok [])"
| "exec_nodes c [] = Ok []"
| "exec_nodes c (n # ns) = rbind (exec_node c n) (\<lambda>s. rbind (exec_nodes c ns) (\<lambda>t. Ok (s @ t)))"

definition go_engine :: "tmpl_node list engine" where
  "go_engine =
     \<lparr>te_Parse = (\<lambda>funcs name text. case tmpl_parse text of
        None \<Rightarrow> Err (ErrText (''template: '' @ name @ '': syntax error'')) | Some t \<Rightarrow> Ok t),
      te_Execute = (\<lambda>t c. exec_nodes c t)\<rparr>"

end
