(* ===== verification/ShippedTemplates.thy ===== *)
theory ShippedTemplates
  imports TextTemplate TemplateSpec
begin

text \<open>
  The three files of \<open>src/templates/worker\<close>, and what the engine of \<open>TextTemplate\<close> makes of them.
\<close>

section \<open>The files\<close>

definition text_lines :: "string list \<Rightarrow> string" where
  "text_lines ls = concat (List.map (\<lambda>l. l @ [CHR 0x0A]) ls)"

definition swap_provision_unit :: string where
  \<open>swap_provision_unit = text_lines
     [''{{- if .EnableFileBasedSwap }}'',
      ''name: filbased-swap-provision-{{ .Index }}.service'',
      ''enabled: true'',
      ''contents: |'',
      ''  [Unit]'',
      ''  Description=Provision and enable swap'',
      ''  ConditionFirstBoot=no'',
      ''  ConditionPathExists=!{{ .SwapFilePath }}'',
      ''  '',
      ''  [Service]'',
      ''  Type=oneshot'',
      ''  Environment=SWAP_SIZE={{ .SwapFileSize }}'',
      ''  ExecStart=/bin/sh -c "sudo fallocate -l ${SWAP_SIZE} {{ .SwapFilePath }} && '' @ [CHR 0x5C],
      ''  sudo chmod 600 {{ .SwapFilePath }} && '' @ [CHR 0x5C],
      ''  sudo mkswap {{ .SwapFilePath }} && '' @ [CHR 0x5C],
      ''  sudo swapon {{ .SwapFilePath }}"'',
      ''  '',
      ''  [Install]'',
      ''  RequiredBy=kubelet-dependencies.target'',
      ''{{- end}}'']\<close>

definition slice_unit :: string where
  \<open>slice_unit = text_lines
     [''name: system-slice-swap-disable.service'',
      ''enabled: true'',
      ''contents: |'',
      ''  [Unit]'',
      ''  Description=Restrict swap for system slice'',
      ''  ConditionFirstBoot=no'',
      [],
      ''  [Service]'',
      ''  Type=oneshot'',
      ''  ExecStart=/bin/sh -c "sudo systemctl set-property --runtime system.slice MemorySwapMax=0 IODeviceLatencyTargetSec='' @ [CHR 0x5C] @ ''"/ 50ms'' @ [CHR 0x5C] @ ''""'',
      [],
      ''  [Install]'',
      ''  RequiredBy=kubelet-dependencies.target'']\<close>

definition kubelet_dropin :: string where
  \<open>kubelet_dropin = text_lines
     [''mode: 0420'',
      ''overwrite: true'',
      ''path: "/etc/openshift/kubelet.conf.d/90-swap.conf"'',
      ''contents:'',
      ''  inline: |'',
      ''    apiVersion: kubelet.config.k8s.io/v1beta1'',
      ''    kind: KubeletConfiguration'',
      ''    failSwapOn: false'',
      ''    memorySwap:'',
      ''      swapBehavior: LimitedSwap'']\<close>

section \<open>Parsed\<close>

definition swap_provision_nodes :: "tmpl_node list" where
  \<open>swap_provision_nodes =
     [Lit ([CHR 0x0A] @ ''name: filbased-swap-provision-''),
      Field ''Index'',
      Lit (''.service'' @ [CHR 0x0A] @ ''enabled: true'' @ [CHR 0x0A] @ ''contents: |'' @ [CHR 0x0A] @ ''  [Unit]'' @ [CHR 0x0A] @ ''  Description=Provision and enable swap'' @ [CHR 0x0A] @ ''  ConditionFirstBoot=no'' @ [CHR 0x0A] @ ''  ConditionPathExists=!''),
      Field ''SwapFilePath'',
      Lit ([CHR 0x0A] @ ''  '' @ [CHR 0x0A] @ ''  [Service]'' @ [CHR 0x0A] @ ''  Type=oneshot'' @ [CHR 0x0A] @ ''  Environment=SWAP_SIZE=''),
      Field ''SwapFileSize'',
      Lit ([CHR 0x0A] @ ''  ExecStart=/bin/sh -c "sudo fallocate -l ${SWAP_SIZE} ''),
      Field ''SwapFilePath'',
      Lit ('' && '' @ [CHR 0x5C, CHR 0x0A] @ ''  sudo chmod 600 ''),
      Field ''SwapFilePath'',
      Lit ('' && '' @ [CHR 0x5C, CHR 0x0A] @ ''  sudo mkswap ''),
      Field ''SwapFilePath'',
      Lit ('' && '' @ [CHR 0x5C, CHR 0x0A] @ ''  sudo swapon ''),
      Field ''SwapFilePath'',
      Lit (''"'' @ [CHR 0x0A] @ ''  '' @ [CHR 0x0A] @ ''  [Install]'' @ [CHR 0x0A] @ ''  RequiredBy=kubelet-dependencies.target'')]\<close>

lemma parse_slice_unit: "tmpl_parse slice_unit = Some [Lit slice_unit]"
  by code_simp

lemma parse_kubelet_dropin: "tmpl_parse kubelet_dropin = Some [Lit kubelet_dropin]"
  by code_simp

lemma parse_swap_provision_unit:
  "tmpl_parse swap_provision_unit = Some [Cond ''EnableFileBasedSwap'' swap_provision_nodes, Lit [CHR 0x0A]]"
  by code_simp

section \<open>Rendered\<close>

text \<open>What the unit of the swap file says when it is shown.\<close>

definition swap_provision_text :: "renderConfig \<Rightarrow> string" where
  \<open>swap_provision_text c = text_lines
     [[],
      ''name: filbased-swap-provision-'' @ format_int (rc_Index c) @ ''.service'',
      ''enabled: true'',
      ''contents: |'',
      ''  [Unit]'',
      ''  Description=Provision and enable swap'',
      ''  ConditionFirstBoot=no'',
      ''  ConditionPathExists=!'' @ rc_SwapFilePath c,
      ''  '',
      ''  [Service]'',
      ''  Type=oneshot'',
      ''  Environment=SWAP_SIZE='' @ rc_SwapFileSize c,
      ''  ExecStart=/bin/sh -c "sudo fallocate -l ${SWAP_SIZE} '' @ rc_SwapFilePath c @ '' && '' @ [CHR 0x5C],
      ''  sudo chmod 600 '' @ rc_SwapFilePath c @ '' && '' @ [CHR 0x5C],
      ''  sudo mkswap '' @ rc_SwapFilePath c @ '' && '' @ [CHR 0x5C],
      ''  sudo swapon '' @ rc_SwapFilePath c @ ''"'',
      ''  '',
      ''  [Install]'',
      ''  RequiredBy=kubelet-dependencies.target'']\<close>

lemma exec_swap_provision:
  "exec_nodes c [Cond ''EnableFileBasedSwap'' swap_provision_nodes, Lit [CHR 0x0A]] =
     Ok (if rc_EnableFileBasedSwap c then swap_provision_text c else [CHR 0x0A])"
  by (simp add: config_field_def swap_provision_nodes_def swap_provision_text_def text_lines_def)

text \<open>A text with a printable ASCII character is not blank.\<close>

definition printable :: "char \<Rightarrow> bool" where
  "printable c \<longleftrightarrow> 32 < byte c \<and> byte c < 128"

lemma spaces_not_printable:
  "c \<in> set (take (space_len s) s) \<Longrightarrow> \<not> printable c"
  "c \<in> set (take (space_len_rev s) s) \<Longrightarrow> \<not> printable c"
  by (cases s rule: space_len.cases;
      auto simp: printable_def ascii_space_def utf8_space2_def utf8_space3_def split: if_splits)+

lemma printable_not_space:
  "printable c \<Longrightarrow> c \<in> set s \<Longrightarrow> c \<in> set (drop (space_len s) s)"
  "printable c \<Longrightarrow> c \<in> set s \<Longrightarrow> c \<in> set (drop (space_len_rev s) s)"
  using spaces_not_printable [of c s]
  by (metis UnE append_take_drop_id set_append)+

lemma printable_trim_left: "printable c \<Longrightarrow> c \<in> set s \<Longrightarrow> c \<in> set (trim_left s)"
proof (induction s rule: trim_left.induct)
  case (1 s)
  then show ?case using printable_not_space(1) [of c s] by (subst trim_left.simps) auto
qed

lemma printable_trim_left_rev: "printable c \<Longrightarrow> c \<in> set s \<Longrightarrow> c \<in> set (trim_left_rev s)"
proof (induction s rule: trim_left_rev.induct)
  case (1 s)
  then show ?case using printable_not_space(2) [of c s] by (subst trim_left_rev.simps) auto
qed

lemma printable_trim_space:
  assumes "printable c" and "c \<in> set s"
  shows "trim_space s \<noteq> []"
  using printable_trim_left_rev [OF assms(1), of "rev (trim_left s)"] printable_trim_left [OF assms]
  by (force simp: trim_space_def trim_right_def)

lemma trim_space_newline: "trim_space [CHR 0x0A] = []"
  by (simp add: trim_space_def trim_left.simps [of "[CHR 0x0A]"] byte_def ascii_space_def trim_space_Nil
      trim_left_id trim_right_id)

lemma go_engine_simps [simp]:
  "te_Parse go_engine funcs name text = (case tmpl_parse text of
     None \<Rightarrow> Err (ErrText (''template: '' @ name @ '': syntax error'')) | Some t \<Rightarrow> Ok t)"
  "te_Execute go_engine t c = exec_nodes c t"
  by (simp_all add: go_engine_def)

lemma nonblank_texts:
  "trim_space (swap_provision_text c) \<noteq> []" "trim_space slice_unit \<noteq> []" "trim_space kubelet_dropin \<noteq> []"
  by (rule printable_trim_space [of "CHR ''n''"];
      simp add: printable_def byte_def swap_provision_text_def slice_unit_def kubelet_dropin_def text_lines_def)+

text \<open>What the walk does with each of the three files.\<close>

lemma step_shipped:
  "templateStep go_engine c m (p, swap_provision_unit) =
     Ok (if rc_EnableFileBasedSwap c then AList.update (base_name p) (swap_provision_text c) m else m)"
  "templateStep go_engine c m (p, slice_unit) = Ok (AList.update (base_name p) slice_unit m)"
  "templateStep go_engine c m (p, kubelet_dropin) = Ok (AList.update (base_name p) kubelet_dropin m)"
proof -
  have ne: "swap_provision_unit \<noteq> []" "slice_unit \<noteq> []" "kubelet_dropin \<noteq> []"
    by (simp_all add: swap_provision_unit_def slice_unit_def kubelet_dropin_def text_lines_def)
  show "templateStep go_engine c m (p, swap_provision_unit) =
      Ok (if rc_EnableFileBasedSwap c then AList.update (base_name p) (swap_provision_text c) m else m)"
    by (simp add: templateStep_def ne renderTemplate_def parse_swap_provision_unit exec_swap_provision
        nonblank_texts trim_space_newline del: exec_nodes.simps)
  show "templateStep go_engine c m (p, slice_unit) = Ok (AList.update (base_name p) slice_unit m)"
    "templateStep go_engine c m (p, kubelet_dropin) = Ok (AList.update (base_name p) kubelet_dropin m)"
    by (simp_all add: templateStep_def ne renderTemplate_def parse_slice_unit parse_kubelet_dropin nonblank_texts)
qed

section \<open>The tree\<close>

definition shipped_swap_dir :: fs_node where
  "shipped_swap_dir = FsDir [(''_base'', FsDir
     [(''units'', FsDir [(''filebased-swap-provision.service.yaml'', FsFile swap_provision_unit)])])]"

definition shipped_cgroups_dir :: fs_node where
  "shipped_cgroups_dir = FsDir [(''_base'', FsDir
     [(''files'', FsDir [(''kubeletdropin.yaml'', FsFile kubelet_dropin)]),
      (''units'', FsDir [(''system-slice-swap-disable.service.yaml'', FsFile slice_unit)])])]"

definition shipped_fs :: filesystem where
  "shipped_fs = \<lparr>fs_root = FsDir [(''templates'', FsDir [(''worker'', FsDir
     [(''99-filebased-swap'', shipped_swap_dir), (''99-swap-kubelet-cgroups'', shipped_cgroups_dir)])])],
     fs_fault = (\<lambda>op p. None)\<rparr>"

lemma shipped_no_faults: "no_faults shipped_fs"
  by (simp add: no_faults_def shipped_fs_def)

lemma shipped_existsDir:
  "existsDir shipped_fs [''templates'', ''common'', ''_base''] = Ok False"
  "existsDir shipped_fs [''templates'', ''worker'', ''99-swap-kubelet-cgroups'', ''_base''] = Ok True"
  "existsDir shipped_fs [''templates'', ''worker'', ''99-swap-kubelet-cgroups'', ''_base'', ''files''] = Ok True"
  "existsDir shipped_fs [''templates'', ''worker'', ''99-swap-kubelet-cgroups'', ''_base'', ''units''] = Ok True"
  "existsDir shipped_fs [''templates'', ''worker'', ''99-swap-kubelet-cgroups'', ''_base'', ''extensions''] = Ok False"
  "existsDir shipped_fs [''templates'', ''worker'', ''99-filebased-swap'', ''_base''] = Ok True"
  "existsDir shipped_fs [''templates'', ''worker'', ''99-filebased-swap'', ''_base'', ''files''] = Ok False"
  "existsDir shipped_fs [''templates'', ''worker'', ''99-filebased-swap'', ''_base'', ''units''] = Ok True"
  "existsDir shipped_fs [''templates'', ''worker'', ''99-filebased-swap'', ''_base'', ''extensions''] = Ok False"
  by (simp_all add: existsDir_def fs_access_def shipped_fs_def shipped_swap_dir_def shipped_cgroups_dir_def)

lemma shipped_lookup:
  "fs_lookup (fs_root shipped_fs) [''templates'', ''worker'', ''99-swap-kubelet-cgroups'', ''_base'', ''files''] =
     Found (FsDir [(''kubeletdropin.yaml'', FsFile kubelet_dropin)])"
  "fs_lookup (fs_root shipped_fs) [''templates'', ''worker'', ''99-swap-kubelet-cgroups'', ''_base'', ''units''] =
     Found (FsDir [(''system-slice-swap-disable.service.yaml'', FsFile slice_unit)])"
  "fs_lookup (fs_root shipped_fs) [''templates'', ''worker'', ''99-filebased-swap'', ''_base'', ''units''] =
     Found (FsDir [(''filebased-swap-provision.service.yaml'', FsFile swap_provision_unit)])"
  by (simp_all add: shipped_fs_def shipped_swap_dir_def shipped_cgroups_dir_def)

lemma shipped_cgroups_sections:
  "renderSections shipped_fs go_engine config [''templates''] [''templates'', ''worker'', ''99-swap-kubelet-cgroups''] =
     Ok \<lparr>se_files = [(''kubeletdropin.yaml'', kubelet_dropin)],
         se_units = [(''system-slice-swap-disable.service.yaml'', slice_unit)], se_extensions = []\<rparr>"
  by (simp add: renderSections_def platformDirectories_def getPaths_def addPlatformDir_def platformBase_def
      shipped_existsDir renderPlatform_def no_sections_def renderSection_def filesDir_def unitsDir_def extensionsDir_def
      filterTemplates_files [OF shipped_no_faults _ shipped_lookup(1)]
      filterTemplates_files [OF shipped_no_faults _ shipped_lookup(2)] step_shipped base_name_def)

lemma shipped_swap_sections:
  "renderSections shipped_fs go_engine config [''templates''] [''templates'', ''worker'', ''99-filebased-swap''] =
     Ok (no_sections\<lparr>se_units := if rc_EnableFileBasedSwap config
        then [(''filebased-swap-provision.service.yaml'', swap_provision_text config)] else []\<rparr>)"
  by (simp add: renderSections_def platformDirectories_def getPaths_def addPlatformDir_def platformBase_def
      shipped_existsDir renderPlatform_def no_sections_def renderSection_def filesDir_def unitsDir_def extensionsDir_def
      filterTemplates_files [OF shipped_no_faults _ shipped_lookup(3)] step_shipped base_name_def)

end
