(* ===== verification/CommandMain.thy ===== *)
theory CommandMain
  imports GoStrings
begin

text \<open>
  \<open>src/cmd/main.go\<close>: the command line, the options of the two servers and of the manager, and the order
  in which the manager is built and started. Go's \<open>flag\<close> package is modelled as the source uses it; the
  flags that other packages register (logging, kubeconfig) are a parameter, and so is the manager of
  \<open>controller-runtime\<close>, a record of the calls the program makes, of which \<open>main\<close> keeps a trace.
\<close>

section \<open>The command line\<close>

record flags =
  fl_metricsAddr :: string
  fl_metricsCertPath :: string
  fl_metricsCertName :: string
  fl_metricsCertKey :: string
  fl_webhookCertPath :: string
  fl_webhookCertName :: string
  fl_webhookCertKey :: string
  fl_enableLeaderElection :: bool
  fl_probeAddr :: string
  fl_secureMetrics :: bool
  fl_enableHTTP2 :: bool
  fl_templateDir :: string

definition default_flags :: flags where
  "default_flags =
     \<lparr>fl_metricsAddr = ''0'', fl_metricsCertPath = [], fl_metricsCertName = ''tls.crt'',
      fl_metricsCertKey = ''tls.key'', fl_webhookCertPath = [], fl_webhookCertName = ''tls.crt'',
      fl_webhookCertKey = ''tls.key'', fl_enableLeaderElection = False, fl_probeAddr = '':8081'',
      fl_secureMetrics = True, fl_enableHTTP2 = False, fl_templateDir = ''/templates''\<rparr>"

text \<open>A flag: a setter for a string (which may refuse it) or for a boolean.\<close>

datatype 's flag_def = StringFlag "string \<Rightarrow> 's \<Rightarrow> 's option" | BoolFlag "bool \<Rightarrow> 's \<Rightarrow> 's"

definition main_flags :: "(string \<times> flags flag_def) list" where
  "main_flags =
     [(''metrics-bind-address'', StringFlag (\<lambda>v f. Some (f\<lparr>fl_metricsAddr := v\<rparr>))),
      (''health-probe-bind-address'', StringFlag (\<lambda>v f. Some (f\<lparr>fl_probeAddr := v\<rparr>))),
      (''leader-elect'', BoolFlag (\<lambda>v f. f\<lparr>fl_enableLeaderElection := v\<rparr>)),
      (''metrics-secure'', BoolFlag (\<lambda>v f. f\<lparr>fl_secureMetrics := v\<rparr>)),
      (''webhook-cert-path'', StringFlag (\<lambda>v f. Some (f\<lparr>fl_webhookCertPath := v\<rparr>))),
      (''webhook-cert-name'', StringFlag (\<lambda>v f. Some (f\<lparr>fl_webhookCertName := v\<rparr>))),
      (''webhook-cert-key'', StringFlag (\<lambda>v f. Some (f\<lparr>fl_webhookCertKey := v\<rparr>))),
      (''metrics-cert-path'', StringFlag (\<lambda>v f. Some (f\<lparr>fl_metricsCertPath := v\<rparr>))),
      (''metrics-cert-name'', StringFlag (\<lambda>v f. Some (f\<lparr>fl_metricsCertName := v\<rparr>))),
      (''template-dir'', StringFlag (\<lambda>v f. Some (f\<lparr>fl_templateDir := v\<rparr>))),
      (''metrics-cert-key'', StringFlag (\<lambda>v f. Some (f\<lparr>fl_metricsCertKey := v\<rparr>))),
      (''enable-http2'', BoolFlag (\<lambda>v f. f\<lparr>fl_enableHTTP2 := v\<rparr>))]"

text \<open>\<open>strconv.ParseBool\<close>.\<close>

definition parse_bool :: "string \<Rightarrow> bool option" where
  "parse_bool s =
     (if s \<in> {''1'', ''t'', ''T'', ''TRUE'', ''true'', ''True''} then Some True
      else if s \<in> {''0'', ''f'', ''F'', ''FALSE'', ''false'', ''False''} then Some False
      else None)"

text \<open>The command line is refused with a status, or accepted.\<close>

datatype 's parsed_args = ArgsExit int | ArgsOk 's

text \<open>
  One argument, as \<open>parseOne\<close> of package \<open>flag\<close> takes it apart: the name and the value after the first
  equals sign that is not at its start. \<open>None\<close>: not a flag, parsing ends here.
\<close>

datatype flag_arg = BadSyntax | FlagArg string "string option"

definition flag_arg :: "string \<Rightarrow> flag_arg option" where
  "flag_arg s =
     (case s of
        c # d # r \<Rightarrow>
          if c \<noteq> CHR ''-'' \<or> s = ''--'' then None
          else
            let name = (if d = CHR ''-'' then r else d # r) in
            (case name of
               [] \<Rightarrow> Some BadSyntax
             | e # n \<Rightarrow>
                 if e = CHR ''-'' \<or> e = CHR ''='' then Some BadSyntax
                 else
                   (case splitN2 CHR ''='' n of
                      [k, v] \<Rightarrow> Some (FlagArg (e # k) (Some v))
                    | _ \<Rightarrow> Some (FlagArg name None)))
      | _ \<Rightarrow> None)"

fun parse_args :: "(string \<Rightarrow> 's flag_def option) \<Rightarrow> 's \<Rightarrow> string list \<Rightarrow> 's parsed_args" where
  "parse_args defs st [] = ArgsOk st"
| "parse_args defs st (s # args) =
     (case flag_arg s of
        None \<Rightarrow> ArgsOk st
      | Some BadSyntax \<Rightarrow> ArgsExit 2
      | Some (FlagArg name val) \<Rightarrow>
          (case defs name of
             None \<Rightarrow> ArgsExit (if name \<in> {''help'', ''h''} then 0 else 2)
           | Some (BoolFlag f) \<Rightarrow>
               (case val of
                  None \<Rightarrow> parse_args defs (f True st) args
                | Some v \<Rightarrow>
                    (case parse_bool v of None \<Rightarrow> ArgsExit 2 | Some b \<Rightarrow> parse_args defs (f b st) args))
           | Some (StringFlag f) \<Rightarrow>
               (case val of
                  Some v \<Rightarrow> (case f v st of None \<Rightarrow> ArgsExit 2 | Some st' \<Rightarrow> parse_args defs st' args)
                | None \<Rightarrow>
                    (case args of
                       [] \<Rightarrow> ArgsExit 2
                     | v # args' \<Rightarrow> (case f v st of None \<Rightarrow> ArgsExit 2 | Some st' \<Rightarrow> parse_args defs st' args')))))"

section \<open>The options\<close>

record tlsConfig =
  tls_NextProtos :: "string list"
  tls_Rest :: string

definition disableHTTP2 :: "tlsConfig \<Rightarrow> tlsConfig" where
  "disableHTTP2 c = c\<lparr>tls_NextProtos := [''http/1.1'']\<rparr>"

record webhookOptions =
  wo_TLSOpts :: "(tlsConfig \<Rightarrow> tlsConfig) list"
  wo_CertDir :: string
  wo_CertName :: string
  wo_KeyName :: string

record metricsOptions =
  me_BindAddress :: string
  me_SecureServing :: bool
  me_TLSOpts :: "(tlsConfig \<Rightarrow> tlsConfig) list"
  me_AuthFilter :: bool
  me_CertDir :: string
  me_CertName :: string
  me_KeyName :: string

record managerOptions =
  ma_Metrics :: metricsOptions
  ma_WebhookServer :: webhookOptions
  ma_HealthProbeBindAddress :: string
  ma_LeaderElection :: bool
  ma_LeaderElectionID :: string

definition tlsOpts :: "flags \<Rightarrow> (tlsConfig \<Rightarrow> tlsConfig) list" where
  "tlsOpts f = (if \<not> fl_enableHTTP2 f then [disableHTTP2] else [])"

definition webhookServerOptions :: "flags \<Rightarrow> webhookOptions" where
  "webhookServerOptions f =
     (let o1 = \<lparr>wo_TLSOpts = tlsOpts f, wo_CertDir = [], wo_CertName = [], wo_KeyName = []\<rparr>
      in if length (fl_webhookCertPath f) > 0
         then o1\<lparr>wo_CertDir := fl_webhookCertPath f, wo_CertName := fl_webhookCertName f,
                 wo_KeyName := fl_webhookCertKey f\<rparr>
         else o1)"

definition metricsServerOptions :: "flags \<Rightarrow> metricsOptions" where
  "metricsServerOptions f =
     (let o1 = \<lparr>me_BindAddress = fl_metricsAddr f, me_SecureServing = fl_secureMetrics f,
                me_TLSOpts = tlsOpts f, me_AuthFilter = False, me_CertDir = [], me_CertName = [], me_KeyName = []\<rparr>;
          o2 = (if fl_secureMetrics f then o1\<lparr>me_AuthFilter := True\<rparr> else o1)
      in if length (fl_metricsCertPath f) > 0
         then o2\<lparr>me_CertDir := fl_metricsCertPath f, me_CertName := fl_metricsCertName f,
                 me_KeyName := fl_metricsCertKey f\<rparr>
         else o2)"

definition managerOptionsOf :: "flags \<Rightarrow> managerOptions" where
  "managerOptionsOf f =
     \<lparr>ma_Metrics = metricsServerOptions f, ma_WebhookServer = webhookServerOptions f,
      ma_HealthProbeBindAddress = fl_probeAddr f, ma_LeaderElection = fl_enableLeaderElection f,
      ma_LeaderElectionID = ''a1e8c69d.openshift.io''\<rparr>"

section \<open>Starting\<close>

text \<open>The calls of \<open>controller-runtime\<close>, with the state \<open>'m\<close> of the manager.\<close>

record 'm runtime =
  ru_Stat :: "string \<Rightarrow> error option"
  ru_NewManager :: "managerOptions \<Rightarrow> error + 'm"
  ru_SetupReconciler :: "string \<Rightarrow> 'm \<Rightarrow> error + 'm"
  ru_AddHealthzCheck :: "string \<Rightarrow> 'm \<Rightarrow> error + 'm"
  ru_AddReadyzCheck :: "string \<Rightarrow> 'm \<Rightarrow> error + 'm"
  ru_Start :: "'m \<Rightarrow> error option"

datatype event =
    EvStat string
  | EvNewManager managerOptions
  | EvSetupReconciler string
  | EvAddHealthzCheck string
  | EvAddReadyzCheck string
  | EvStart

text \<open>How the process ends, and what it called before.\<close>

datatype ending = Returned | Exited int | Panicked error

text \<open>A call that may fail: \<open>os.Exit(1)\<close> on its error.\<close>

definition or_exit :: "event \<Rightarrow> error + 'a \<Rightarrow> ('a \<Rightarrow> event list \<times> ending) \<Rightarrow> event list \<times> ending" where
  "or_exit ev r k =
     (case r of Inl e \<Rightarrow> ([ev], Exited 1) | Inr a \<Rightarrow> (case k a of (evs, e) \<Rightarrow> (ev # evs, e)))"

definition run_main :: "'m runtime \<Rightarrow> flags \<Rightarrow> event list \<times> ending" where
  "run_main ru f =
     (case ru_Stat ru (fl_templateDir f) of
        Some err \<Rightarrow> ([EvStat (fl_templateDir f)], Panicked err)
      | None \<Rightarrow>
          (case or_exit (EvNewManager (managerOptionsOf f)) (ru_NewManager ru (managerOptionsOf f)) (\<lambda>mgr.
                or_exit (EvSetupReconciler (fl_templateDir f)) (ru_SetupReconciler ru (fl_templateDir f) mgr) (\<lambda>mgr.
                or_exit (EvAddHealthzCheck ''healthz'') (ru_AddHealthzCheck ru ''healthz'' mgr) (\<lambda>mgr.
                or_exit (EvAddReadyzCheck ''readyz'') (ru_AddReadyzCheck ru ''readyz'' mgr) (\<lambda>mgr.
                or_exit EvStart (case ru_Start ru mgr of Some e \<Rightarrow> Inl e | None \<Rightarrow> Inr ()) (\<lambda>_.
                ([], Returned))))))
           of (evs, e) \<Rightarrow> (EvStat (fl_templateDir f) # evs, e)))"

text \<open>
  The flags of other packages: boolean, or with a test of their value. What they set is not the
  program's. A name of the program's own wins (registering one twice would panic at start-up).
\<close>

datatype foreign_flag = ForeignBool | ForeignValue "string \<Rightarrow> bool"

definition all_flags :: "(string \<rightharpoonup> foreign_flag) \<Rightarrow> string \<Rightarrow> flags flag_def option" where
  "all_flags foreign name =
     (case map_of main_flags name of
        Some d \<Rightarrow> Some d
      | None \<Rightarrow> map_option (\<lambda>k. case k of ForeignBool \<Rightarrow> BoolFlag (\<lambda>b f. f)
          | ForeignValue ok \<Rightarrow> StringFlag (\<lambda>v f. if ok v then Some f else None)) (foreign name))"

definition main :: "(string \<rightharpoonup> foreign_flag) \<Rightarrow> 'm runtime \<Rightarrow> string list \<Rightarrow> event list \<times> ending" where
  "main foreign ru args =
     (case parse_args (all_flags foreign) default_flags args of
        ArgsExit status \<Rightarrow> ([], Exited status)
      | ArgsOk f \<Rightarrow> run_main ru f)"

section \<open>Lemmas\<close>

text \<open>What every flag of the line keeps is kept.\<close>

definition keeps :: "('s \<Rightarrow> bool) \<Rightarrow> 's flag_def \<Rightarrow> bool" where
  "keeps P d = (case d of
      BoolFlag f \<Rightarrow> \<forall>b st. P st \<longrightarrow> P (f b st)
    | StringFlag f \<Rightarrow> \<forall>v st st'. f v st = Some st' \<longrightarrow> P st \<longrightarrow> P st')"

definition line_keeps :: "(string \<Rightarrow> 's flag_def option) \<Rightarrow> ('s \<Rightarrow> bool) \<Rightarrow> string list \<Rightarrow> bool" where
  "line_keeps defs P args \<longleftrightarrow>
     (\<forall>a\<in>set args. \<forall>name val d. flag_arg a = Some (FlagArg name val) \<longrightarrow> defs name = Some d \<longrightarrow> keeps P d)"

lemma line_keeps_Cons: "line_keeps defs P (a # args) \<Longrightarrow> line_keeps defs P args"
  by (simp add: line_keeps_def)

lemma line_keeps_hd:
  "line_keeps defs P (a # args) \<Longrightarrow> flag_arg a = Some (FlagArg name val) \<Longrightarrow> defs name = Some d \<Longrightarrow> keeps P d"
  by (simp add: line_keeps_def)

lemma parse_args_inv:
  assumes "parse_args defs st args = ArgsOk st'" and "P st" and "line_keeps defs P args"
  shows "P st'"
  using assms
proof (induction defs st args rule: parse_args.induct)
  case (2 defs st s args)
  note rest = line_keeps_Cons [OF "2.prems"(3)]
  show ?case
  proof (cases "\<exists>name val d. flag_arg s = Some (FlagArg name val) \<and> defs name = Some d")
    case False
    then show ?thesis using "2.prems"(1,2) by (auto split: option.splits flag_arg.splits)
  next
    case True
    then obtain name val d where fa: "flag_arg s = Some (FlagArg name val)" and d: "defs name = Some d" by blast
    have k: "keeps P d" by (rule line_keeps_hd [OF "2.prems"(3) fa d])
    show ?thesis
    proof (cases d)
      case (BoolFlag f)
      have P: "P (f b st)" for b using k "2.prems"(2) by (simp add: keeps_def BoolFlag)
      show ?thesis
      proof (cases val)
        case None
        show ?thesis
          by (rule "2.IH"(3) [OF fa refl d BoolFlag None _ P rest])
            (use "2.prems"(1) in \<open>simp add: fa d BoolFlag None\<close>)
      next
        case (Some v)
        then obtain b where b: "parse_bool v = Some b"
          using "2.prems"(1) by (auto simp: fa d BoolFlag split: option.splits)
        show ?thesis
          by (rule "2.IH"(4) [OF fa refl d BoolFlag Some b _ P rest])
            (use "2.prems"(1) in \<open>simp add: fa d BoolFlag Some b\<close>)
      qed
    next
      case (StringFlag f)
      have P: "f v st = Some t \<Longrightarrow> P t" for v t using k "2.prems"(2) by (simp add: keeps_def StringFlag)
      show ?thesis
      proof (cases val)
        case (Some v)
        then obtain t where t: "f v st = Some t"
          using "2.prems"(1) by (auto simp: fa d StringFlag split: option.splits)
        show ?thesis
          by (rule "2.IH"(2) [OF fa refl d StringFlag Some t _ P [OF t] rest])
            (use "2.prems"(1) in \<open>simp add: fa d StringFlag Some t\<close>)
      next
        case None
        then obtain v args' t where args: "args = v # args'" and t: "f v st = Some t"
          using "2.prems"(1) by (auto simp: fa d StringFlag split: option.splits list.splits)
        show ?thesis
          by (rule "2.IH"(1) [OF fa refl d StringFlag None args t _ P [OF t] line_keeps_Cons [OF rest [unfolded args]]])
            (use "2.prems"(1) in \<open>simp add: fa d StringFlag None args t\<close>)
      qed
    qed
  qed
qed simp

lemma main_flags_keep_http2:
  "map_of main_flags name = Some d \<Longrightarrow> name \<noteq> ''enable-http2'' \<Longrightarrow> keeps (\<lambda>f. \<not> fl_enableHTTP2 f) d"
  by (auto simp: main_flags_def keeps_def split: if_splits)

lemma all_flags_keep_http2:
  "all_flags foreign name = Some d \<Longrightarrow> name \<noteq> ''enable-http2'' \<Longrightarrow> keeps (\<lambda>f. \<not> fl_enableHTTP2 f) d"
proof (cases "map_of main_flags name")
  case None
  assume "all_flags foreign name = Some d"
  with None obtain z where z: "foreign name = Some z" "d = (case z of ForeignBool \<Rightarrow> BoolFlag (\<lambda>b f. f)
      | ForeignValue ok \<Rightarrow> StringFlag (\<lambda>v f. if ok v then Some f else None))"
    by (auto simp: all_flags_def)
  then show "keeps (\<lambda>f. \<not> fl_enableHTTP2 f) d" by (cases z) (auto simp: keeps_def split: if_splits)
qed (auto simp: all_flags_def intro: main_flags_keep_http2)

lemma main_new_manager:
  assumes "EvNewManager opts \<in> set (fst (main foreign ru args))"
  obtains f where "parse_args (all_flags foreign) default_flags args = ArgsOk f" and "opts = managerOptionsOf f"
proof -
  obtain f where f: "parse_args (all_flags foreign) default_flags args = ArgsOk f"
    using assms by (auto simp: main_def split: parsed_args.splits)
  moreover have "opts = managerOptionsOf f"
    using assms
    by (auto simp: main_def f run_main_def or_exit_def split: option.splits sum.splits prod.splits)
  ultimately show thesis by (rule that)
qed

section \<open>Properties\<close>

text \<open>
  C38: whenever a manager is built, its metrics are guarded by authentication exactly when they are served
  securely, and unless the command line carries the flag \<open>enable-http2\<close>, both servers offer nothing but
  HTTP/1.1.
\<close>

theorem http2_only_by_flag:
  assumes "EvNewManager opts \<in> set (fst (main foreign ru args))"
  shows "(me_AuthFilter (ma_Metrics opts) \<longleftrightarrow> me_SecureServing (ma_Metrics opts))
    \<and> ((\<exists>a\<in>set args. \<exists>val. flag_arg a = Some (FlagArg ''enable-http2'' val))
       \<or> (\<forall>c. tls_NextProtos (fold (\<lambda>g c. g c) (me_TLSOpts (ma_Metrics opts)) c) = [''http/1.1'']
            \<and> tls_NextProtos (fold (\<lambda>g c. g c) (wo_TLSOpts (ma_WebhookServer opts)) c) = [''http/1.1'']))"
proof -
  obtain f where f: "parse_args (all_flags foreign) default_flags args = ArgsOk f" and opts: "opts = managerOptionsOf f"
    by (rule main_new_manager [OF assms])
  have auth: "me_AuthFilter (ma_Metrics opts) \<longleftrightarrow> me_SecureServing (ma_Metrics opts)"
    by (simp add: opts managerOptionsOf_def metricsServerOptions_def Let_def)
  show ?thesis
  proof (cases "\<exists>a\<in>set args. \<exists>val. flag_arg a = Some (FlagArg ''enable-http2'' val)")
    case False
    then have "line_keeps (all_flags foreign) (\<lambda>f. \<not> fl_enableHTTP2 f) args"
      by (auto simp: line_keeps_def intro: all_flags_keep_http2)
    then have "\<not> fl_enableHTTP2 f"
      using parse_args_inv [OF f, of "\<lambda>f. \<not> fl_enableHTTP2 f"] by (simp add: default_flags_def)
    then show ?thesis
      using auth by (simp add: opts managerOptionsOf_def metricsServerOptions_def webhookServerOptions_def
          tlsOpts_def disableHTTP2_def Let_def)
  qed (use auth in blast)
qed

definition sample_runtime :: "nat runtime" where
  "sample_runtime =
     \<lparr>ru_Stat = (\<lambda>p. if p = ''/templates'' then None else Some (ErrText ''no such file or directory'')),
      ru_NewManager = (\<lambda>opts. Inr 0), ru_SetupReconciler = (\<lambda>dir m. Inr (m + 1)),
      ru_AddHealthzCheck = (\<lambda>name m. Inr (m + 1)), ru_AddReadyzCheck = (\<lambda>name m. Inr (m + 1)), ru_Start = (\<lambda>m. None)\<rparr>"

lemma sample_main_trace:
  "main Map.empty sample_runtime [] =
     ([EvStat ''/templates'', EvNewManager (managerOptionsOf default_flags), EvSetupReconciler ''/templates'',
       EvAddHealthzCheck ''healthz'', EvAddReadyzCheck ''readyz'', EvStart], Returned)"
  by (simp add: main_def run_main_def or_exit_def sample_runtime_def default_flags_def)

theorem http2_only_by_flag_witness:
  "\<exists>opts. EvNewManager opts \<in> set (fst (main Map.empty sample_runtime []))
    \<and> tls_NextProtos (fold (\<lambda>g c. g c) (wo_TLSOpts (ma_WebhookServer opts)) \<lparr>tls_NextProtos = [''h2''], tls_Rest = []\<rparr>) = [''http/1.1'']"
proof -
  have ev: "EvNewManager (managerOptionsOf default_flags) \<in> set (fst (main Map.empty sample_runtime []))"
    unfolding sample_main_trace by simp
  from http2_only_by_flag [OF ev] ev show ?thesis by auto
qed

text \<open>
  The manager is started only after the template directory was found and the manager, the reconciler
  with that directory and both health checks were set up, in this order and without error; the process
  ends with status 1 if any of these calls or the manager itself fails.
\<close>

theorem started_only_when_ready:
  assumes "main foreign ru args = (trace, ending)" and "EvStart \<in> set trace"
  shows "\<exists>f m1 m2 m3 m4. parse_args (all_flags foreign) default_flags args = ArgsOk f
    \<and> trace = [EvStat (fl_templateDir f), EvNewManager (managerOptionsOf f), EvSetupReconciler (fl_templateDir f),
        EvAddHealthzCheck ''healthz'', EvAddReadyzCheck ''readyz'', EvStart]
    \<and> ru_Stat ru (fl_templateDir f) = None \<and> ru_NewManager ru (managerOptionsOf f) = Inr m1
    \<and> ru_SetupReconciler ru (fl_templateDir f) m1 = Inr m2 \<and> ru_AddHealthzCheck ru ''healthz'' m2 = Inr m3
    \<and> ru_AddReadyzCheck ru ''readyz'' m3 = Inr m4
    \<and> ending = (if ru_Start ru m4 = None then Returned else Exited 1)"
proof -
  obtain f where f: "parse_args (all_flags foreign) default_flags args = ArgsOk f"
    using assms by (auto simp: main_def split: parsed_args.splits)
  have run: "run_main ru f = (trace, ending)" using assms(1) by (simp add: main_def f)
  then show ?thesis
    using assms(2) f
    by (auto simp: run_main_def or_exit_def split: option.splits sum.splits prod.splits)
qed

theorem started_only_when_ready_witness:
  "\<exists>ending. main Map.empty sample_runtime [] =
     ([EvStat ''/templates'', EvNewManager (managerOptionsOf default_flags), EvSetupReconciler ''/templates'',
       EvAddHealthzCheck ''healthz'', EvAddReadyzCheck ''readyz'', EvStart], ending) \<and> ending = Returned"
  using started_only_when_ready [OF sample_main_trace] sample_main_trace by auto

end
