(* ===== verification/Scheme.thy ===== *)
theory Scheme
  imports Prelude
begin

text \<open>
  Which Go types stand for which API kinds: \<open>src/api/v1alpha1/groupversion_info.go\<close>, the \<open>init\<close> functions
  of \<open>nodeswap_types.go\<close> and of \<open>src/cmd/main.go\<close>, and the vendored scheme they fill
  (\<open>k8s.io/apimachinery/pkg/runtime/scheme.go\<close>): its two maps between kinds and types and its unversioned
  types. Conversion, defaulting and the order of versions are left out, they are not used, and
  the texts of panics and errors are shortened. The registration of client-go's own types is an argument
  of \<open>init\<close>.
\<close>

section \<open>The scheme\<close>

text \<open>A Go type: the path of its package and its name.\<close>

type_synonym goType = "string \<times> string"

record groupVersion =
  gv_Group :: string
  gv_Version :: string

record groupVersionKind = groupVersion +
  gk_Kind :: string

definition WithKind :: "groupVersion \<Rightarrow> string \<Rightarrow> groupVersionKind" where
  "WithKind gv kind = \<lparr>gv_Group = gv_Group gv, gv_Version = gv_Version gv, gk_Kind = kind\<rparr>"

record scheme =
  sc_gvkToType :: "groupVersionKind \<rightharpoonup> goType"
  sc_typeToGVK :: "goType \<rightharpoonup> groupVersionKind list"
  sc_unversionedTypes :: "goType \<rightharpoonup> groupVersionKind"
  sc_unversionedKinds :: "string \<rightharpoonup> goType"

definition NewScheme :: scheme where
  "NewScheme = \<lparr>sc_gvkToType = Map.empty, sc_typeToGVK = Map.empty,
     sc_unversionedTypes = Map.empty, sc_unversionedKinds = Map.empty\<rparr>"

definition AddKnownTypeWithName :: "groupVersionKind \<Rightarrow> goType \<Rightarrow> scheme \<Rightarrow> scheme result" where
  "AddKnownTypeWithName gvk t s =
     (if length (gv_Version gvk) = 0 then Panic (PanicText ''version is required on all types'')
      else if (case sc_gvkToType s gvk of Some oldT \<Rightarrow> oldT \<noteq> t | None \<Rightarrow> False)
      then Panic (PanicText ''Double registration of different types'')
      else
        let s = s\<lparr>sc_gvkToType := (sc_gvkToType s)(gvk \<mapsto> t)\<rparr>;
            known = (case sc_typeToGVK s t of Some gvks \<Rightarrow> gvks | None \<Rightarrow> []) in
        if gvk \<in> set known then Ok s
        else Ok (s\<lparr>sc_typeToGVK := (sc_typeToGVK s)(t \<mapsto> known @ [gvk])\<rparr>))"

definition AddKnownTypes :: "groupVersion \<Rightarrow> goType list \<Rightarrow> scheme \<Rightarrow> scheme result" where
  "AddKnownTypes gv types s = rfold (\<lambda>s t. AddKnownTypeWithName (WithKind gv (snd t)) t s) s types"

definition addUnversioned :: "groupVersion \<Rightarrow> scheme \<Rightarrow> goType \<Rightarrow> scheme result" where
  "addUnversioned gv s t =
     (let gvk = WithKind gv (snd t);
          s = s\<lparr>sc_unversionedTypes := (sc_unversionedTypes s)(t \<mapsto> gvk)\<rparr> in
      if (case sc_unversionedKinds s (gk_Kind gvk) of Some old \<Rightarrow> t \<noteq> old | None \<Rightarrow> False)
      then Panic (PanicText ''kind name must be unique in scheme'')
      else Ok (s\<lparr>sc_unversionedKinds := (sc_unversionedKinds s)(gk_Kind gvk \<mapsto> t)\<rparr>))"

definition AddUnversionedTypes :: "groupVersion \<Rightarrow> goType list \<Rightarrow> scheme \<Rightarrow> scheme result" where
  "AddUnversionedTypes gv types s =
     rbind (AddKnownTypes gv types s) (\<lambda>s. rfold (addUnversioned gv) s types)"

definition ObjectKinds :: "scheme \<Rightarrow> goType \<Rightarrow> (groupVersionKind list \<times> bool) result" where
  "ObjectKinds s t =
     (case sc_typeToGVK s t of
        None \<Rightarrow> Err (ErrText (''no kind is registered for the type '' @ snd t))
      | Some gvks \<Rightarrow> Ok (gvks, sc_unversionedTypes s t \<noteq> None))"

text \<open>\<open>New\<close>: the type of the object that is made for a kind.\<close>

definition scheme_New :: "scheme \<Rightarrow> groupVersionKind \<Rightarrow> goType result" where
  "scheme_New s kind =
     (case sc_gvkToType s kind of
        Some t \<Rightarrow> Ok t
      | None \<Rightarrow>
          (case sc_unversionedKinds s (gk_Kind kind) of
             Some t \<Rightarrow> Ok t
           | None \<Rightarrow> Err (ErrText (''no kind '' @ gk_Kind kind @ '' is registered''))))"

section \<open>Builders\<close>

text \<open>\<open>metav1.AddToGroupVersion\<close>: the types that every group version has.\<close>

abbreviation (input) metaType :: "string \<Rightarrow> goType" where
  "metaType name \<equiv> (''k8s.io/apimachinery/pkg/apis/meta/v1'', name)"

definition optionsTypes :: "goType list" where
  "optionsTypes = List.map metaType
     [''ListOptions'', ''GetOptions'', ''DeleteOptions'', ''CreateOptions'', ''UpdateOptions'', ''PatchOptions'']"

definition unversionedMetaTypes :: "goType list" where
  "unversionedMetaTypes = List.map metaType
     [''Status'', ''APIVersions'', ''APIGroupList'', ''APIGroup'', ''APIResourceList'']"

definition Unversioned :: groupVersion where "Unversioned = \<lparr>gv_Group = [], gv_Version = ''v1''\<rparr>"

definition AddToGroupVersion :: "groupVersion \<Rightarrow> scheme \<Rightarrow> scheme result" where
  "AddToGroupVersion gv s =
     rbind (AddKnownTypeWithName (WithKind gv ''WatchEvent'') (metaType ''WatchEvent'') s) (\<lambda>s.
     rbind (AddKnownTypeWithName (WithKind \<lparr>gv_Group = gv_Group gv, gv_Version = ''__internal''\<rparr> ''WatchEvent'')
              (metaType ''InternalEvent'') s) (\<lambda>s.
     rbind (AddKnownTypes gv optionsTypes s) (\<lambda>s.
     AddUnversionedTypes Unversioned unversionedMetaTypes s)))"

type_synonym schemeBuilder = "(scheme \<Rightarrow> scheme result) list"

definition builder_AddToScheme :: "schemeBuilder \<Rightarrow> scheme \<Rightarrow> scheme result" where
  "builder_AddToScheme sb s = rfold (\<lambda>s f. f s) s sb"

text \<open>\<open>scheme.Builder\<close> of controller-runtime.\<close>

record builder =
  bl_GroupVersion :: groupVersion
  bl_SchemeBuilder :: schemeBuilder

definition Register :: "builder \<Rightarrow> goType list \<Rightarrow> builder" where
  "Register bld objects =
     bld\<lparr>bl_SchemeBuilder := bl_SchemeBuilder bld @
       [\<lambda>s. rbind (AddKnownTypes (bl_GroupVersion bld) objects s) (AddToGroupVersion (bl_GroupVersion bld))]\<rparr>"

section \<open>The operator's types\<close>

abbreviation (input) nodeSwapType :: "string \<Rightarrow> goType" where
  "nodeSwapType name \<equiv> (''github.com/openshift-virtualization/swap-operator/api/v1alpha1'', name)"

definition GroupVersion :: groupVersion where
  "GroupVersion = \<lparr>gv_Group = ''node-swap.openshift.io'', gv_Version = ''v1alpha1''\<rparr>"

definition SchemeBuilder :: builder where
  "SchemeBuilder = \<lparr>bl_GroupVersion = GroupVersion, bl_SchemeBuilder = []\<rparr>"

text \<open>The builder after the package's \<open>init\<close>.\<close>

definition v1alpha1_init :: builder where
  "v1alpha1_init = Register SchemeBuilder [nodeSwapType ''NodeSwap'', nodeSwapType ''NodeSwapList'']"

definition v1alpha1_AddToScheme :: "scheme \<Rightarrow> scheme result" where
  "v1alpha1_AddToScheme = builder_AddToScheme (bl_SchemeBuilder v1alpha1_init)"

abbreviation (input) mcfgType :: "string \<Rightarrow> goType" where
  "mcfgType name \<equiv> (''github.com/openshift/api/machineconfiguration/v1'', name)"

definition mcfgv1_GroupVersion :: groupVersion where
  "mcfgv1_GroupVersion = \<lparr>gv_Group = ''machineconfiguration.openshift.io'', gv_Version = ''v1''\<rparr>"

definition mcfgv1_types :: "goType list" where
  "mcfgv1_types = List.map mcfgType
     [''ContainerRuntimeConfig'', ''ContainerRuntimeConfigList'', ''ControllerConfig'', ''ControllerConfigList'',
      ''KubeletConfig'', ''KubeletConfigList'', ''MachineConfig'', ''MachineConfigList'', ''MachineConfigPool'',
      ''MachineConfigPoolList'', ''MachineOSConfig'', ''MachineOSConfigList'', ''MachineOSBuild'',
      ''MachineOSBuildList'', ''PinnedImageSet'', ''PinnedImageSetList'', ''MachineConfigNode'', ''MachineConfigNodeList'']"

definition mcfgv1_AddToScheme :: "scheme \<Rightarrow> scheme result" where
  "mcfgv1_AddToScheme = builder_AddToScheme
     [\<lambda>s. rbind (AddKnownTypes mcfgv1_GroupVersion mcfgv1_types s) (AddToGroupVersion mcfgv1_GroupVersion)]"

text \<open>\<open>utilruntime.Must\<close>, and \<open>init\<close> of the command.\<close>

fun Must :: "'a result \<Rightarrow> 'a result" where
  "Must (Err e) = Panic (PanicError e)"
| "Must r = r"

definition main_init :: "(scheme \<Rightarrow> scheme result) \<Rightarrow> scheme result" where
  "main_init clientgoscheme_AddToScheme =
     rbind (Must (clientgoscheme_AddToScheme NewScheme)) (\<lambda>s.
     rbind (Must (v1alpha1_AddToScheme s)) (\<lambda>s. Must (mcfgv1_AddToScheme s)))"

section \<open>What a registration does\<close>

definition kinds_of :: "scheme \<Rightarrow> goType \<Rightarrow> groupVersionKind list" where
  "kinds_of s t = (case sc_typeToGVK s t of Some gvks \<Rightarrow> gvks | None \<Rightarrow> [])"

text \<open>What registering pairs of a kind and a type, no kind twice, makes of a scheme.\<close>

definition added :: "scheme \<Rightarrow> (groupVersionKind \<times> goType) list \<Rightarrow> scheme \<Rightarrow> bool" where
  "added s pairs s' \<longleftrightarrow> sc_gvkToType s' = sc_gvkToType s ++ map_of pairs
     \<and> (\<forall>t. set (kinds_of s' t) = set (kinds_of s t) \<union> {gvk. (gvk, t) \<in> set pairs})
     \<and> (\<forall>t. distinct (kinds_of s t) \<longrightarrow> distinct (kinds_of s' t))
     \<and> sc_unversionedTypes s' = sc_unversionedTypes s \<and> sc_unversionedKinds s' = sc_unversionedKinds s"

lemma AddKnownTypeWithName_Ok:
  assumes "gv_Version gvk \<noteq> []" and "sc_gvkToType s gvk \<in> {None, Some t}"
  shows "\<exists>s'. AddKnownTypeWithName gvk t s = Ok s' \<and> added s [(gvk, t)] s'"
proof -
  have ok: "\<not> (case sc_gvkToType s gvk of Some oldT \<Rightarrow> oldT \<noteq> t | None \<Rightarrow> False)"
    using assms(2) by auto
  let ?s = "s\<lparr>sc_gvkToType := (sc_gvkToType s)(gvk \<mapsto> t)\<rparr>"
  have known: "(case sc_typeToGVK ?s t of Some gvks \<Rightarrow> gvks | None \<Rightarrow> []) = kinds_of s t" by (simp add: kinds_of_def)
  show ?thesis
  proof (cases "gvk \<in> set (kinds_of s t)")
    case True
    have "AddKnownTypeWithName gvk t s = Ok ?s"
      using assms(1) ok True by (simp only: AddKnownTypeWithName_def Let_def known) simp
    moreover have "added s [(gvk, t)] ?s" using True by (auto simp: added_def kinds_of_def fun_eq_iff)
    ultimately show ?thesis by blast
  next
    case False
    let ?s' = "?s\<lparr>sc_typeToGVK := (sc_typeToGVK ?s)(t \<mapsto> kinds_of s t @ [gvk])\<rparr>"
    have "AddKnownTypeWithName gvk t s = Ok ?s'"
      using assms(1) ok False by (simp only: AddKnownTypeWithName_def Let_def known) simp
    moreover have "kinds_of ?s' u = (if u = t then kinds_of s t @ [gvk] else kinds_of s u)" for u
      by (simp add: kinds_of_def)
    then have "added s [(gvk, t)] ?s'" using False by (auto simp: added_def fun_eq_iff)
    ultimately show ?thesis by blast
  qed
qed

text \<open>A list of pairs, no kind twice.\<close>

definition add_pairs :: "(groupVersionKind \<times> goType) list \<Rightarrow> scheme \<Rightarrow> scheme result" where
  "add_pairs pairs s = rfold (\<lambda>s (gvk, t). AddKnownTypeWithName gvk t s) s pairs"

lemma added_trans:
  assumes "added s ps s1" and "added s1 qs s2" and "distinct (List.map fst (ps @ qs))"
  shows "added s (ps @ qs) s2"
proof -
  have "map_of (ps @ qs) = map_of ps ++ map_of qs"
    unfolding map_of_append using assms(3)
    by (intro map_add_comm) (auto simp: dom_map_of_conv_image_fst)
  with assms(1,2) show ?thesis
    unfolding added_def by auto
qed

lemma add_pairs_Ok:
  assumes "distinct (List.map fst pairs)"
    and "\<And>gvk t. (gvk, t) \<in> set pairs \<Longrightarrow> gv_Version gvk \<noteq> [] \<and> sc_gvkToType s gvk \<in> {None, Some t}"
  shows "\<exists>s'. add_pairs pairs s = Ok s' \<and> added s pairs s'"
  using assms
proof (induction pairs arbitrary: s)
  case Nil
  then show ?case by (simp add: add_pairs_def added_def)
next
  case (Cons p ps)
  obtain gvk t where p: "p = (gvk, t)" by (cases p)
  obtain s1 where s1: "AddKnownTypeWithName gvk t s = Ok s1" "added s [(gvk, t)] s1"
    using AddKnownTypeWithName_Ok [of gvk s t] Cons.prems(2) [of gvk t] by (auto simp: p)
  have "sc_gvkToType s1 gvk' = sc_gvkToType s gvk'" if "(gvk', t') \<in> set ps" for gvk' t'
    using s1(2) Cons.prems(1) that by (force simp: added_def p)
  then have "\<And>gvk t. (gvk, t) \<in> set ps \<Longrightarrow> gv_Version gvk \<noteq> [] \<and> sc_gvkToType s1 gvk \<in> {None, Some t}"
    using Cons.prems(2) by (metis list.set_intros(2))
  then obtain s2 where s2: "add_pairs ps s1 = Ok s2" "added s1 ps s2"
    using Cons.IH [of s1] Cons.prems(1) by auto
  have "added s ([p] @ ps) s2" using added_trans [OF s1(2) s2(2)] Cons.prems(1) by (simp add: p)
  with s1(1) s2(1) show ?case by (simp add: add_pairs_def p)
qed

lemma AddKnownTypes_pairs: "AddKnownTypes gv types s = add_pairs (List.map (\<lambda>t. (WithKind gv (snd t), t)) types) s"
  by (induction types arbitrary: s) (simp_all add: AddKnownTypes_def add_pairs_def)

lemma add_pairs_append: "add_pairs (ps @ qs) s = rbind (add_pairs ps s) (add_pairs qs)"
  by (simp add: add_pairs_def [abs_def] rfold_append)

section \<open>Registering a group version\<close>

definition meta_pairs :: "groupVersion \<Rightarrow> (groupVersionKind \<times> goType) list" where
  "meta_pairs gv =
     (WithKind gv ''WatchEvent'', metaType ''WatchEvent'') #
     (WithKind \<lparr>gv_Group = gv_Group gv, gv_Version = ''__internal''\<rparr> ''WatchEvent'', metaType ''InternalEvent'') #
     List.map (\<lambda>t. (WithKind gv (snd t), t)) optionsTypes"

definition unversioned_pairs :: "(groupVersionKind \<times> goType) list" where
  "unversioned_pairs = List.map (\<lambda>t. (WithKind Unversioned (snd t), t)) unversionedMetaTypes"

definition group_pairs :: "groupVersion \<Rightarrow> goType list \<Rightarrow> (groupVersionKind \<times> goType) list" where
  "group_pairs gv types = (List.map (\<lambda>t. (WithKind gv (snd t), t)) types @ meta_pairs gv) @ unversioned_pairs"

text \<open>
  A scheme to which groups have been added in this way: no kind of the group \<open>g\<close> yet, the unversioned
  types where they belong or not there yet.
\<close>

definition ready_for :: "string \<Rightarrow> scheme \<Rightarrow> bool" where
  "ready_for g s \<longleftrightarrow> (\<forall>gvk. gv_Group gvk = g \<longrightarrow> sc_gvkToType s gvk = None)
     \<and> (\<forall>(gvk, t)\<in>set unversioned_pairs. sc_gvkToType s gvk \<in> {None, Some t})
     \<and> (\<forall>t\<in>set unversionedMetaTypes. sc_unversionedKinds s (snd t) \<in> {None, Some t})
     \<and> (\<forall>t. distinct (kinds_of s t))"

definition registered :: "scheme \<Rightarrow> groupVersion \<Rightarrow> goType list \<Rightarrow> scheme \<Rightarrow> bool" where
  "registered s gv types s' \<longleftrightarrow> sc_gvkToType s' = sc_gvkToType s ++ map_of (group_pairs gv types)
     \<and> (\<forall>t. set (kinds_of s' t) = set (kinds_of s t) \<union> {gvk. (gvk, t) \<in> set (group_pairs gv types)})
     \<and> (\<forall>t. distinct (kinds_of s' t))
     \<and> (\<forall>t. sc_unversionedTypes s' t \<noteq> None \<longrightarrow> sc_unversionedTypes s t \<noteq> None \<or> t \<in> set unversionedMetaTypes)
     \<and> (\<forall>t\<in>set unversionedMetaTypes. sc_unversionedKinds s' (snd t) \<in> {None, Some t})"

lemma unversioned_names: "inj_on snd (set unversionedMetaTypes)"
  by (auto simp: unversionedMetaTypes_def inj_on_def)

lemma addUnversioned_Ok:
  assumes "set types \<subseteq> set unversionedMetaTypes"
    and "\<forall>t\<in>set unversionedMetaTypes. sc_unversionedKinds s (snd t) \<in> {None, Some t}"
  shows "\<exists>s'. rfold (addUnversioned gv) s types = Ok s' \<and> sc_gvkToType s' = sc_gvkToType s \<and> kinds_of s' = kinds_of s
    \<and> (\<forall>t. sc_unversionedTypes s' t \<noteq> None \<longrightarrow> sc_unversionedTypes s t \<noteq> None \<or> t \<in> set unversionedMetaTypes)
    \<and> (\<forall>t\<in>set unversionedMetaTypes. sc_unversionedKinds s' (snd t) \<in> {None, Some t})"
  using assms
proof (induction types arbitrary: s)
  case (Cons t types)
  let ?gvk = "WithKind gv (snd t)"
  let ?s = "s\<lparr>sc_unversionedTypes := (sc_unversionedTypes s)(t \<mapsto> ?gvk),
              sc_unversionedKinds := (sc_unversionedKinds s)(snd t \<mapsto> t)\<rparr>"
  have t: "t \<in> set unversionedMetaTypes" using Cons.prems(1) by simp
  have "addUnversioned gv s t = Ok ?s"
    using Cons.prems(2) t by (force simp: addUnversioned_def WithKind_def Let_def split: option.split)
  moreover have "\<forall>u\<in>set unversionedMetaTypes. sc_unversionedKinds ?s (snd u) \<in> {None, Some u}"
    using Cons.prems(2) t unversioned_names by (auto simp: inj_on_def)
  moreover from Cons.IH [OF _ this] Cons.prems(1) obtain s' where
    s': "rfold (addUnversioned gv) ?s types = Ok s'" "sc_gvkToType s' = sc_gvkToType ?s" "kinds_of s' = kinds_of ?s"
      "\<And>t. sc_unversionedTypes s' t \<noteq> None \<Longrightarrow> sc_unversionedTypes ?s t \<noteq> None \<or> t \<in> set unversionedMetaTypes"
      "\<forall>t\<in>set unversionedMetaTypes. sc_unversionedKinds s' (snd t) \<in> {None, Some t}"
    by auto
  have "sc_unversionedTypes s u \<noteq> None \<or> u \<in> set unversionedMetaTypes" if "sc_unversionedTypes s' u \<noteq> None" for u
    using s'(4) [OF that] t by (cases "u = t") simp_all
  moreover have "kinds_of ?s = kinds_of s" by (simp add: kinds_of_def fun_eq_iff)
  ultimately show ?case using s'(1-3,5) by (intro exI [of _ s']) simp
qed simp

lemma register_group:
  assumes "ready_for (gv_Group gv) s" and "distinct (List.map fst (group_pairs gv types))"
    and "gv_Group gv \<noteq> []" and "gv_Version gv \<noteq> []"
  shows "\<exists>s'. rbind (AddKnownTypes gv types s) (AddToGroupVersion gv) = Ok s' \<and> registered s gv types s'"
proof -
  have group: "gv_Group gvk = gv_Group gv \<and> gv_Version gvk \<noteq> []"
    if "(gvk, t) \<in> set (List.map (\<lambda>t. (WithKind gv (snd t), t)) types @ meta_pairs gv)" for gvk t
    using that assms(4) by (auto simp: meta_pairs_def WithKind_def)
  have un: "gv_Version gvk \<noteq> []" if "(gvk, t) \<in> set unversioned_pairs" for gvk t
    using that by (auto simp: unversioned_pairs_def WithKind_def Unversioned_def)
  have "gv_Version gvk \<noteq> [] \<and> sc_gvkToType s gvk \<in> {None, Some t}" if "(gvk, t) \<in> set (group_pairs gv types)" for gvk t
  proof (cases "(gvk, t) \<in> set unversioned_pairs")
    case True
    have "\<forall>(gvk, t)\<in>set unversioned_pairs. sc_gvkToType s gvk \<in> {None, Some t}"
      using assms(1) unfolding ready_for_def by (elim conjE)
    from bspec [OF this True] show ?thesis using un [OF True] by simp
  next
    case False
    then have "gv_Group gvk = gv_Group gv \<and> gv_Version gvk \<noteq> []"
      using that by (intro group [of _ t]) (simp add: group_pairs_def)
    moreover from this have "sc_gvkToType s gvk = None" using assms(1) by (simp only: ready_for_def)
    ultimately show ?thesis by simp
  qed
  from add_pairs_Ok [OF assms(2) this] obtain s1 where
    s1: "add_pairs (group_pairs gv types) s = Ok s1" "added s (group_pairs gv types) s1" by blast
  have "\<forall>t\<in>set unversionedMetaTypes. sc_unversionedKinds s1 (snd t) \<in> {None, Some t}"
    using assms(1) s1(2) by (simp add: ready_for_def added_def)
  from addUnversioned_Ok [OF order_refl this, of Unversioned] obtain s2 where
    s2: "rfold (addUnversioned Unversioned) s1 unversionedMetaTypes = Ok s2" "sc_gvkToType s2 = sc_gvkToType s1"
      "kinds_of s2 = kinds_of s1"
      "\<forall>t. sc_unversionedTypes s2 t \<noteq> None \<longrightarrow> sc_unversionedTypes s1 t \<noteq> None \<or> t \<in> set unversionedMetaTypes"
      "\<forall>t\<in>set unversionedMetaTypes. sc_unversionedKinds s2 (snd t) \<in> {None, Some t}" by blast
  have "rbind (AddKnownTypes gv types s) (AddToGroupVersion gv) =
      rbind (add_pairs (group_pairs gv types) s) (\<lambda>s. rfold (addUnversioned Unversioned) s unversionedMetaTypes)"
    by (simp add: AddToGroupVersion_def [abs_def] AddUnversionedTypes_def [abs_def] AddKnownTypes_pairs [abs_def]
        group_pairs_def unversioned_pairs_def meta_pairs_def add_pairs_append rbind_assoc)
      (simp add: add_pairs_def [abs_def] rfold_append rbind_assoc)
  moreover have "registered s gv types s2"
    using s1(2) s2(2-5) assms(1) by (auto simp: registered_def added_def ready_for_def)
  ultimately show ?thesis using s1(1) s2(1) by simp
qed

lemma registeredD:
  assumes "registered s gv types s'"
  shows "sc_gvkToType s' = sc_gvkToType s ++ map_of (group_pairs gv types)"
    and "set (kinds_of s' t) = set (kinds_of s t) \<union> {gvk. (gvk, t) \<in> set (group_pairs gv types)}"
    and "distinct (kinds_of s' t)"
    and "sc_unversionedTypes s' t \<noteq> None \<Longrightarrow> sc_unversionedTypes s t \<noteq> None \<or> t \<in> set unversionedMetaTypes"
    and "\<forall>t\<in>set unversionedMetaTypes. sc_unversionedKinds s' (snd t) \<in> {None, Some t}"
  using assms unfolding registered_def by blast+

lemma pairs_group:
  assumes "(gvk, t) \<in> set (group_pairs gv types)"
  shows "gv_Group gvk \<in> {gv_Group gv, []}"
  using assms by (auto simp: group_pairs_def meta_pairs_def unversioned_pairs_def WithKind_def Unversioned_def)

lemma map_of_pairs_other:
  assumes "gv_Group gvk \<noteq> gv_Group gv" and "gv_Group gvk \<noteq> []"
  shows "map_of (group_pairs gv types) gvk = None"
proof (cases "map_of (group_pairs gv types) gvk")
  case (Some t)
  from pairs_group [OF map_of_SomeD [OF this]] assms show ?thesis by simp
qed

lemma registered_ready:
  assumes "registered s gv types s'" and "ready_for g s" and "distinct (List.map fst (group_pairs gv types))"
    and "g \<noteq> gv_Group gv" and "g \<noteq> []"
  shows "ready_for g s'"
proof -
  have new: "sc_gvkToType s' = sc_gvkToType s ++ map_of (group_pairs gv types)" using assms(1) by (rule registeredD)
  have "sc_gvkToType s' gvk = None" if "gv_Group gvk = g" for gvk
    using that map_of_pairs_other [of gvk gv types] assms(2,4,5) by (simp add: new map_add_def ready_for_def)
  moreover have "sc_gvkToType s' gvk = Some t" if "(gvk, t) \<in> set unversioned_pairs" for gvk t
  proof -
    have "map_of (group_pairs gv types) gvk = Some t"
      by (rule map_of_is_SomeI [OF assms(3)]) (simp add: group_pairs_def that)
    then show ?thesis by (simp add: new map_add_def)
  qed
  moreover have "\<forall>t\<in>set unversionedMetaTypes. sc_unversionedKinds s' (snd t) \<in> {None, Some t}"
    and "\<forall>t. distinct (kinds_of s' t)"
    using registeredD(3,5) [OF assms(1)] by blast+
  ultimately show ?thesis unfolding ready_for_def by blast
qed

text \<open>A type of the group has one kind, its own name, and the kind has that type; other groups keep both.\<close>

definition only_kind :: "scheme \<Rightarrow> goType \<Rightarrow> groupVersionKind \<Rightarrow> bool" where
  "only_kind s t gvk \<longleftrightarrow> kinds_of s t = [gvk] \<and> sc_unversionedTypes s t = None \<and> sc_gvkToType s gvk = Some t"

abbreviation (input) metaPackage :: string where "metaPackage \<equiv> ''k8s.io/apimachinery/pkg/apis/meta/v1''"

lemma pairs_own:
  assumes "(gvk, t) \<in> set (group_pairs gv types)" and "fst t \<noteq> metaPackage"
  shows "t \<in> set types \<and> gvk = WithKind gv (snd t)"
  using assms by (auto simp: group_pairs_def meta_pairs_def unversioned_pairs_def optionsTypes_def unversionedMetaTypes_def)

lemma unversioned_package: "t \<in> set unversionedMetaTypes \<Longrightarrow> fst t = metaPackage"
  by (auto simp: unversionedMetaTypes_def)

lemma singleton_list:
  assumes "distinct xs" and "set xs = {x}"
  shows "xs = [x]"
proof -
  have "length xs = 1" using assms distinct_card [of xs] by simp
  then show ?thesis using assms(2) by (cases xs) auto
qed

lemma registered_versioned:
  assumes "registered s gv types s'" and "fst t \<noteq> metaPackage" and "sc_unversionedTypes s t = None"
  shows "sc_unversionedTypes s' t = None"
proof (rule ccontr)
  assume "sc_unversionedTypes s' t \<noteq> None"
  from registeredD(4) [OF assms(1) this] assms(3) have "t \<in> set unversionedMetaTypes" by simp
  with assms(2) show False using unversioned_package by simp
qed

lemma registered_only_kind:
  assumes "registered s gv types s'" and "t \<in> set types" and "fst t \<noteq> metaPackage"
    and "kinds_of s t = []" and "sc_unversionedTypes s t = None" and "distinct (List.map fst (group_pairs gv types))"
  shows "only_kind s' t (WithKind gv (snd t))"
proof -
  have in_pairs: "(WithKind gv (snd t), t) \<in> set (group_pairs gv types)" using assms(2) by (auto simp: group_pairs_def)
  then have "{gvk. (gvk, t) \<in> set (group_pairs gv types)} = {WithKind gv (snd t)}"
    using pairs_own [OF _ assms(3)] by blast
  then have "kinds_of s' t = [WithKind gv (snd t)]"
    using registeredD(2,3) [OF assms(1), of t] assms(4) by (intro singleton_list) simp_all
  moreover have "sc_unversionedTypes s' t = None"
    by (rule registered_versioned [OF assms(1,3,5)])
  moreover have "sc_gvkToType s' (WithKind gv (snd t)) = Some t"
    using map_of_is_SomeI [OF assms(6) in_pairs] registeredD(1) [OF assms(1)] by (simp add: map_add_def)
  ultimately show ?thesis by (simp add: only_kind_def)
qed

lemma registered_keeps_kind:
  assumes "registered s gv types s'" and "only_kind s t gvk" and "t \<notin> set types" and "fst t \<noteq> metaPackage"
    and "gv_Group gvk \<noteq> gv_Group gv" and "gv_Group gvk \<noteq> []"
  shows "only_kind s' t gvk"
proof -
  have "{gvk. (gvk, t) \<in> set (group_pairs gv types)} = {}" using pairs_own [OF _ assms(4)] assms(3) by blast
  then have "kinds_of s' t = [gvk]"
    using registeredD(2,3) [OF assms(1), of t] assms(2) by (intro singleton_list) (simp_all add: only_kind_def)
  moreover have "sc_unversionedTypes s' t = None"
    using registered_versioned [OF assms(1,4)] assms(2) by (simp add: only_kind_def)
  moreover have "sc_gvkToType s' gvk = Some t"
    using map_of_pairs_other [OF assms(5,6)] registeredD(1) [OF assms(1)] assms(2)
    by (simp add: only_kind_def map_add_def)
  ultimately show ?thesis by (simp add: only_kind_def)
qed

lemma registered_untouched:
  assumes "registered s gv types s'" and "t \<notin> set types" and "fst t \<noteq> metaPackage" and "kinds_of s t = []"
    and "sc_unversionedTypes s t = None"
  shows "kinds_of s' t = [] \<and> sc_unversionedTypes s' t = None"
proof -
  have "{gvk. (gvk, t) \<in> set (group_pairs gv types)} = {}" using pairs_own [OF _ assms(3)] assms(2) by blast
  then have "set (kinds_of s' t) = {}" using registeredD(2) [OF assms(1), of t] assms(4) by simp
  then show ?thesis using registered_versioned [OF assms(1,3,5)] by simp
qed

section \<open>The operator's scheme\<close>

text \<open>\<open>apiutil.GVKForObject\<close> of a typed object that does not carry a kind of its own.\<close>

definition GVKForObject :: "goType \<Rightarrow> scheme \<Rightarrow> groupVersionKind result" where
  "GVKForObject t s =
     (case ObjectKinds s t of
        Err e \<Rightarrow> Err e
      | Panic p \<Rightarrow> Panic p
      | Ok (gvks, isUnversioned) \<Rightarrow>
          if isUnversioned then Err (ErrText ''cannot create group-version-kind for unversioned type'')
          else if length gvks < 1 then Err (ErrText ''no GroupVersionKind associated with Go type'')
          else if length gvks > 1 then Err (ErrText ''multiple GroupVersionKinds associated with Go type'')
          else Ok (gvks ! 0))"

lemma only_kind_found:
  assumes "only_kind s t gvk"
  shows "ObjectKinds s t = Ok ([gvk], False)" and "GVKForObject t s = Ok gvk" and "scheme_New s gvk = Ok t"
  using assms by (auto simp: only_kind_def kinds_of_def ObjectKinds_def GVKForObject_def scheme_New_def split: option.splits)

abbreviation (input) nodeSwap_types :: "goType list" where
  "nodeSwap_types \<equiv> [nodeSwapType ''NodeSwap'', nodeSwapType ''NodeSwapList'']"

lemma pairs_distinct:
  "distinct (List.map fst (group_pairs GroupVersion nodeSwap_types))"
  "distinct (List.map fst (group_pairs mcfgv1_GroupVersion mcfgv1_types))"
  by code_simp+

lemma v1alpha1_AddToScheme_eq:
  "v1alpha1_AddToScheme s = rbind (AddKnownTypes GroupVersion nodeSwap_types s) (AddToGroupVersion GroupVersion)"
  by (simp add: v1alpha1_AddToScheme_def v1alpha1_init_def Register_def SchemeBuilder_def builder_AddToScheme_def)

lemma mcfgv1_AddToScheme_eq:
  "mcfgv1_AddToScheme s = rbind (AddKnownTypes mcfgv1_GroupVersion mcfgv1_types s) (AddToGroupVersion mcfgv1_GroupVersion)"
  by (simp add: mcfgv1_AddToScheme_def builder_AddToScheme_def)

text \<open>What client-go may have registered: nothing of the operator's two groups, nor its types.\<close>

definition foreign_scheme :: "scheme \<Rightarrow> bool" where
  "foreign_scheme s \<longleftrightarrow> ready_for ''node-swap.openshift.io'' s \<and> ready_for ''machineconfiguration.openshift.io'' s
     \<and> (\<forall>t\<in>set (nodeSwap_types @ mcfgv1_types). kinds_of s t = [] \<and> sc_unversionedTypes s t = None)"

lemma own_packages:
  "t \<in> set nodeSwap_types \<Longrightarrow> fst t \<noteq> metaPackage \<and> t \<notin> set mcfgv1_types"
  "t \<in> set mcfgv1_types \<Longrightarrow> fst t \<noteq> metaPackage \<and> t \<notin> set nodeSwap_types"
  by (auto simp: mcfgv1_types_def)

lemma own_groups [simp]:
  "gv_Group GroupVersion = ''node-swap.openshift.io''" "gv_Version GroupVersion = ''v1alpha1''"
  "gv_Group mcfgv1_GroupVersion = ''machineconfiguration.openshift.io''" "gv_Version mcfgv1_GroupVersion = ''v1''"
  by (simp_all add: GroupVersion_def mcfgv1_GroupVersion_def)

lemma WithKind_simps [simp]: "gv_Group (WithKind gv k) = gv_Group gv" "gk_Kind (WithKind gv k) = k"
  by (simp_all add: WithKind_def)

lemma main_init_Ok:
  assumes "clientgo NewScheme = Ok s0" and "foreign_scheme s0"
  obtains s where "main_init clientgo = Ok s"
    "\<And>t. t \<in> set nodeSwap_types \<Longrightarrow> only_kind s t (WithKind GroupVersion (snd t))"
    "\<And>t. t \<in> set mcfgv1_types \<Longrightarrow> only_kind s t (WithKind mcfgv1_GroupVersion (snd t))"
proof -
  have ready: "ready_for (gv_Group GroupVersion) s0" "ready_for (gv_Group mcfgv1_GroupVersion) s0"
    and none: "\<And>t. t \<in> set nodeSwap_types \<or> t \<in> set mcfgv1_types \<Longrightarrow> kinds_of s0 t = [] \<and> sc_unversionedTypes s0 t = None"
    using assms(2) unfolding foreign_scheme_def own_groups set_append by blast+
  obtain s1 where s1: "v1alpha1_AddToScheme s0 = Ok s1" "registered s0 GroupVersion nodeSwap_types s1"
    using register_group [OF ready(1) pairs_distinct(1)] unfolding v1alpha1_AddToScheme_eq by auto
  have "ready_for (gv_Group mcfgv1_GroupVersion) s1"
    by (rule registered_ready [OF s1(2) ready(2) pairs_distinct(1)]) simp_all
  then obtain s2 where s2: "mcfgv1_AddToScheme s1 = Ok s2" "registered s1 mcfgv1_GroupVersion mcfgv1_types s2"
    using register_group [OF _ pairs_distinct(2)] unfolding mcfgv1_AddToScheme_eq by auto
  have "main_init clientgo = Ok s2" by (simp add: main_init_def assms(1) s1(1) s2(1))
  moreover have "only_kind s2 t (WithKind GroupVersion (snd t))" if "t \<in> set nodeSwap_types" for t
    by (rule registered_keeps_kind [OF s2(2) registered_only_kind [OF s1(2) that]])
      (use that none own_packages(1) [OF that] pairs_distinct(1) in simp_all)
  moreover have "only_kind s2 t (WithKind mcfgv1_GroupVersion (snd t))" if t: "t \<in> set mcfgv1_types" for t
  proof -
    have "kinds_of s1 t = [] \<and> sc_unversionedTypes s1 t = None"
      by (rule registered_untouched [OF s1(2)]) (use t none own_packages(2) [OF t] in blast)+
    then show ?thesis
      by (intro registered_only_kind [OF s2(2) t]) (use own_packages(2) [OF t] pairs_distinct(2) in simp_all)
  qed
  ultimately show thesis by (rule that)
qed

text \<open>
  C21: the command's \<open>init\<close> does not panic and leaves a scheme in which each type of the operator's own
  group and of the machine configuration group stands for exactly the kind of its name, in its group
  version, and each of these kinds for its type again, if client-go registered nothing of the two groups.
\<close>

theorem operator_kinds_registered:
  assumes "clientgo NewScheme = Ok s0" and "foreign_scheme s0"
  shows "\<exists>s. main_init clientgo = Ok s
    \<and> (\<forall>t\<in>set [nodeSwapType ''NodeSwap'', nodeSwapType ''NodeSwapList''].
         GVKForObject t s = Ok (WithKind GroupVersion (snd t)) \<and> scheme_New s (WithKind GroupVersion (snd t)) = Ok t)
    \<and> (\<forall>t\<in>set mcfgv1_types.
         GVKForObject t s = Ok (WithKind mcfgv1_GroupVersion (snd t)) \<and> scheme_New s (WithKind mcfgv1_GroupVersion (snd t)) = Ok t)"
proof -
  obtain s where "main_init clientgo = Ok s"
    "\<And>t. t \<in> set nodeSwap_types \<Longrightarrow> only_kind s t (WithKind GroupVersion (snd t))"
    "\<And>t. t \<in> set mcfgv1_types \<Longrightarrow> only_kind s t (WithKind mcfgv1_GroupVersion (snd t))"
    using main_init_Ok [of clientgo s0, OF assms] by blast
  then show ?thesis using only_kind_found(2,3) by (intro exI [of _ s]) blast
qed

text \<open>A client-go with one group.\<close>

definition sample_clientgo :: "scheme \<Rightarrow> scheme result" where
  "sample_clientgo s = rbind (AddKnownTypes \<lparr>gv_Group = ''apps'', gv_Version = ''v1''\<rparr> [(''k8s.io/api/apps/v1'', ''Deployment'')] s)
     (AddToGroupVersion \<lparr>gv_Group = ''apps'', gv_Version = ''v1''\<rparr>)"

lemma ready_for_NewScheme [simp]: "ready_for g NewScheme"
  by (auto simp: ready_for_def NewScheme_def kinds_of_def)

lemma sample_clientgo_foreign: "\<exists>s0. sample_clientgo NewScheme = Ok s0 \<and> foreign_scheme s0"
proof -
  let ?gv = "\<lparr>gv_Group = ''apps'', gv_Version = ''v1''\<rparr>" and ?types = "[(''k8s.io/api/apps/v1'', ''Deployment'')]"
  have d: "distinct (List.map fst (group_pairs ?gv ?types))" by code_simp
  obtain s0 where s0: "sample_clientgo NewScheme = Ok s0" "registered NewScheme ?gv ?types s0"
    using register_group [OF ready_for_NewScheme d] by (auto simp: sample_clientgo_def)
  have "ready_for ''node-swap.openshift.io'' s0" "ready_for ''machineconfiguration.openshift.io'' s0"
    by (rule registered_ready [OF s0(2) ready_for_NewScheme d]; simp)+
  moreover have "kinds_of s0 t = [] \<and> sc_unversionedTypes s0 t = None" if "t \<in> set (nodeSwap_types @ mcfgv1_types)" for t
    by (rule registered_untouched [OF s0(2)])
      (use that in \<open>auto simp: mcfgv1_types_def NewScheme_def kinds_of_def\<close>)
  ultimately show ?thesis using s0(1) unfolding foreign_scheme_def by blast
qed

theorem operator_kinds_registered_witness:
  "\<exists>s. main_init sample_clientgo = Ok s
     \<and> GVKForObject (nodeSwapType ''NodeSwap'') s =
         Ok \<lparr>gv_Group = ''node-swap.openshift.io'', gv_Version = ''v1alpha1'', gk_Kind = ''NodeSwap''\<rparr>"
proof -
  obtain s0 where s0: "sample_clientgo NewScheme = Ok s0" "foreign_scheme s0" using sample_clientgo_foreign by blast
  from operator_kinds_registered [of sample_clientgo s0, OF s0] show ?thesis by (auto simp: WithKind_def)
qed

end
