(* ===== verification/WorkQueue.thy ===== *)
theory WorkQueue
  imports Prelude
begin

text \<open>
  The controller's work queue: the de-duplicating queue, the delaying queue and the rate-limited queue
  of \<open>src/vendor/k8s.io/client-go/util/workqueue\<close>. The Go structs embed one another; here each is a record
  that extends the one it embeds, so the operations of the inner queue work on the outer one. Times
  are nanoseconds; a set of Go is a set, the heap of the waiting entries is the list of them in the
  order of their times. The locale \<open>work_queue\<close> states what a controller relies on.
\<close>

section \<open>The queue\<close>

record 'a workqueue =
  wq_queue :: "'a list"
  wq_dirty :: "'a set"
  wq_processing :: "'a set"
  wq_shuttingDown :: bool

definition wq_Add :: "'a \<Rightarrow> ('a, 'b) workqueue_scheme \<Rightarrow> ('a, 'b) workqueue_scheme" where
  "wq_Add item q =
     (if wq_shuttingDown q then q
      else if item \<in> wq_dirty q then q
      else
        let q = q\<lparr>wq_dirty := insert item (wq_dirty q)\<rparr> in
        if item \<in> wq_processing q then q
        else q\<lparr>wq_queue := wq_queue q @ [item]\<rparr>)"

text \<open>\<open>Get\<close> blocks while the queue is empty and not shutting down.\<close>

datatype 'a got = Blocks | Shutdown | Item 'a

definition wq_Get :: "('a, 'b) workqueue_scheme \<Rightarrow> 'a got \<times> ('a, 'b) workqueue_scheme" where
  "wq_Get q =
     (case wq_queue q of
        [] \<Rightarrow> (if wq_shuttingDown q then Shutdown else Blocks, q)
      | item # rest \<Rightarrow>
          (Item item, q\<lparr>wq_queue := rest, wq_processing := insert item (wq_processing q),
             wq_dirty := wq_dirty q - {item}\<rparr>))"

definition wq_Done :: "'a \<Rightarrow> ('a, 'b) workqueue_scheme \<Rightarrow> ('a, 'b) workqueue_scheme" where
  "wq_Done item q =
     (let q = q\<lparr>wq_processing := wq_processing q - {item}\<rparr> in
      if item \<in> wq_dirty q then q\<lparr>wq_queue := wq_queue q @ [item]\<rparr> else q)"

definition wq_ShutDown :: "('a, 'b) workqueue_scheme \<Rightarrow> ('a, 'b) workqueue_scheme" where
  "wq_ShutDown q = q\<lparr>wq_shuttingDown := True\<rparr>"

section \<open>Delayed additions\<close>

text \<open>
  \<open>dq_channel\<close> is \<open>waitingForAddCh\<close> (its bound of 1000 makes a sender wait, and loses nothing),
  \<open>dq_waiting\<close> the heap of the waiting loop.
\<close>

record 'a delayingQueue = "'a workqueue" +
  dq_channel :: "('a \<times> int) list"
  dq_waiting :: "('a \<times> int) list"

definition dq_AddAfter :: "int \<Rightarrow> 'a \<Rightarrow> int \<Rightarrow> ('a, 'b) delayingQueue_scheme \<Rightarrow> ('a, 'b) delayingQueue_scheme" where
  "dq_AddAfter now item duration q =
     (if wq_shuttingDown q then q
      else if duration \<le> 0 then wq_Add item q
      else q\<lparr>dq_channel := dq_channel q @ [(item, now + duration)]\<rparr>)"

text \<open>\<open>insert\<close>: an item that waits already waits until the sooner of the two times.\<close>

definition dq_insert :: "'a \<times> int \<Rightarrow> ('a \<times> int) list \<Rightarrow> ('a \<times> int) list" where
  "dq_insert entry waiting =
     (case map_of waiting (fst entry) of
        Some readyAt \<Rightarrow>
          if readyAt > snd entry then insort_key snd entry (filter (\<lambda>e. fst e \<noteq> fst entry) waiting) else waiting
      | None \<Rightarrow> insort_key snd entry waiting)"

text \<open>The two things the waiting loop does: receive an entry, add the entries that are ready.\<close>

definition dq_receive :: "int \<Rightarrow> ('a, 'b) delayingQueue_scheme \<Rightarrow> ('a, 'b) delayingQueue_scheme" where
  "dq_receive now q =
     (if wq_shuttingDown q then q
      else case dq_channel q of
        [] \<Rightarrow> q
      | entry # rest \<Rightarrow>
          (let q = q\<lparr>dq_channel := rest\<rparr> in
           if snd entry > now then q\<lparr>dq_waiting := dq_insert entry (dq_waiting q)\<rparr>
           else wq_Add (fst entry) q))"

definition dq_ready :: "int \<Rightarrow> ('a, 'b) delayingQueue_scheme \<Rightarrow> ('a, 'b) delayingQueue_scheme" where
  "dq_ready now q =
     (if wq_shuttingDown q then q
      else fold (\<lambda>entry. wq_Add (fst entry)) (takeWhile (\<lambda>entry. snd entry \<le> now) (dq_waiting q))
             (q\<lparr>dq_waiting := dropWhile (\<lambda>entry. snd entry \<le> now) (dq_waiting q)\<rparr>))"

section \<open>Rate limiting\<close>

text \<open>
  \<open>DefaultTypedControllerRateLimiter\<close>: the worse of 5 ms doubled with every failure of the item, up to
  1000 s, and of the delay that a token bucket asks for, which is an argument (\<open>golang.org/x/time/rate\<close>).
  The product is computed in a \<open>float64\<close>, exactly, since a power of two only moves the exponent.
\<close>

record 'a rateLimitingQueue = "'a delayingQueue" +
  rl_failures :: "'a \<Rightarrow> nat"

definition baseDelay :: int where "baseDelay = 5000000"
definition maxDelay :: int where "maxDelay = 1000000000000"

definition exponential_When :: "'a \<Rightarrow> ('a \<Rightarrow> nat) \<Rightarrow> int \<times> ('a \<Rightarrow> nat)" where
  "exponential_When item failures =
     (let exp = failures item;
          failures = failures(item := failures item + 1);
          backoff = baseDelay * 2 ^ exp
      in (if backoff > 2 ^ 63 then maxDelay else if backoff > maxDelay then maxDelay else backoff, failures))"

definition maxOf_When :: "int \<Rightarrow> 'a \<Rightarrow> ('a \<Rightarrow> nat) \<Rightarrow> int \<times> ('a \<Rightarrow> nat)" where
  "maxOf_When bucket item failures =
     (let ret = 0;
          (curr, failures) = exponential_When item failures;
          ret = (if curr > ret then curr else ret);
          ret = (if bucket > ret then bucket else ret)
      in (ret, failures))"

definition rl_AddRateLimited ::
  "int \<Rightarrow> int \<Rightarrow> 'a \<Rightarrow> ('a, 'b) rateLimitingQueue_scheme \<Rightarrow> ('a, 'b) rateLimitingQueue_scheme" where
  "rl_AddRateLimited now bucket item q =
     (let (duration, failures) = maxOf_When bucket item (rl_failures q)
      in dq_AddAfter now item duration (q\<lparr>rl_failures := failures\<rparr>))"

definition rl_Forget :: "'a \<Rightarrow> ('a, 'b) rateLimitingQueue_scheme \<Rightarrow> ('a, 'b) rateLimitingQueue_scheme" where
  "rl_Forget item q = q\<lparr>rl_failures := (rl_failures q)(item := 0)\<rparr>"

definition new_queue :: "'a rateLimitingQueue" where
  "new_queue = \<lparr>wq_queue = [], wq_dirty = {}, wq_processing = {}, wq_shuttingDown = False,
     dq_channel = [], dq_waiting = [], rl_failures = (\<lambda>_. 0)\<rparr>"

section \<open>What a controller relies on\<close>

text \<open>
  \<open>busy\<close> are the items handed out and not done, \<open>pending\<close> those that will be handed out again. An item
  that is handed out was pending and not busy, and no operation but that one ends that it is pending.
\<close>

locale work_queue =
  fixes ok :: "'q \<Rightarrow> bool" and pending :: "'q \<Rightarrow> 'a set" and busy :: "'q \<Rightarrow> 'a set"
    and add :: "'a \<Rightarrow> 'q \<Rightarrow> 'q" and get :: "'q \<Rightarrow> 'a got \<times> 'q" and finish :: "'a \<Rightarrow> 'q \<Rightarrow> 'q"
    and retry :: "int \<Rightarrow> int \<Rightarrow> 'a \<Rightarrow> 'q \<Rightarrow> 'q" and forget :: "'a \<Rightarrow> 'q \<Rightarrow> 'q"
    and receive :: "int \<Rightarrow> 'q \<Rightarrow> 'q" and ready :: "int \<Rightarrow> 'q \<Rightarrow> 'q"
  assumes add: "ok q \<Longrightarrow> ok (add x q) \<and> pending (add x q) = insert x (pending q) \<and> busy (add x q) = busy q"
    and get_item: "ok q \<Longrightarrow> get q = (Item x, q') \<Longrightarrow>
      ok q' \<and> x \<in> pending q \<and> x \<notin> busy q \<and> pending q \<subseteq> insert x (pending q') \<and> busy q' = insert x (busy q)"
    and get_blocks: "ok q \<Longrightarrow> get q = (Blocks, q') \<Longrightarrow> q' = q"
    and get_runs: "ok q \<Longrightarrow> fst (get q) \<noteq> Shutdown"
    and finish: "ok q \<Longrightarrow> x \<in> busy q \<Longrightarrow>
      ok (finish x q) \<and> pending (finish x q) = pending q \<and> busy (finish x q) = busy q - {x}"
    and retry: "ok q \<Longrightarrow>
      ok (retry now bucket x q) \<and> pending (retry now bucket x q) = insert x (pending q) \<and> busy (retry now bucket x q) = busy q"
    and forget: "ok q \<Longrightarrow> ok (forget x q) \<and> pending (forget x q) = pending q \<and> busy (forget x q) = busy q"
    and receive: "ok q \<Longrightarrow> ok (receive now q) \<and> pending (receive now q) = pending q \<and> busy (receive now q) = busy q"
    and ready: "ok q \<Longrightarrow> ok (ready now q) \<and> pending (ready now q) = pending q \<and> busy (ready now q) = busy q"
begin

text \<open>The turn of a worker, from handing out the item to \<open>Done\<close>, when the item failed and when it did not.\<close>

lemma failed_turn:
  assumes "ok q" and "x \<in> busy q"
  shows "ok (finish x (retry now bucket x q))" and "pending (finish x (retry now bucket x q)) = insert x (pending q)"
    and "busy (finish x (retry now bucket x q)) = busy q - {x}"
  using finish [of "retry now bucket x q" x] retry [OF assms(1), of now bucket x] assms(2) by auto

lemma good_turn:
  assumes "ok q" and "x \<in> busy q"
  shows "ok (finish x (forget x q))" and "pending (finish x (forget x q)) = pending q"
    and "busy (finish x (forget x q)) = busy q - {x}"
  using finish [of "forget x q" x] forget [OF assms(1), of x] assms(2) by auto

lemma add_all:
  assumes "ok q"
  shows "ok (fold add xs q)" and "pending (fold add xs q) = set xs \<union> pending q" and "busy (fold add xs q) = busy q"
proof -
  have "ok (fold add xs q) \<and> pending (fold add xs q) = set xs \<union> pending q \<and> busy (fold add xs q) = busy q"
    using assms by (induction xs arbitrary: q) (auto simp: add)
  then show "ok (fold add xs q)" "pending (fold add xs q) = set xs \<union> pending q" "busy (fold add xs q) = busy q"
    by auto
qed

end

section \<open>The queue keeps it\<close>

text \<open>
  The comments of the struct as an invariant: the queue holds, without repetition, the dirty items that
  are not being processed. The queue is not shut down; what waits for its time is in the channel or in
  the heap, which is sorted and has every item once.
\<close>

definition queue_ok :: "('a, 'b) workqueue_scheme \<Rightarrow> bool" where
  "queue_ok q \<longleftrightarrow> distinct (wq_queue q) \<and> set (wq_queue q) = wq_dirty q - wq_processing q"

definition waiting_ok :: "('a, 'b) delayingQueue_scheme \<Rightarrow> bool" where
  "waiting_ok q \<longleftrightarrow> sorted (List.map snd (dq_waiting q)) \<and> distinct (List.map fst (dq_waiting q))"

definition running :: "('a, 'b) delayingQueue_scheme \<Rightarrow> bool" where
  "running q \<longleftrightarrow> queue_ok q \<and> waiting_ok q \<and> \<not> wq_shuttingDown q"

definition pending :: "('a, 'b) delayingQueue_scheme \<Rightarrow> 'a set" where
  "pending q = wq_dirty q \<union> fst ` set (dq_channel q) \<union> fst ` set (dq_waiting q)"

lemma queue_ok_Add: "queue_ok q \<Longrightarrow> queue_ok (wq_Add x q)"
  by (cases "x \<in> wq_dirty q"; cases "x \<in> wq_processing q") (auto simp: queue_ok_def wq_Add_def Let_def)

lemma queue_ok_Get:
  assumes "queue_ok q"
  shows "queue_ok (snd (wq_Get q))"
proof (cases "wq_queue q")
  case (Cons x rest)
  then have "set rest = wq_dirty q - wq_processing q - {x}" using assms by (auto simp: queue_ok_def)
  then show ?thesis using assms Cons by (auto simp: queue_ok_def wq_Get_def)
qed (use assms in \<open>simp add: wq_Get_def\<close>)

lemma queue_ok_Done: "queue_ok q \<Longrightarrow> x \<in> wq_processing q \<Longrightarrow> queue_ok (wq_Done x q)"
  by (cases "x \<in> wq_dirty q") (auto simp: queue_ok_def wq_Done_def Let_def)

lemma Add_simps [simp]:
  "dq_channel (wq_Add x d) = dq_channel d" "dq_waiting (wq_Add x d) = dq_waiting d"
  "wq_processing (wq_Add x q) = wq_processing q" "wq_shuttingDown (wq_Add x q) = wq_shuttingDown q"
  by (simp_all add: wq_Add_def Let_def)

lemma Add_dirty: "\<not> wq_shuttingDown q \<Longrightarrow> wq_dirty (wq_Add x q) = insert x (wq_dirty q)"
  by (auto simp: wq_Add_def Let_def)

lemma running_Add: "running q \<Longrightarrow> running (wq_Add x q)"
  by (simp add: running_def waiting_ok_def queue_ok_Add)

lemma pending_Add: "running q \<Longrightarrow> pending (wq_Add x q) = insert x (pending q)"
  by (auto simp: running_def pending_def Add_dirty)

lemma Add_all:
  assumes "running q"
  shows "running (fold wq_Add xs q)" and "pending (fold wq_Add xs q) = set xs \<union> pending q"
    and "wq_processing (fold wq_Add xs q) = wq_processing q" and "wq_dirty (fold wq_Add xs q) = set xs \<union> wq_dirty q"
proof -
  have "running (fold wq_Add xs q) \<and> pending (fold wq_Add xs q) = set xs \<union> pending q
      \<and> wq_processing (fold wq_Add xs q) = wq_processing q \<and> wq_dirty (fold wq_Add xs q) = set xs \<union> wq_dirty q"
    using assms
  proof (induction xs arbitrary: q)
    case (Cons x xs)
    have "wq_dirty (wq_Add x q) = insert x (wq_dirty q)" using Cons.prems by (simp add: running_def Add_dirty)
    then show ?case
      using Cons.IH [OF running_Add [OF Cons.prems, of x]] pending_Add [OF Cons.prems, of x] by auto
  qed simp
  then show "running (fold wq_Add xs q)" "pending (fold wq_Add xs q) = set xs \<union> pending q"
    "wq_processing (fold wq_Add xs q) = wq_processing q" "wq_dirty (fold wq_Add xs q) = set xs \<union> wq_dirty q"
    by auto
qed

lemma insort_key_keys: "fst ` set (insort_key snd e w) = insert (fst e) (fst ` set w)"
  by (simp add: set_insort_key)

lemma distinct_insort_fst:
  "distinct (List.map fst (insort_key snd e w)) \<longleftrightarrow> fst e \<notin> fst ` set w \<and> distinct (List.map fst w)"
  by (induction w) (auto simp: set_insort_key)

lemma dq_insert_keys: "fst ` set (dq_insert e w) = insert (fst e) (fst ` set w)"
proof (cases "map_of w (fst e)")
  case (Some t)
  then have "fst e \<in> fst ` set w" by (metis map_of_eq_None_iff option.distinct(1))
  moreover have "insert (fst e) (fst ` set (filter (\<lambda>d. fst d \<noteq> fst e) w)) = insert (fst e) (fst ` set w)" by auto
  ultimately show ?thesis by (auto simp: dq_insert_def Some set_insort_key)
qed (simp add: dq_insert_def set_insort_key)

lemma dq_insert_ok:
  assumes "sorted (List.map snd w)" and "distinct (List.map fst w)"
  shows "sorted (List.map snd (dq_insert e w))" and "distinct (List.map fst (dq_insert e w))"
proof -
  have s: "sorted (List.map snd (filter P w))" for P using assms(1) by (rule sorted_filter)
  have d: "distinct (List.map fst (filter P w))" for P using assms(2) by (rule distinct_map_filter)
  have none: "fst e \<notin> fst ` set w" if "map_of w (fst e) = None"
    using that by (metis map_of_eq_None_iff)
  show "sorted (List.map snd (dq_insert e w))" "distinct (List.map fst (dq_insert e w))"
    using assms s d none by (auto simp: dq_insert_def sorted_insort_key distinct_insort_fst split: option.split)
qed

lemma Get_Item:
  assumes "running q" and "wq_Get q = (Item x, q')"
  shows "running q'" and "x \<in> pending q" and "x \<notin> wq_processing q" and "pending q \<subseteq> insert x (pending q')"
    and "wq_processing q' = insert x (wq_processing q)" and "dq_channel q' = dq_channel q" and "dq_waiting q' = dq_waiting q"
proof -
  obtain rest where q: "wq_queue q = x # rest"
    and q': "q' = q\<lparr>wq_queue := rest, wq_processing := insert x (wq_processing q), wq_dirty := wq_dirty q - {x}\<rparr>"
    using assms(2) by (auto simp: wq_Get_def split: list.splits if_splits)
  have "queue_ok q'" using queue_ok_Get [of q] assms by (simp add: running_def)
  then show "running q'" using assms(1) by (simp add: running_def waiting_ok_def q')
  have "x \<in> wq_dirty q - wq_processing q" using assms(1) q by (auto simp: running_def queue_ok_def)
  then show "x \<in> pending q" "x \<notin> wq_processing q" by (auto simp: pending_def)
  show "pending q \<subseteq> insert x (pending q')" "wq_processing q' = insert x (wq_processing q)"
    "dq_channel q' = dq_channel q" "dq_waiting q' = dq_waiting q"
    by (auto simp: q' pending_def)
qed

lemma Done_running:
  assumes "running q" and "x \<in> wq_processing q"
  shows "running (wq_Done x q)" and "pending (wq_Done x q) = pending q"
    and "wq_processing (wq_Done x q) = wq_processing q - {x}"
  using assms queue_ok_Done [of q x] by (auto simp: running_def waiting_ok_def pending_def wq_Done_def Let_def)

lemma AddAfter_running:
  assumes "running q"
  shows "running (dq_AddAfter now x d q)" and "pending (dq_AddAfter now x d q) = insert x (pending q)"
    and "wq_processing (dq_AddAfter now x d q) = wq_processing q"
  using assms running_Add [OF assms, of x] pending_Add [OF assms, of x]
  by (auto simp: dq_AddAfter_def running_def queue_ok_def waiting_ok_def pending_def)

lemma receive_running:
  assumes "running q"
  shows "running (dq_receive now q)" and "pending (dq_receive now q) = pending q"
    and "wq_processing (dq_receive now q) = wq_processing q"
proof -
  have "running (dq_receive now q) \<and> pending (dq_receive now q) = pending q
      \<and> wq_processing (dq_receive now q) = wq_processing q"
  proof (cases "dq_channel q")
    case (Cons e rest)
    let ?q = "q\<lparr>dq_channel := rest\<rparr>"
    have r: "running ?q" using assms by (simp add: running_def queue_ok_def waiting_ok_def)
    have p: "pending q = insert (fst e) (pending ?q)" by (auto simp: pending_def Cons)
    show ?thesis
    proof (cases "snd e > now")
      case True
      have w: "waiting_ok (?q\<lparr>dq_waiting := dq_insert e (dq_waiting q)\<rparr>)"
        using dq_insert_ok [of "dq_waiting q" e] assms by (simp add: running_def waiting_ok_def)
      have "pending (?q\<lparr>dq_waiting := dq_insert e (dq_waiting q)\<rparr>) = insert (fst e) (pending ?q)"
        by (simp add: pending_def dq_insert_keys)
      then show ?thesis using True w assms p by (simp add: dq_receive_def Cons running_def queue_ok_def)
    next
      case False
      then have "dq_receive now q = wq_Add (fst e) ?q" using assms by (simp add: dq_receive_def Cons running_def)
      then show ?thesis using running_Add [OF r] pending_Add [OF r] p by simp
    qed
  qed (use assms in \<open>simp add: dq_receive_def\<close>)
  then show "running (dq_receive now q)" "pending (dq_receive now q) = pending q"
    "wq_processing (dq_receive now q) = wq_processing q" by auto
qed

lemma takeWhile_sorted:
  "sorted (List.map snd w) \<Longrightarrow> set (takeWhile (\<lambda>e. snd e \<le> (t::int)) w) = {e \<in> set w. snd e \<le> t}"
  by (induction w) (auto dest: order_trans)

lemma ready_running:
  assumes "running q"
  shows "running (dq_ready now q)" and "pending (dq_ready now q) = pending q"
    and "wq_processing (dq_ready now q) = wq_processing q"
    and "wq_dirty (dq_ready now q) = fst ` {e \<in> set (dq_waiting q). snd e \<le> now} \<union> wq_dirty q"
proof -
  let ?P = "\<lambda>e. snd e \<le> now" and ?w = "dq_waiting q"
  let ?q = "q\<lparr>dq_waiting := dropWhile ?P ?w\<rparr>"
  have w: "sorted (List.map snd ?w)" "distinct (List.map fst ?w)" using assms by (simp_all add: running_def waiting_ok_def)
  have split: "takeWhile ?P ?w @ dropWhile ?P ?w = ?w" by simp
  have "sorted (List.map snd (dropWhile ?P ?w))" "distinct (List.map fst (dropWhile ?P ?w))"
    using w by (metis dropWhile_eq_drop drop_map sorted_wrt_drop, metis dropWhile_eq_drop drop_map distinct_drop)
  then have r: "running ?q" using assms by (simp add: running_def queue_ok_def waiting_ok_def)
  have eq: "dq_ready now q = fold wq_Add (List.map fst (takeWhile ?P ?w)) ?q"
    using assms by (simp add: dq_ready_def running_def fold_map comp_def)
  have take: "set (takeWhile ?P ?w) = {e \<in> set ?w. ?P e}"
    using w(1) by (rule takeWhile_sorted)
  have "pending q = fst ` set (takeWhile ?P ?w) \<union> pending ?q"
    using arg_cong [OF split, of "\<lambda>l. fst ` set l"] unfolding set_append image_Un by (auto simp: pending_def)
  then show "running (dq_ready now q)" "pending (dq_ready now q) = pending q"
    "wq_processing (dq_ready now q) = wq_processing q"
    "wq_dirty (dq_ready now q) = fst ` {e \<in> set ?w. ?P e} \<union> wq_dirty q"
    using Add_all [OF r, of "List.map fst (takeWhile ?P ?w)"] by (simp_all add: eq take)
qed

text \<open>\<open>AddRateLimited\<close> and \<open>Forget\<close> are an \<open>AddAfter\<close> and nothing, but for the counters.\<close>

lemma failures_running [simp]:
  "running (q\<lparr>rl_failures := f\<rparr>) = running q" "pending (q\<lparr>rl_failures := f\<rparr>) = pending q"
  by (simp_all add: running_def queue_ok_def waiting_ok_def pending_def)

lemma maxOf_When_bounds:
  assumes "maxOf_When bucket x failures = (d, failures')"
  shows "baseDelay \<le> d" and "d \<le> max maxDelay bucket" and "failures' = failures(x := Suc (failures x))"
proof -
  have "baseDelay * 1 \<le> baseDelay * 2 ^ failures x"
    by (rule mult_left_mono) (simp_all add: baseDelay_def)
  moreover obtain b :: int where b: "b = 5000000 * 2 ^ failures x" by blast
  ultimately have "5000000 \<le> b" unfolding b by (simp add: baseDelay_def)
  then show "baseDelay \<le> d" "d \<le> max maxDelay bucket" "failures' = failures(x := Suc (failures x))"
    using assms
    by (auto simp: maxOf_When_def exponential_When_def Let_def b [symmetric] maxDelay_def baseDelay_def split: if_splits)
qed

lemma AddRateLimited_eq:
  "rl_AddRateLimited now bucket x q =
     dq_AddAfter now x (fst (maxOf_When bucket x (rl_failures q)))
       (q\<lparr>rl_failures := (rl_failures q)(x := Suc (rl_failures q x))\<rparr>)"
  using maxOf_When_bounds(3) [of bucket x "rl_failures q"] by (auto simp: rl_AddRateLimited_def split: prod.split)

lemma AddRateLimited_running:
  assumes "running q"
  shows "running (rl_AddRateLimited now bucket x q)"
    and "pending (rl_AddRateLimited now bucket x q) = insert x (pending q)"
    and "wq_processing (rl_AddRateLimited now bucket x q) = wq_processing q"
  using AddAfter_running [of "q\<lparr>rl_failures := (rl_failures q)(x := Suc (rl_failures q x))\<rparr>" now x] assms
  by (simp_all add: AddRateLimited_eq)

lemma Forget_running:
  "running (rl_Forget x q) = running q" "pending (rl_Forget x q) = pending q"
  "wq_processing (rl_Forget x q) = wq_processing q" "wq_dirty (rl_Forget x q) = wq_dirty q"
  by (simp_all add: rl_Forget_def)

interpretation wq: work_queue running pending wq_processing wq_Add wq_Get wq_Done
    rl_AddRateLimited rl_Forget dq_receive dq_ready
proof unfold_locales
  fix q :: "('a, 'b) rateLimitingQueue_scheme" and x :: 'a and q' now bucket
  assume q: "running q"
  show "running (wq_Add x q) \<and> pending (wq_Add x q) = insert x (pending q) \<and> wq_processing (wq_Add x q) = wq_processing q"
    using running_Add [OF q] pending_Add [OF q] by simp
  show "running q' \<and> x \<in> pending q \<and> x \<notin> wq_processing q \<and> pending q \<subseteq> insert x (pending q')
      \<and> wq_processing q' = insert x (wq_processing q)" if "wq_Get q = (Item x, q')"
    using Get_Item [OF q that] by blast
  show "q' = q" if "wq_Get q = (Blocks, q')"
    using that by (auto simp: wq_Get_def split: list.splits if_splits)
  show "fst (wq_Get q) \<noteq> Shutdown"
    using q by (auto simp: wq_Get_def running_def split: list.splits)
  show "running (wq_Done x q) \<and> pending (wq_Done x q) = pending q \<and> wq_processing (wq_Done x q) = wq_processing q - {x}"
    if "x \<in> wq_processing q"
    using Done_running [OF q that] by simp
  show "running (rl_AddRateLimited now bucket x q)
      \<and> pending (rl_AddRateLimited now bucket x q) = insert x (pending q)
      \<and> wq_processing (rl_AddRateLimited now bucket x q) = wq_processing q"
    using AddRateLimited_running [OF q] by simp
  show "running (rl_Forget x q) \<and> pending (rl_Forget x q) = pending q \<and> wq_processing (rl_Forget x q) = wq_processing q"
    using q by (simp add: Forget_running)
  show "running (dq_receive now q) \<and> pending (dq_receive now q) = pending q
      \<and> wq_processing (dq_receive now q) = wq_processing q"
    using receive_running [OF q] by simp
  show "running (dq_ready now q) \<and> pending (dq_ready now q) = pending q
      \<and> wq_processing (dq_ready now q) = wq_processing q"
    using ready_running [OF q] by simp
qed

lemma new_queue_running [simp]: "running new_queue" "pending new_queue = {}" "wq_processing new_queue = {}"
  by (simp_all add: new_queue_def running_def queue_ok_def waiting_ok_def pending_def)

section \<open>Any use of the queue\<close>

text \<open>What event handlers, workers and the waiting loop may do; an item is \<open>Done\<close> only by who got it.\<close>

datatype 'a queue_op = OpAdd 'a | OpGet | OpDone 'a | OpRetry int int 'a | OpForget 'a | OpReceive int | OpReady int

fun queue_step :: "'a queue_op \<Rightarrow> 'a list \<times> 'a rateLimitingQueue \<Rightarrow> 'a list \<times> 'a rateLimitingQueue" where
  "queue_step (OpAdd x) (given, q) = (given, wq_Add x q)"
| "queue_step OpGet (given, q) = (case wq_Get q of (Item x, q) \<Rightarrow> (given @ [x], q) | (_, q) \<Rightarrow> (given, q))"
| "queue_step (OpDone x) (given, q) = (given, if x \<in> wq_processing q then wq_Done x q else q)"
| "queue_step (OpRetry now bucket x) (given, q) = (given, rl_AddRateLimited now bucket x q)"
| "queue_step (OpForget x) (given, q) = (given, rl_Forget x q)"
| "queue_step (OpReceive now) (given, q) = (given, dq_receive now q)"
| "queue_step (OpReady now) (given, q) = (given, dq_ready now q)"

lemma queue_step_keeps:
  assumes "running q" and "queue_step op (given, q) = (given', q')"
  shows "running q'" and "\<exists>more. given' = given @ more \<and> pending q \<subseteq> pending q' \<union> set more
      \<and> set more \<inter> wq_processing q = {} \<and> length more \<le> 1"
proof -
  have "running q' \<and> (\<exists>more. given' = given @ more \<and> pending q \<subseteq> pending q' \<union> set more
      \<and> set more \<inter> wq_processing q = {} \<and> length more \<le> 1)"
  proof (cases op)
    case OpGet
    show ?thesis
    proof (cases "wq_Get q")
      case (Pair got q1)
      show ?thesis
      proof (cases got)
        case (Item x)
        from wq.get_item [OF assms(1)] Pair Item show ?thesis
          using assms(2) by (auto simp: OpGet)
      next
        case Blocks
        from wq.get_blocks [OF assms(1)] Pair Blocks show ?thesis using assms by (auto simp: OpGet)
      next
        case Shutdown
        with wq.get_runs [OF assms(1)] Pair show ?thesis by simp
      qed
    qed
  next
    case (OpDone x)
    then show ?thesis using assms wq.finish [OF assms(1), of x] by (auto split: if_splits)
  qed (use assms wq.add [OF assms(1)] wq.retry [OF assms(1)] wq.forget [OF assms(1)]
      wq.receive [OF assms(1)] wq.ready [OF assms(1)] in auto)
  then show "running q'" "\<exists>more. given' = given @ more \<and> pending q \<subseteq> pending q' \<union> set more
      \<and> set more \<inter> wq_processing q = {} \<and> length more \<le> 1" by auto
qed

lemma queue_steps_keep:
  assumes "running q" and "fold queue_step ops (given, q) = (given', q')"
  shows "running q' \<and> (\<exists>more. given' = given @ more \<and> pending q \<subseteq> pending q' \<union> set more)"
  using assms
proof (induction ops arbitrary: given q)
  case (Cons op ops)
  obtain given1 q1 where s: "queue_step op (given, q) = (given1, q1)" by fastforce
  obtain more1 where m1: "given1 = given @ more1" "pending q \<subseteq> pending q1 \<union> set more1" and "running q1"
    using queue_step_keeps [OF Cons.prems(1) s] by blast
  moreover obtain more2 where "given' = given1 @ more2" "pending q1 \<subseteq> pending q' \<union> set more2" "running q'"
    using Cons.IH [OF \<open>running q1\<close>] Cons.prems(2) s by auto
  ultimately show ?case by (intro conjI exI [of _ "more1 @ more2"]) auto
qed simp

text \<open>
  C20: whatever event handlers, workers and the timer do with a new queue, in whatever order, an item
  that waits to be handed out still waits after any further operations unless it was handed out; the
  queue holds every waiting item once and none that is being processed, so no item is ever handed out
  to a second worker before the first is done with it.
\<close>

theorem work_queue_loses_nothing:
  assumes "fold queue_step ops1 ([], new_queue) = (given1, q1)" and "fold queue_step ops2 (given1, q1) = (given2, q2)"
  shows "pending q1 \<subseteq> pending q2 \<union> set (drop (length given1) given2)
    \<and> distinct (wq_queue q2) \<and> set (wq_queue q2) = wq_dirty q2 - wq_processing q2
    \<and> (case wq_Get q2 of (Item x, _) \<Rightarrow> x \<notin> wq_processing q2 | (Blocks, _) \<Rightarrow> wq_queue q2 = [] | (Shutdown, _) \<Rightarrow> False)"
proof -
  have r1: "running q1" using queue_steps_keep [OF new_queue_running(1) assms(1)] by blast
  obtain more where r2: "running q2" and m: "given2 = given1 @ more" "pending q1 \<subseteq> pending q2 \<union> set more"
    using queue_steps_keep [OF r1 assms(2)] by (elim conjE exE) simp
  have q2: "distinct (wq_queue q2)" "set (wq_queue q2) = wq_dirty q2 - wq_processing q2"
    using r2 by (simp_all add: running_def queue_ok_def)
  have "pending q1 \<subseteq> pending q2 \<union> set (drop (length given1) given2)" using m(2) unfolding m(1) by simp
  moreover have "case wq_Get q2 of (Item x, _) \<Rightarrow> x \<notin> wq_processing q2 | (Blocks, _) \<Rightarrow> wq_queue q2 = [] | (Shutdown, _) \<Rightarrow> False"
  proof (cases "wq_queue q2")
    case Nil
    then show ?thesis using r2 by (simp add: wq_Get_def running_def)
  next
    case (Cons x rest)
    then have "x \<notin> wq_processing q2" using q2(2) by auto
    then show ?thesis by (simp add: wq_Get_def Cons)
  qed
  ultimately show ?thesis using q2 by blast
qed

theorem work_queue_loses_nothing_witness:
  "pending (snd (fold queue_step [OpAdd (1::nat), OpGet, OpAdd 1] ([], new_queue))) \<subseteq>
     pending (snd (fold queue_step [OpAdd 1, OpGet, OpAdd 1, OpDone 1, OpGet] ([], new_queue))) \<union> {1}"
proof -
  have 1: "fold queue_step [OpAdd (1::nat), OpGet, OpAdd 1] ([], new_queue) =
      ([1], new_queue\<lparr>wq_dirty := {1}, wq_processing := {1}\<rparr>)"
    by (simp add: new_queue_def wq_Add_def wq_Get_def)
  have 2: "fold queue_step [OpDone 1, OpGet] ([1], new_queue\<lparr>wq_dirty := {1}, wq_processing := {1}\<rparr>) =
      ([1, 1::nat], new_queue\<lparr>wq_processing := {1}\<rparr>)"
    by (simp add: new_queue_def wq_Get_def wq_Done_def)
  have "fold queue_step ([OpAdd 1, OpGet, OpAdd 1] @ [OpDone 1, OpGet]) ([], new_queue) =
      ([1, 1::nat], new_queue\<lparr>wq_processing := {1}\<rparr>)"
    unfolding fold_append comp_apply 1 2 ..
  then have app: "fold queue_step [OpAdd 1, OpGet, OpAdd 1, OpDone 1, OpGet] ([], new_queue) =
      ([1, 1::nat], new_queue\<lparr>wq_processing := {1}\<rparr>)" by simp
  show ?thesis using work_queue_loses_nothing [OF 1 2] unfolding 1 app by simp
qed

text \<open>An item that waits until \<open>t\<close> at the latest.\<close>

definition due :: "'a \<Rightarrow> int \<Rightarrow> ('a, 'b) delayingQueue_scheme \<Rightarrow> bool" where
  "due x t q \<longleftrightarrow> x \<in> wq_dirty q \<or> (\<exists>t'\<le>t. (x, t') \<in> set (dq_channel q) \<union> set (dq_waiting q))"

lemma due_AddAfter: "running q \<Longrightarrow> due x (now + d) (dq_AddAfter now x d q)"
  by (auto simp: due_def dq_AddAfter_def running_def Add_dirty)

lemma dq_insert_sooner:
  assumes "distinct (List.map fst w)" and "(x, t) \<in> insert e (set w)"
  shows "\<exists>t'\<le>t. (x, t') \<in> set (dq_insert e w)"
proof (cases "map_of w (fst e)")
  case None
  then show ?thesis using assms(2) by (auto simp: dq_insert_def set_insort_key)
next
  case (Some t0)
  have t0: "(fst e, t0) \<in> set w" using Some by (rule map_of_SomeD)
  have only: "t = t0" if "(fst e, t) \<in> set w" using assms(1) that Some by (metis map_of_is_SomeI option.inject)
  show ?thesis
  proof (cases "t0 > snd e")
    case True
    show ?thesis
    proof (cases "x = fst e")
      case x: True
      then have "snd e \<le> t" using assms(2) only True by (cases e) auto
      then show ?thesis using x True by (intro exI [of _ "snd e"]) (simp add: dq_insert_def Some set_insort_key)
    next
      case False
      then show ?thesis using assms(2) True by (intro exI [of _ t]) (auto simp: dq_insert_def Some set_insort_key)
    qed
  next
    case False
    then have "dq_insert e w = w" by (simp add: dq_insert_def Some)
    moreover have "t0 \<le> t" if "(x, t) = e" using that False by auto
    ultimately show ?thesis using assms(2) t0 by (cases e) auto
  qed
qed

lemma due_receive:
  assumes "running q" and "due x t q"
  shows "due x t (dq_receive now q)"
proof (cases "dq_channel q")
  case (Cons e rest)
  have d: "distinct (List.map fst (dq_waiting q))" and run: "\<not> wq_shuttingDown q"
    using assms(1) by (simp_all add: running_def waiting_ok_def)
  show ?thesis
  proof (cases "snd e > now")
    case True
    have "\<exists>t'\<le>t. (x, t') \<in> set (dq_insert e (dq_waiting q))" if "t' \<le> t" "(x, t') \<in> insert e (set (dq_waiting q))" for t'
      using dq_insert_sooner [OF d that(2)] that(1) by (meson order_trans)
    then show ?thesis using assms(2) True run by (auto simp: due_def dq_receive_def Cons)
  next
    case False
    then show ?thesis using assms(2) run by (auto simp: due_def dq_receive_def Cons Add_dirty)
  qed
qed (use assms in \<open>simp add: dq_receive_def\<close>)

lemma due_receives: "running q \<Longrightarrow> due x t q \<Longrightarrow> running (fold dq_receive ts q) \<and> due x t (fold dq_receive ts q)"
  by (induction ts arbitrary: q) (simp_all add: receive_running due_receive)

text \<open>
  An item that failed is queued again after 5 ms doubled with every failure since it was last
  forgotten, at most 1000 s, or later if the token bucket says so; and it is: once the waiting loop has
  received what was sent to it and that time has passed, the item is in the queue.
\<close>

theorem failed_item_comes_back:
  assumes "running q" and "q1 = fold dq_receive ts (rl_AddRateLimited now bucket x q)" and "dq_channel q1 = []"
    and "now + max bucket (min (5000000 * 2 ^ rl_failures q x) 1000000000000) \<le> later"
  shows "x \<in> wq_dirty (dq_ready later q1)"
proof -
  let ?d = "max bucket (min (5000000 * 2 ^ rl_failures q x) 1000000000000)"
  let ?q = "q\<lparr>rl_failures := (rl_failures q)(x := Suc (rl_failures q x))\<rparr>"
  have pos: "0 < min (5000000 * 2 ^ rl_failures q x) (1000000000000::int)" by simp
  have "fst (maxOf_When bucket x (rl_failures q)) = ?d"
    using pos by (auto simp: maxOf_When_def exponential_When_def Let_def baseDelay_def maxDelay_def)
  then have eq: "rl_AddRateLimited now bucket x q = dq_AddAfter now x ?d ?q" by (simp add: AddRateLimited_eq)
  have r: "running ?q" using assms(1) by simp
  have "running q1 \<and> due x (now + ?d) q1"
    unfolding assms(2) eq by (rule due_receives [OF AddAfter_running(1) [OF r] due_AddAfter [OF r]])
  then show ?thesis
    using assms(3,4) ready_running(4) [of q1 later] by (force simp: due_def)
qed

theorem failed_item_comes_back_witness:
  "fst (maxOf_When 0 (7::nat) (rl_failures new_queue)) = 5000000
   \<and> 7 \<in> wq_dirty (dq_ready 5000003 (fold dq_receive [4] (rl_AddRateLimited 3 0 (7::nat) new_queue)))"
proof
  show d: "fst (maxOf_When 0 (7::nat) (rl_failures new_queue)) = 5000000"
    by (simp add: maxOf_When_def exponential_When_def baseDelay_def maxDelay_def new_queue_def)
  have "dq_channel (fold dq_receive [4] (rl_AddRateLimited 3 0 (7::nat) new_queue)) = []"
    by (simp add: AddRateLimited_eq d dq_AddAfter_def dq_receive_def) (simp add: new_queue_def Let_def)
  then show "7 \<in> wq_dirty (dq_ready 5000003 (fold dq_receive [4] (rl_AddRateLimited 3 0 (7::nat) new_queue)))"
    by (intro failed_item_comes_back [OF new_queue_running(1) refl]) (simp_all add: new_queue_def)
qed

end
