(* ===== verification/Watches.thy ===== *)
theory Watches
  imports Scheme WorkQueue KubeApi
begin

text \<open>
  What makes the controller reconcile: \<open>SetupWithManager\<close> (\<open>src/internal/controller/nodeswap_controller.go\<close>)
  with the builder of controller-runtime that it calls, and the two event handlers that turn an event
  of a watched object into requests (\<open>src/vendor/sigs.k8s.io/controller-runtime/pkg/handler\<close>). An event
  carries the metadata of its objects, which is all the handlers read; informers never deliver nil. The
  texts of the errors are shortened.
\<close>

section \<open>Events and handlers\<close>

datatype event =
    CreateEvent objectMeta
  | UpdateEvent objectMeta objectMeta
  | DeleteEvent objectMeta
  | GenericEvent objectMeta

definition request_of :: "objectMeta \<Rightarrow> objectKey" where
  "request_of m = (om_Namespace m, om_Name m)"

text \<open>\<open>EnqueueRequestForObject\<close>: the requests it adds.\<close>

fun EnqueueRequestForObject :: "event \<Rightarrow> objectKey list" where
  "EnqueueRequestForObject (CreateEvent m) = [request_of m]"
| "EnqueueRequestForObject (UpdateEvent old new) = [request_of new]"
| "EnqueueRequestForObject (DeleteEvent m) = [request_of m]"
| "EnqueueRequestForObject (GenericEvent m) = [request_of m]"

record groupKind =
  gr_Group :: string
  gr_Kind :: string

definition ParseGroupVersion :: "string \<Rightarrow> groupVersion result" where
  "ParseGroupVersion gv =
     (if length gv = 0 \<or> gv = ''/'' then Ok \<lparr>gv_Group = [], gv_Version = []\<rparr>
      else
        let n = length (filter (\<lambda>c. c = CHR ''/'') gv) in
        if n = 0 then Ok \<lparr>gv_Group = [], gv_Version = gv\<rparr>
        else if n = 1 then
          Ok \<lparr>gv_Group = takeWhile (\<lambda>c. c \<noteq> CHR ''/'') gv, gv_Version = tl (dropWhile (\<lambda>c. c \<noteq> CHR ''/'') gv)\<rparr>
        else Err (ErrText (''unexpected GroupVersion string: '' @ gv)))"

definition GetControllerOf :: "objectMeta \<Rightarrow> ownerReference option" where
  "GetControllerOf m = List.find (\<lambda>ref. or_Controller ref = Some True) (om_OwnerReferences m)"

definition getOwnersReferences :: "bool \<Rightarrow> objectMeta \<Rightarrow> ownerReference list" where
  "getOwnersReferences isController m =
     (if \<not> isController then om_OwnerReferences m
      else case GetControllerOf m of Some ref \<Rightarrow> [ref] | None \<Rightarrow> [])"

text \<open>
  \<open>getOwnerReconcileRequest\<close>: the owners that have the group and kind. The REST mapping of a kind, whether
  it is namespaced, comes from the API server's discovery; it is an argument. A reference that cannot
  be parsed or mapped ends the loop.
\<close>

fun ownerRequests ::
  "(groupKind \<Rightarrow> string \<Rightarrow> bool result) \<Rightarrow> groupKind \<Rightarrow> string \<Rightarrow> ownerReference list \<Rightarrow> objectKey list" where
  "ownerRequests restMapping gk namespace [] = []"
| "ownerRequests restMapping gk namespace (ref # refs) =
     (case ParseGroupVersion (or_APIVersion ref) of
        Ok refGV \<Rightarrow>
          if or_Kind ref = gr_Kind gk \<and> gv_Group refGV = gr_Group gk then
            (case restMapping gk (gv_Version refGV) of
               Ok namespaced \<Rightarrow>
                 (if namespaced then namespace else [], or_Name ref) # ownerRequests restMapping gk namespace refs
             | _ \<Rightarrow> [])
          else ownerRequests restMapping gk namespace refs
      | _ \<Rightarrow> [])"

definition getOwnerReconcileRequest ::
  "(groupKind \<Rightarrow> string \<Rightarrow> bool result) \<Rightarrow> groupKind \<Rightarrow> bool \<Rightarrow> objectMeta \<Rightarrow> objectKey list" where
  "getOwnerReconcileRequest restMapping gk isController m =
     ownerRequests restMapping gk (om_Namespace m) (getOwnersReferences isController m)"

text \<open>\<open>enqueueRequestForOwner\<close>: the requests are collected in a set first; its order is Go's.\<close>

fun EnqueueRequestForOwner ::
  "(groupKind \<Rightarrow> string \<Rightarrow> bool result) \<Rightarrow> groupKind \<Rightarrow> bool \<Rightarrow> event \<Rightarrow> objectKey list" where
  "EnqueueRequestForOwner rm gk c (CreateEvent m) = remdups (getOwnerReconcileRequest rm gk c m)"
| "EnqueueRequestForOwner rm gk c (UpdateEvent old new) =
     remdups (getOwnerReconcileRequest rm gk c old @ getOwnerReconcileRequest rm gk c new)"
| "EnqueueRequestForOwner rm gk c (DeleteEvent m) = remdups (getOwnerReconcileRequest rm gk c m)"
| "EnqueueRequestForOwner rm gk c (GenericEvent m) = remdups (getOwnerReconcileRequest rm gk c m)"

section \<open>The builder\<close>

datatype eventHandler = ForObject | ForOwner groupKind bool

record watch =
  wa_Object :: goType
  wa_Handler :: eventHandler

record ctrlBuilder =
  cb_forInput :: "goType option"
  cb_forErr :: "error option"
  cb_ownsInput :: "goType list"
  cb_watchesInput :: "(goType \<times> eventHandler) list"
  cb_name :: string

definition ControllerManagedBy :: ctrlBuilder where
  "ControllerManagedBy = \<lparr>cb_forInput = None, cb_forErr = None, cb_ownsInput = [], cb_watchesInput = [], cb_name = []\<rparr>"

definition builder_For :: "goType \<Rightarrow> ctrlBuilder \<Rightarrow> ctrlBuilder" where
  "builder_For object blder =
     (if cb_forInput blder \<noteq> None
      then blder\<lparr>cb_forErr := Some (ErrText ''For(...) should only be called once, could not assign multiple objects for reconciliation'')\<rparr>
      else blder\<lparr>cb_forInput := Some object\<rparr>)"

definition builder_Owns :: "goType \<Rightarrow> ctrlBuilder \<Rightarrow> ctrlBuilder" where
  "builder_Owns object blder = blder\<lparr>cb_ownsInput := cb_ownsInput blder @ [object]\<rparr>"

definition builder_Watches :: "goType \<Rightarrow> eventHandler \<Rightarrow> ctrlBuilder \<Rightarrow> ctrlBuilder" where
  "builder_Watches object handler blder = blder\<lparr>cb_watchesInput := cb_watchesInput blder @ [(object, handler)]\<rparr>"

definition builder_Named :: "string \<Rightarrow> ctrlBuilder \<Rightarrow> ctrlBuilder" where
  "builder_Named name blder = blder\<lparr>cb_name := name\<rparr>"

text \<open>\<open>EnqueueRequestForOwner\<close> looks the kind of the owner type up and panics if there is not exactly one.\<close>

definition ownerHandler :: "scheme \<Rightarrow> goType \<Rightarrow> eventHandler result" where
  "ownerHandler s ownerType =
     (case ObjectKinds s ownerType of
        Err e \<Rightarrow> Panic (PanicError e)
      | Panic p \<Rightarrow> Panic p
      | Ok (kinds, _) \<Rightarrow>
          if length kinds \<noteq> 1 then Panic (PanicError (ErrText ''expected exactly 1 kind for OwnerType''))
          else Ok (ForOwner \<lparr>gr_Group = gv_Group (kinds ! 0), gr_Kind = gk_Kind (kinds ! 0)\<rparr> True))"

text \<open>The watches that \<open>doWatch\<close> hands to the controller, which keeps them until it is started.\<close>

definition doWatch :: "scheme \<Rightarrow> ctrlBuilder \<Rightarrow> watch list result" where
  "doWatch s blder =
     (let forWatches = (case cb_forInput blder of
            Some object \<Rightarrow> [\<lparr>wa_Object = object, wa_Handler = ForObject\<rparr>] | None \<Rightarrow> []) in
      if length (cb_ownsInput blder) > 0 \<and> cb_forInput blder = None
      then Err (ErrText ''Owns() can only be used together with For()'')
      else
        rbind (rmap_list (\<lambda>own. rbind (ownerHandler s (the (cb_forInput blder)))
                 (\<lambda>hdler. Ok \<lparr>wa_Object = own, wa_Handler = hdler\<rparr>)) (cb_ownsInput blder)) (\<lambda>ownWatches.
        if length (cb_watchesInput blder) = 0 \<and> cb_forInput blder = None
        then Err (ErrText ''there are no watches configured, controller will never get triggered. Use For(), Owns(), Watches() or WatchesRawSource() to set them up'')
        else Ok (forWatches @ ownWatches @
               List.map (\<lambda>w. \<lparr>wa_Object = fst w, wa_Handler = snd w\<rparr>) (cb_watchesInput blder))))"

text \<open>
  The part of \<open>doController\<close> that can fail: the kind of the object, and the name. A kind is an ASCII word,
  so \<open>strings.ToLower\<close> works letter by letter.
\<close>

definition ToLower :: "string \<Rightarrow> string" where
  "ToLower s = List.map (\<lambda>c. if 65 \<le> (of_char c :: nat) \<and> (of_char c :: nat) \<le> 90 then char_of ((of_char c :: nat) + 32) else c) s"

definition getControllerName :: "groupVersionKind option \<Rightarrow> ctrlBuilder \<Rightarrow> string result" where
  "getControllerName gvk blder =
     (if cb_name blder \<noteq> [] then Ok (cb_name blder)
      else case gvk of
        None \<Rightarrow> Err (ErrText ''one of For() or Named() must be called'')
      | Some k \<Rightarrow> Ok (ToLower (gk_Kind k)))"

definition doController :: "scheme \<Rightarrow> ctrlBuilder \<Rightarrow> string result" where
  "doController s blder =
     (case cb_forInput blder of
        Some object \<Rightarrow>
          rbind (GVKForObject object s) (\<lambda>gvk. getControllerName (Some gvk) blder)
      | None \<Rightarrow> getControllerName None blder)"

definition builder_Complete :: "scheme \<Rightarrow> ctrlBuilder \<Rightarrow> watch list result" where
  "builder_Complete s blder =
     (case cb_forErr blder of
        Some e \<Rightarrow> Err e
      | None \<Rightarrow> rbind (doController s blder) (\<lambda>_. doWatch s blder))"

text \<open>\<open>SetupWithManager\<close>: with a scheme for the manager, the watches of the controller.\<close>

definition SetupWithManager :: "scheme \<Rightarrow> watch list result" where
  "SetupWithManager mgr_scheme =
     builder_Complete mgr_scheme
       (builder_Named ''nodeswap''
         (builder_Owns (mcfgType ''MachineConfig'')
           (builder_Watches (mcfgType ''MachineConfigPool'') ForObject
             (builder_For (nodeSwapType ''NodeSwap'') ControllerManagedBy))))"

section \<open>From an event to the queue\<close>

definition handle :: "(groupKind \<Rightarrow> string \<Rightarrow> bool result) \<Rightarrow> eventHandler \<Rightarrow> event \<Rightarrow> objectKey list" where
  "handle rm h e = (case h of ForObject \<Rightarrow> EnqueueRequestForObject e
     | ForOwner gk isController \<Rightarrow> EnqueueRequestForOwner rm gk isController e)"

definition requests :: "(groupKind \<Rightarrow> string \<Rightarrow> bool result) \<Rightarrow> watch list \<Rightarrow> goType \<Rightarrow> event \<Rightarrow> objectKey list" where
  "requests rm watches t e =
     concat (List.map (\<lambda>w. handle rm (wa_Handler w) e) (filter (\<lambda>w. wa_Object w = t) watches))"

section \<open>The operator's watches\<close>

definition nodeSwap_kind :: groupKind where
  "nodeSwap_kind = \<lparr>gr_Group = ''node-swap.openshift.io'', gr_Kind = ''NodeSwap''\<rparr>"

definition operator_watches :: "watch list" where
  "operator_watches =
     [\<lparr>wa_Object = nodeSwapType ''NodeSwap'', wa_Handler = ForObject\<rparr>,
      \<lparr>wa_Object = mcfgType ''MachineConfig'', wa_Handler = ForOwner nodeSwap_kind True\<rparr>,
      \<lparr>wa_Object = mcfgType ''MachineConfigPool'', wa_Handler = ForObject\<rparr>]"

lemma SetupWithManager_known:
  assumes "only_kind s (nodeSwapType ''NodeSwap'') (WithKind GroupVersion ''NodeSwap'')"
  shows "SetupWithManager s = Ok operator_watches"
  using only_kind_found(1,2) [OF assms]
  by (simp add: SetupWithManager_def builder_Named_def builder_Owns_def builder_Watches_def builder_For_def
      ControllerManagedBy_def builder_Complete_def doController_def getControllerName_def doWatch_def ownerHandler_def
      operator_watches_def nodeSwap_kind_def)

lemma SetupWithManager_unknown:
  assumes "kinds_of s (nodeSwapType ''NodeSwap'') = []"
  shows "\<exists>e. SetupWithManager s = Err e"
proof -
  have "\<exists>e. GVKForObject (nodeSwapType ''NodeSwap'') s = Err e"
    using assms by (auto simp: GVKForObject_def ObjectKinds_def kinds_of_def split: option.splits)
  then obtain e where "GVKForObject (nodeSwapType ''NodeSwap'') s = Err e" ..
  then show ?thesis
    by (simp add: SetupWithManager_def builder_Named_def builder_Owns_def builder_Watches_def builder_For_def
        ControllerManagedBy_def builder_Complete_def doController_def getControllerName_def)
qed

lemma requests_operator:
  "requests rm operator_watches (nodeSwapType ''NodeSwap'') e = EnqueueRequestForObject e"
  "requests rm operator_watches (mcfgType ''MachineConfig'') e = EnqueueRequestForOwner rm nodeSwap_kind True e"
  "requests rm operator_watches (mcfgType ''MachineConfigPool'') e = EnqueueRequestForObject e"
  by (simp_all add: requests_def operator_watches_def handle_def)

lemma ownerRequests_namespace: "k \<in> set (ownerRequests rm gk n refs) \<Longrightarrow> fst k \<in> {n, []}"
proof (induction refs)
  case (Cons ref refs)
  show ?case
  proof (cases "ParseGroupVersion (or_APIVersion ref)")
    case (Ok gv)
    show ?thesis
    proof (cases "or_Kind ref = gr_Kind gk \<and> gv_Group gv = gr_Group gk")
      case True
      then show ?thesis using Cons Ok by (cases "rm gk (gv_Version gv)") (auto split: if_splits)
    next
      case False
      then have "ownerRequests rm gk n (ref # refs) = ownerRequests rm gk n refs" using Ok by auto
      then show ?thesis using Cons by (simp only:)
    qed
  qed (use Cons.prems in simp_all)
qed simp

text \<open>The objects of an event, and the requests of events of objects without a namespace.\<close>

fun event_objects :: "event \<Rightarrow> objectMeta set" where
  "event_objects (CreateEvent m) = {m}"
| "event_objects (UpdateEvent old new) = {old, new}"
| "event_objects (DeleteEvent m) = {m}"
| "event_objects (GenericEvent m) = {m}"

lemma requests_cluster_scoped:
  assumes "\<forall>m\<in>event_objects e. om_Namespace m = []"
  shows "k \<in> set (EnqueueRequestForObject e) \<Longrightarrow> fst k = []"
    and "k \<in> set (EnqueueRequestForOwner rm gk c e) \<Longrightarrow> fst k = []"
  using assms
  by (cases e; auto simp: request_of_def getOwnerReconcileRequest_def dest: ownerRequests_namespace)+

lemma no_owner_no_request:
  assumes "\<forall>m\<in>event_objects e. om_OwnerReferences m = []"
  shows "EnqueueRequestForOwner rm gk True e = []"
  using assms by (cases e) (simp_all add: getOwnerReconcileRequest_def getOwnersReferences_def GetControllerOf_def)

end
