(* ===== verification/Process.thy ===== *)
theory Process
  imports CommandMain Watches
begin

text \<open>
  The whole process of \<open>src/cmd/main.go\<close>: the package's \<open>init\<close>, which builds the scheme, and then
  \<open>main\<close> with the reconciler's own \<open>SetupWithManager\<close> in the place of the call that \<open>CommandMain\<close> leaves
  open. The manager of controller-runtime keeps what the program gave it; whether its calls succeed
  is a parameter.
\<close>

record manager =
  mg_scheme :: scheme
  mg_options :: managerOptions
  mg_templateDir :: string
  mg_watches :: "watch list"
  mg_healthz :: "string list"
  mg_readyz :: "string list"

record world =
  wd_Stat :: "string \<Rightarrow> error option"
  wd_NewManager :: "managerOptions \<Rightarrow> error option"
  wd_AddHealthzCheck :: "string \<Rightarrow> error option"
  wd_AddReadyzCheck :: "string \<Rightarrow> error option"
  wd_Start :: "manager \<Rightarrow> error option"

text \<open>
  The reconciler with its template directory, registered with the manager. \<open>SetupWithManager\<close> returns or
  fails; it does not panic (lemma \<open>SetupWithManager_no_panic\<close>).
\<close>

definition setup_reconciler :: "string \<Rightarrow> manager \<Rightarrow> error + manager" where
  "setup_reconciler dir mgr =
     (case SetupWithManager (mg_scheme mgr) of
        Ok ws \<Rightarrow> Inr (mgr\<lparr>mg_templateDir := dir, mg_watches := mg_watches mgr @ ws\<rparr>)
      | Err e \<Rightarrow> Inl e
      | Panic p \<Rightarrow> Inl (ErrText []))"

definition fails_with :: "error option \<Rightarrow> 'a \<Rightarrow> error + 'a" where
  "fails_with e a = (case e of Some err \<Rightarrow> Inl err | None \<Rightarrow> Inr a)"

definition process_runtime :: "scheme \<Rightarrow> world \<Rightarrow> manager runtime" where
  "process_runtime s w =
     \<lparr>ru_Stat = wd_Stat w,
      ru_NewManager = (\<lambda>opts. fails_with (wd_NewManager w opts)
        \<lparr>mg_scheme = s, mg_options = opts, mg_templateDir = [], mg_watches = [], mg_healthz = [], mg_readyz = []\<rparr>),
      ru_SetupReconciler = setup_reconciler,
      ru_AddHealthzCheck = (\<lambda>name m. fails_with (wd_AddHealthzCheck w name) (m\<lparr>mg_healthz := mg_healthz m @ [name]\<rparr>)),
      ru_AddReadyzCheck = (\<lambda>name m. fails_with (wd_AddReadyzCheck w name) (m\<lparr>mg_readyz := mg_readyz m @ [name]\<rparr>)),
      ru_Start = wd_Start w\<rparr>"

definition process :: "(scheme \<Rightarrow> scheme result) \<Rightarrow> (string \<rightharpoonup> foreign_flag) \<Rightarrow> world \<Rightarrow> string list \<Rightarrow> CommandMain.event list \<times> ending" where
  "process clientgo foreign w args =
     (case main_init clientgo of
        Ok s \<Rightarrow> main foreign (process_runtime s w) args
      | Err e \<Rightarrow> ([], Panicked e)
      | Panic p \<Rightarrow> ([], Panicked (case p of PanicError e \<Rightarrow> e | PanicText t \<Rightarrow> ErrText t | _ \<Rightarrow> ErrText [])))"

section \<open>Lemmas\<close>

lemma GVKForObject_cases:
  "GVKForObject t s = Ok gvk \<Longrightarrow> ownerHandler s t = Ok (ForOwner \<lparr>gr_Group = gv_Group gvk, gr_Kind = gk_Kind gvk\<rparr> True)"
  "no_panic (GVKForObject t s)"
proof -
  have one: "xs \<noteq> [] \<Longrightarrow> \<not> Suc 0 < length xs \<Longrightarrow> length xs = Suc 0" for xs :: "groupVersionKind list"
    by (cases xs) auto
  show "GVKForObject t s = Ok gvk \<Longrightarrow> ownerHandler s t = Ok (ForOwner \<lparr>gr_Group = gv_Group gvk, gr_Kind = gk_Kind gvk\<rparr> True)"
    "no_panic (GVKForObject t s)"
    by (auto simp: GVKForObject_def ownerHandler_def ObjectKinds_def one split: option.splits if_splits)
qed

lemma SetupWithManager_no_panic: "no_panic (SetupWithManager s)"
proof (cases "GVKForObject (nodeSwapType ''NodeSwap'') s")
  case (Ok gvk)
  then show ?thesis
    using GVKForObject_cases(1) [OF Ok]
    by (simp add: SetupWithManager_def builder_Named_def builder_Owns_def builder_Watches_def builder_For_def
        ControllerManagedBy_def builder_Complete_def doController_def getControllerName_def doWatch_def)
next
  case (Err e)
  then show ?thesis
    by (simp add: SetupWithManager_def builder_Named_def builder_Owns_def builder_Watches_def builder_For_def
        ControllerManagedBy_def builder_Complete_def doController_def)
next
  case (Panic p)
  then show ?thesis using GVKForObject_cases(2) [of "nodeSwapType ''NodeSwap''" s] by simp
qed

lemma scheme_watches:
  assumes "clientgo NewScheme = Ok s0" and "foreign_scheme s0"
  obtains s where "main_init clientgo = Ok s" and "SetupWithManager s = Ok operator_watches"
proof (rule main_init_Ok [of clientgo s0, OF assms])
  fix s
  assume "main_init clientgo = Ok s"
    "\<And>t. t \<in> set [nodeSwapType ''NodeSwap'', nodeSwapType ''NodeSwapList''] \<Longrightarrow> only_kind s t (WithKind GroupVersion (snd t))"
  from that [OF this(1)] this(2) [of "nodeSwapType ''NodeSwap''"] show thesis
    by (simp add: SetupWithManager_known)
qed

text \<open>The manager that the process starts.\<close>

definition complete_manager :: "scheme \<Rightarrow> flags \<Rightarrow> manager" where
  "complete_manager s f =
     \<lparr>mg_scheme = s, mg_options = managerOptionsOf f, mg_templateDir = fl_templateDir f, mg_watches = operator_watches,
      mg_healthz = [''healthz''], mg_readyz = [''readyz'']\<rparr>"

section \<open>Properties\<close>

text \<open>
  C9: with a client-go that registers no kind of the operator's groups, the process gets past its \<open>init\<close>;
  if the command line is accepted, the template directory is there and the calls of the manager succeed,
  it starts one manager, which has the scheme of \<open>init\<close>, the options and the template directory of
  the command line, exactly the three watches of the operator and both health checks, and it ends with
  status 0 or 1 as the manager does; if one of them fails nothing is started and the process does not return.
\<close>

theorem process_starts_operator:
  assumes "clientgo NewScheme = Ok s0" and "foreign_scheme s0"
    and "parse_args (all_flags foreign) default_flags args = ArgsOk f"
  shows "\<exists>s. main_init clientgo = Ok s \<and>
    (if wd_Stat w (fl_templateDir f) = None \<and> wd_NewManager w (managerOptionsOf f) = None
        \<and> wd_AddHealthzCheck w ''healthz'' = None \<and> wd_AddReadyzCheck w ''readyz'' = None
     then process clientgo foreign w args =
       ([EvStat (fl_templateDir f), EvNewManager (managerOptionsOf f), EvSetupReconciler (fl_templateDir f),
         EvAddHealthzCheck ''healthz'', EvAddReadyzCheck ''readyz'', EvStart],
        if wd_Start w
          \<lparr>mg_scheme = s, mg_options = managerOptionsOf f, mg_templateDir = fl_templateDir f,
           mg_watches = operator_watches, mg_healthz = [''healthz''], mg_readyz = [''readyz'']\<rparr> = None
        then Returned else Exited 1)
     else EvStart \<notin> set (fst (process clientgo foreign w args)) \<and> snd (process clientgo foreign w args) \<noteq> Returned)"
proof -
  obtain s where s: "main_init clientgo = Ok s" and ws: "SetupWithManager s = Ok operator_watches"
    by (rule scheme_watches [of clientgo s0, OF assms(1,2)])
  have p: "process clientgo foreign w args = run_main (process_runtime s w) f"
    by (simp add: process_def s main_def assms(3))
  show ?thesis
    unfolding p
    by (intro exI [of _ s])
      (auto simp: s run_main_def or_exit_def process_runtime_def setup_reconciler_def fails_with_def ws
        split: option.splits)
qed

definition sample_world :: world where
  "sample_world =
     \<lparr>wd_Stat = (\<lambda>p. if p = ''/templates'' then None else Some (ErrText ''no such file or directory'')),
      wd_NewManager = (\<lambda>opts. None), wd_AddHealthzCheck = (\<lambda>name. None), wd_AddReadyzCheck = (\<lambda>name. None),
      wd_Start = (\<lambda>m. if length (mg_watches m) = 3 then None else Some (ErrText []))\<rparr>"

theorem process_starts_operator_witness:
  "\<exists>trace. process sample_clientgo Map.empty sample_world [] = (trace, Returned) \<and> EvStart \<in> set trace"
proof -
  obtain s0 where s0: "sample_clientgo NewScheme = Ok s0" "foreign_scheme s0" using sample_clientgo_foreign by blast
  have "parse_args (all_flags Map.empty) default_flags [] = ArgsOk default_flags" by simp
  from process_starts_operator [of sample_clientgo s0, OF s0 this, of sample_world] show ?thesis
    by (auto simp: sample_world_def default_flags_def operator_watches_def)
qed

end
