(* ===== verification/DeepCopy.thy ===== *)
theory DeepCopy
  imports ApiTypes
begin

text \<open>
  \<open>src/api/v1alpha1/zz_generated.deepcopy.go\<close> over an explicit store. The reconciler changes the object
  that its client's cache gave it (\<open>SetStatusCondition\<close> writes into the condition array), which is safe
  because the cache hands out deep copies. A Go struct is a record whose pointers, slices and maps are
  addresses; the locale \<open>deep_copy\<close> is what every copying function promises: the copy reads as the
  original, and the two have no cell in common. An array is allocated with its copied elements, where
  Go allocates it first and copies into it.
\<close>

section \<open>The store\<close>

type_synonym addr = nat

datatype amount_m = AmtInt64 int64 int | AmtDec addr

record quantity_m =
  qm_amount :: amount_m
  qm_string :: string

record swapFile_m =
  fm_Path :: string
  fm_Size :: quantity_m

record swapZram_m =
  zm_Size :: quantity_m

record swapSpec_m =
  sm_Priority :: "32 word"
  sm_SwapType :: swapType
  sm_Disk :: "addr option"
  sm_File :: "addr option"
  sm_Zram :: "addr option"

record nodeSwapSpec_m =
  pm_MachineConfigPoolSelector :: string
  pm_Swaps :: "addr option"
  pm_LogLevel :: "addr option"

record nodeSwapStatus_m =
  tm_Conditions :: "addr option"

record ownerReference_m =
  orm_APIVersion :: string
  orm_Kind :: string
  orm_Name :: string
  orm_Controller :: "addr option"

record objectMeta_m =
  om_m_Name :: string
  om_m_Namespace :: string
  om_m_Labels :: "addr option"
  om_m_ResourceVersion :: nat
  om_m_OwnerReferences :: "addr option"

record nodeSwap_m =
  nm_Meta :: objectMeta_m
  nm_Spec :: nodeSwapSpec_m
  nm_Status :: nodeSwapStatus_m

record listMeta_m =
  lm_ResourceVersion :: string
  lm_RemainingItemCount :: "addr option"

record nodeSwapList_m =
  nl_Meta :: listMeta_m
  nl_Items :: "addr option"

datatype cell =
    CellDec "int \<times> int"
  | CellInt32 "32 word"
  | CellInt64 int64
  | CellBool bool
  | CellPartition swapPartition
  | CellDisk swapDisk
  | CellFile swapFile_m
  | CellZram swapZram_m
  | CellSwap swapSpec_m
  | CellSwaps "swapSpec_m list"
  | CellConditions "condition list"
  | CellLabels "string \<rightharpoonup> string"
  | CellOwners "ownerReference_m list"
  | CellSpec nodeSwapSpec_m
  | CellStatus nodeSwapStatus_m
  | CellNodeSwap nodeSwap_m
  | CellNodeSwaps "nodeSwap_m list"
  | CellNodeSwapList nodeSwapList_m

record heap =
  hp_cells :: "addr \<rightharpoonup> cell"
  hp_next :: addr

definition heap_ok :: "heap \<Rightarrow> bool" where
  "heap_ok h \<longleftrightarrow> (\<forall>a. hp_next h \<le> a \<longrightarrow> hp_cells h a = None)"

definition alloc :: "cell \<Rightarrow> heap \<Rightarrow> addr \<times> heap" where
  "alloc c h = (hp_next h, \<lparr>hp_cells = (hp_cells h)(hp_next h \<mapsto> c), hp_next = Suc (hp_next h)\<rparr>)"

text \<open>\<open>pointer.P\<close> (\<open>src/internal/pointer/pointer.go\<close>): the address of a new cell with the value.\<close>

definition pointer_P :: "('m \<Rightarrow> cell) \<Rightarrow> 'm \<Rightarrow> heap \<Rightarrow> addr \<times> heap" where
  "pointer_P mk t h = alloc (mk t) h"

definition load :: "(cell \<Rightarrow> 'm option) \<Rightarrow> heap \<Rightarrow> addr \<Rightarrow> 'm option" where
  "load un h a = Option.bind (hp_cells h a) un"

text \<open>The heap after \<open>h'\<close> keeps every cell that \<open>h\<close> has; \<open>same_between\<close> is agreement on an interval.\<close>

definition same_between :: "addr \<Rightarrow> addr \<Rightarrow> heap \<Rightarrow> heap \<Rightarrow> bool" where
  "same_between m n h g \<longleftrightarrow> (\<forall>a. m \<le> a \<longrightarrow> a < n \<longrightarrow> hp_cells g a = hp_cells h a)"

definition grows :: "heap \<Rightarrow> heap \<Rightarrow> bool" where
  "grows h h' \<longleftrightarrow> heap_ok h' \<and> hp_next h \<le> hp_next h' \<and> same_between 0 (hp_next h) h h'"

lemma grows_refl [simp]: "heap_ok h \<Longrightarrow> grows h h"
  by (simp add: grows_def same_between_def)

lemma grows_trans: "grows h h' \<Longrightarrow> grows h' h'' \<Longrightarrow> grows h h''"
  by (auto simp: grows_def same_between_def)

lemma grows_ok: "grows h h' \<Longrightarrow> heap_ok h'"
  by (simp add: grows_def)

lemma alloc_grows: "heap_ok h \<Longrightarrow> alloc c h = (a, h') \<Longrightarrow> grows h h' \<and> a = hp_next h \<and> hp_next h' = Suc a \<and> hp_cells h' a = Some c"
  by (auto simp: alloc_def grows_def heap_ok_def same_between_def)

lemma pointer_P_fresh:
  "heap_ok h \<Longrightarrow> pointer_P mk t h = (a, h') \<Longrightarrow> hp_cells h a = None \<and> hp_cells h' a = Some (mk t) \<and> grows h h'"
  using alloc_grows [of h "mk t" a h'] unfolding pointer_P_def by (auto simp: heap_ok_def [of h])

section \<open>The interface\<close>

locale deep_copy =
  fixes read :: "heap \<Rightarrow> 'm \<Rightarrow> 'v option" and copy :: "'m \<Rightarrow> heap \<Rightarrow> ('m \<times> heap) option"
  assumes local: "heap_ok h \<Longrightarrow> read h x = Some v \<Longrightarrow> same_between 0 (hp_next h) h g \<Longrightarrow> read g x = Some v"
    and copies: "heap_ok h \<Longrightarrow> read h x = Some v \<Longrightarrow>
      \<exists>y h'. copy x h = Some (y, h') \<and> grows h h'
        \<and> (\<forall>g. same_between (hp_next h) (hp_next h') h' g \<longrightarrow> read g y = Some v)"
begin

text \<open>The original still reads as before once the copy is made, and after any change of later cells.\<close>

lemma original_kept:
  assumes "heap_ok h" and "read h x = Some v" and "copy x h = Some (y, h')" and "same_between 0 (hp_next h) h' g"
  shows "read g x = Some v"
proof -
  obtain y2 h2 where "copy x h = Some (y2, h2)" "grows h h2" using copies [OF assms(1,2)] by blast
  with assms(3) have "same_between 0 (hp_next h) h h'" by (simp add: grows_def)
  with assms(4) have "same_between 0 (hp_next h) h g" by (simp add: same_between_def)
  with assms(1,2) show ?thesis by (rule local)
qed

lemma grown: "heap_ok h \<Longrightarrow> read h x = Some v \<Longrightarrow> grows h h' \<Longrightarrow> read h' x = Some v"
  using local [of h x v h'] by (simp add: grows_def)

end

section \<open>Ways to build copying functions\<close>

text \<open>A pointer, or a slice or map with its whole content as one cell.\<close>

definition read_ptr :: "(cell \<Rightarrow> 'm option) \<Rightarrow> (heap \<Rightarrow> 'm \<Rightarrow> 'v option) \<Rightarrow> heap \<Rightarrow> addr option \<Rightarrow> 'v option option" where
  "read_ptr un read h p = (case p of None \<Rightarrow> Some None
     | Some a \<Rightarrow> Option.bind (load un h a) (\<lambda>m. map_option Some (read h m)))"

definition copy_ptr ::
  "(cell \<Rightarrow> 'm option) \<Rightarrow> ('m \<Rightarrow> cell) \<Rightarrow> ('m \<Rightarrow> heap \<Rightarrow> ('m \<times> heap) option) \<Rightarrow>
     addr option \<Rightarrow> heap \<Rightarrow> (addr option \<times> heap) option" where
  "copy_ptr un mk copy p h = (case p of None \<Rightarrow> Some (None, h)
     | Some a \<Rightarrow> Option.bind (load un h a) (\<lambda>m. Option.bind (copy m h) (\<lambda>(m', h).
         case alloc (mk m') h of (a', h) \<Rightarrow> Some (Some a', h))))"

text \<open>The elements of an array, in order.\<close>

fun read_list :: "(heap \<Rightarrow> 'm \<Rightarrow> 'v option) \<Rightarrow> heap \<Rightarrow> 'm list \<Rightarrow> 'v list option" where
  "read_list read h [] = Some []"
| "read_list read h (x # xs) = Option.bind (read h x) (\<lambda>v. map_option ((#) v) (read_list read h xs))"

fun copy_list :: "('m \<Rightarrow> heap \<Rightarrow> ('m \<times> heap) option) \<Rightarrow> 'm list \<Rightarrow> heap \<Rightarrow> ('m list \<times> heap) option" where
  "copy_list copy [] h = Some ([], h)"
| "copy_list copy (x # xs) h =
     Option.bind (copy x h) (\<lambda>(y, h). Option.bind (copy_list copy xs h) (\<lambda>(ys, h). Some (y # ys, h)))"

text \<open>Two parts of a struct, one after the other, and a struct with no references.\<close>

definition read_pair where
  "read_pair r1 r2 h p = Option.bind (r1 h (fst p)) (\<lambda>v. map_option (Pair v) (r2 h (snd p)))"

definition copy_pair where
  "copy_pair c1 c2 p h =
     Option.bind (c1 (fst p) h) (\<lambda>(y1, h). Option.bind (c2 (snd p) h) (\<lambda>(y2, h). Some ((y1, y2), h)))"

definition read_plain :: "heap \<Rightarrow> 'm \<Rightarrow> 'm option" where "read_plain h x = Some x"
definition copy_plain :: "'m \<Rightarrow> heap \<Rightarrow> ('m \<times> heap) option" where "copy_plain x h = Some (x, h)"

lemma deep_copy_plain: "deep_copy read_plain copy_plain"
  by unfold_locales (auto simp: read_plain_def copy_plain_def)

lemma same_between_sub: "same_between m n h g \<Longrightarrow> m \<le> m' \<Longrightarrow> n' \<le> n \<Longrightarrow> same_between m' n' h g"
  by (simp add: same_between_def)

text \<open>What the first part owns is not touched by the copying of the second.\<close>

lemma same_between_prefix:
  assumes "grows h1 h2" and "same_between m (hp_next h2) h2 g"
  shows "same_between m (hp_next h1) h1 g"
  using assms by (simp add: grows_def same_between_def)

lemma deep_copy_pair:
  assumes "deep_copy r1 c1" and "deep_copy r2 c2"
  shows "deep_copy (read_pair r1 r2) (copy_pair c1 c2)"
proof
  fix h p v g
  assume ok: "heap_ok h" and rd: "read_pair r1 r2 h p = Some v"
  then obtain v1 v2 where v: "r1 h (fst p) = Some v1" "r2 h (snd p) = Some v2" "v = (v1, v2)"
    by (auto simp: read_pair_def bind_eq_Some_conv)
  show "read_pair r1 r2 g p = Some v" if "same_between 0 (hp_next h) h g"
    using deep_copy.local [OF assms(1) ok v(1) that] deep_copy.local [OF assms(2) ok v(2) that] v(3)
    by (simp add: read_pair_def)
  obtain y1 h1 where c1: "c1 (fst p) h = Some (y1, h1)" "grows h h1"
    "\<And>g. same_between (hp_next h) (hp_next h1) h1 g \<Longrightarrow> r1 g y1 = Some v1"
    using deep_copy.copies [OF assms(1) ok v(1)] by blast
  have "r2 h1 (snd p) = Some v2" by (rule deep_copy.grown [OF assms(2) ok v(2) c1(2)])
  from deep_copy.copies [OF assms(2) grows_ok [OF c1(2)] this]
  obtain y2 h2 where c2: "c2 (snd p) h1 = Some (y2, h2)" "grows h1 h2"
    "\<And>g. same_between (hp_next h1) (hp_next h2) h2 g \<Longrightarrow> r2 g y2 = Some v2" by blast
  have "read_pair r1 r2 g (y1, y2) = Some v" if g: "same_between (hp_next h) (hp_next h2) h2 g" for g
    using c1(3) [OF same_between_prefix [OF c2(2) g]] c2(3) [OF same_between_sub [OF g]] c1(2) v(3)
    by (simp add: read_pair_def grows_def)
  then show "\<exists>y h'. copy_pair c1 c2 p h = Some (y, h') \<and> grows h h'
      \<and> (\<forall>g. same_between (hp_next h) (hp_next h') h' g \<longrightarrow> read_pair r1 r2 g y = Some v)"
    using c1(1) c2(1) grows_trans [OF c1(2) c2(2)] by (auto simp: copy_pair_def)
qed

lemma read_list_mono:
  assumes "\<And>x v. read h x = Some v \<Longrightarrow> read g x = Some v" and "read_list read h xs = Some vs"
  shows "read_list read g xs = Some vs"
  using assms(2)
proof (induction xs arbitrary: vs)
  case (Cons x xs)
  then obtain w ws where w: "read h x = Some w" "read_list read h xs = Some ws" "vs = w # ws"
    by (auto simp: bind_eq_Some_conv)
  show ?case using assms(1) [OF w(1)] Cons.IH [OF w(2)] w(3) by simp
qed simp

lemma deep_copy_list:
  assumes "deep_copy read copy"
  shows "deep_copy (read_list read) (copy_list copy)"
proof
  fix h xs v g
  assume ok: "heap_ok h" and rd: "read_list read h xs = Some v"
  show "read_list read g xs = Some v" if g: "same_between 0 (hp_next h) h g"
    using deep_copy.local [OF assms ok _ g] rd by (rule read_list_mono)
next
  fix h xs v
  assume "heap_ok h" and "read_list read h xs = Some v"
  then show "\<exists>y h'. copy_list copy xs h = Some (y, h') \<and> grows h h'
      \<and> (\<forall>g. same_between (hp_next h) (hp_next h') h' g \<longrightarrow> read_list read g y = Some v)"
  proof (induction xs arbitrary: h v)
    case (Cons x xs)
    then obtain v1 vs where v: "read h x = Some v1" "read_list read h xs = Some vs" "v = v1 # vs"
      by (auto simp: bind_eq_Some_conv)
    obtain y h1 where c1: "copy x h = Some (y, h1)" "grows h h1"
      "\<And>g. same_between (hp_next h) (hp_next h1) h1 g \<Longrightarrow> read g y = Some v1"
      using deep_copy.copies [OF assms Cons.prems(1) v(1)] by blast
    have "read_list read h1 xs = Some vs"
      using deep_copy.grown [OF assms Cons.prems(1) _ c1(2)] v(2) by (rule read_list_mono)
    from Cons.IH [OF grows_ok [OF c1(2)] this] obtain ys h2 where c2: "copy_list copy xs h1 = Some (ys, h2)"
      "grows h1 h2" "\<And>g. same_between (hp_next h1) (hp_next h2) h2 g \<Longrightarrow> read_list read g ys = Some vs"
      by blast
    have "read_list read g (y # ys) = Some v" if g: "same_between (hp_next h) (hp_next h2) h2 g" for g
      using c1(3) [OF same_between_prefix [OF c2(2) g]] c2(3) [OF same_between_sub [OF g]] c1(2) v(3)
      by (simp add: grows_def)
    then show ?case
      using c1(1) c2(1) grows_trans [OF c1(2) c2(2)] by auto
  qed simp
qed

lemma load_local:
  "heap_ok h \<Longrightarrow> load un h a = Some m \<Longrightarrow> same_between 0 (hp_next h) h g \<Longrightarrow> load un g a = Some m"
  by (cases "a < hp_next h") (auto simp: load_def heap_ok_def same_between_def)

lemma deep_copy_ptr:
  assumes "deep_copy read copy" and un: "\<And>m. un (mk m) = Some m"
  shows "deep_copy (read_ptr un read) (copy_ptr un mk copy)"
proof
  fix h p v g
  assume ok: "heap_ok h" and rd: "read_ptr un read h p = Some v"
  show "read_ptr un read g p = Some v" if g: "same_between 0 (hp_next h) h g"
  proof (cases p)
    case (Some a)
    with rd obtain m w where m: "load un h a = Some m" "read h m = Some w" "v = Some w"
      by (auto simp: read_ptr_def bind_eq_Some_conv)
    from load_local [OF ok m(1) g] deep_copy.local [OF assms(1) ok m(2) g] show ?thesis
      by (simp add: read_ptr_def Some m(3))
  qed (use rd in \<open>simp add: read_ptr_def\<close>)
  show "\<exists>y h'. copy_ptr un mk copy p h = Some (y, h') \<and> grows h h'
      \<and> (\<forall>g. same_between (hp_next h) (hp_next h') h' g \<longrightarrow> read_ptr un read g y = Some v)"
  proof (cases p)
    case None
    then show ?thesis using rd ok by (auto simp: copy_ptr_def read_ptr_def)
  next
    case (Some a)
    with rd obtain m w where m: "load un h a = Some m" "read h m = Some w" "v = Some w"
      by (auto simp: read_ptr_def bind_eq_Some_conv)
    obtain m' h1 where c: "copy m h = Some (m', h1)" "grows h h1"
      "\<And>g. same_between (hp_next h) (hp_next h1) h1 g \<Longrightarrow> read g m' = Some w"
      using deep_copy.copies [OF assms(1) ok m(2)] by blast
    obtain b h2 where al: "alloc (mk m') h1 = (b, h2)" by fastforce
    note al2 = alloc_grows [OF grows_ok [OF c(2)] al]
    have "read_ptr un read g (Some b) = Some v" if g: "same_between (hp_next h) (hp_next h2) h2 g" for g
    proof -
      have "read g m' = Some w" by (rule c(3) [OF same_between_prefix [OF _ g]]) (use al2 in blast)
      moreover have "hp_cells g b = Some (mk m')"
        using g al2 c(2) by (auto simp: same_between_def grows_def)
      ultimately show ?thesis by (simp add: read_ptr_def load_def un m(3))
    qed
    then show ?thesis
      using c(1) al grows_trans [OF c(2)] al2 by (auto simp: copy_ptr_def Some m(1))
  qed
qed

text \<open>A struct: its fields that are references are copied, \<open>scal\<close> of it is not touched.\<close>

lemma deep_copy_struct:
  assumes "deep_copy read copy"
    and "\<And>x m. parts (build x m) = m" and "\<And>x m. scal (build x m) = scal x"
  shows "deep_copy (\<lambda>h x. map_option (val (scal x)) (read h (parts x)))
      (\<lambda>x h. map_option (\<lambda>(y, h). (build x y, h)) (copy (parts x) h))"
proof
  fix h x v g
  assume ok: "heap_ok h" and "map_option (val (scal x)) (read h (parts x)) = Some v"
  then obtain w where w: "read h (parts x) = Some w" "v = val (scal x) w" by auto
  show "map_option (val (scal x)) (read g (parts x)) = Some v" if "same_between 0 (hp_next h) h g"
    using deep_copy.local [OF assms(1) ok w(1) that] w(2) by simp
  from deep_copy.copies [OF assms(1) ok w(1)]
  show "\<exists>y h'. map_option (\<lambda>(y, h). (build x y, h)) (copy (parts x) h) = Some (y, h') \<and> grows h h'
      \<and> (\<forall>g. same_between (hp_next h) (hp_next h') h' g \<longrightarrow> map_option (val (scal y)) (read g (parts y)) = Some v)"
    using assms(2,3) w(2) by fastforce
qed

section \<open>The generated functions\<close>

text \<open>Struct by struct: \<open>*out = *in\<close> and then the fields that are references.\<close>

fun unDec where "unDec (CellDec d) = Some d" | "unDec _ = None"
fun unInt32 where "unInt32 (CellInt32 d) = Some d" | "unInt32 _ = None"
fun unInt64 where "unInt64 (CellInt64 d) = Some d" | "unInt64 _ = None"
fun unBool where "unBool (CellBool d) = Some d" | "unBool _ = None"
fun unOwners where "unOwners (CellOwners d) = Some d" | "unOwners _ = None"
fun unPartition where "unPartition (CellPartition d) = Some d" | "unPartition _ = None"
fun unDisk where "unDisk (CellDisk d) = Some d" | "unDisk _ = None"
fun unFile where "unFile (CellFile d) = Some d" | "unFile _ = None"
fun unZram where "unZram (CellZram d) = Some d" | "unZram _ = None"
fun unSwap where "unSwap (CellSwap d) = Some d" | "unSwap _ = None"
fun unSwaps where "unSwaps (CellSwaps d) = Some d" | "unSwaps _ = None"
fun unConditions where "unConditions (CellConditions d) = Some d" | "unConditions _ = None"
fun unLabels where "unLabels (CellLabels d) = Some d" | "unLabels _ = None"
fun unSpec where "unSpec (CellSpec d) = Some d" | "unSpec _ = None"
fun unStatus where "unStatus (CellStatus d) = Some d" | "unStatus _ = None"
fun unNodeSwap where "unNodeSwap (CellNodeSwap d) = Some d" | "unNodeSwap _ = None"
fun unNodeSwaps where "unNodeSwaps (CellNodeSwaps d) = Some d" | "unNodeSwaps _ = None"
fun unNodeSwapList where "unNodeSwapList (CellNodeSwapList d) = Some d" | "unNodeSwapList _ = None"

text \<open>\<open>Quantity.DeepCopy\<close>: only an \<open>inf.Dec\<close> is behind a pointer.\<close>

definition Quantity_DeepCopy :: "quantity_m \<Rightarrow> heap \<Rightarrow> (quantity_m \<times> heap) option" where
  "Quantity_DeepCopy q h =
     (case qm_amount q of
        AmtInt64 v s \<Rightarrow> Some (q, h)
      | AmtDec a \<Rightarrow> Option.bind (load unDec h a) (\<lambda>d.
          case alloc (CellDec d) h of (a', h) \<Rightarrow> Some (q\<lparr>qm_amount := AmtDec a'\<rparr>, h)))"

definition Partition_DeepCopyInto :: "swapPartition \<Rightarrow> heap \<Rightarrow> (swapPartition \<times> heap) option" where
  "Partition_DeepCopyInto inn h = Some (inn, h)"

definition SwapDisk_DeepCopyInto :: "swapDisk \<Rightarrow> heap \<Rightarrow> (swapDisk \<times> heap) option" where
  "SwapDisk_DeepCopyInto inn h = (let out = inn in Some (out\<lparr>sd_SwapPartition := sd_SwapPartition inn\<rparr>, h))"

definition SwapFile_DeepCopyInto :: "swapFile_m \<Rightarrow> heap \<Rightarrow> (swapFile_m \<times> heap) option" where
  "SwapFile_DeepCopyInto inn h =
     (let out = inn in Option.bind (Quantity_DeepCopy (fm_Size inn) h) (\<lambda>(q, h). Some (out\<lparr>fm_Size := q\<rparr>, h)))"

definition SwapZram_DeepCopyInto :: "swapZram_m \<Rightarrow> heap \<Rightarrow> (swapZram_m \<times> heap) option" where
  "SwapZram_DeepCopyInto inn h =
     (let out = inn in Option.bind (Quantity_DeepCopy (zm_Size inn) h) (\<lambda>(q, h). Some (out\<lparr>zm_Size := q\<rparr>, h)))"

definition SwapSpec_DeepCopyInto :: "swapSpec_m \<Rightarrow> heap \<Rightarrow> (swapSpec_m \<times> heap) option" where
  "SwapSpec_DeepCopyInto inn h =
     (let out = inn in
      Option.bind (copy_ptr unDisk CellDisk copy_plain (sm_Disk inn) h) (\<lambda>(d, h).
      let out = out\<lparr>sm_Disk := d\<rparr> in
      Option.bind (copy_ptr unFile CellFile SwapFile_DeepCopyInto (sm_File inn) h) (\<lambda>(f, h).
      let out = out\<lparr>sm_File := f\<rparr> in
      Option.bind (copy_ptr unZram CellZram SwapZram_DeepCopyInto (sm_Zram inn) h) (\<lambda>(z, h).
      Some (out\<lparr>sm_Zram := z\<rparr>, h)))))"

text \<open>The named slice type: its \<open>DeepCopyInto\<close> makes an array even of a nil slice, its \<open>DeepCopy\<close> does not.\<close>

definition Swaps_DeepCopyInto :: "addr option \<Rightarrow> heap \<Rightarrow> (addr option \<times> heap) option" where
  "Swaps_DeepCopyInto inn h =
     (case inn of
        None \<Rightarrow> (case alloc (CellSwaps []) h of (a, h) \<Rightarrow> Some (Some a, h))
      | Some a \<Rightarrow> copy_ptr unSwaps CellSwaps (copy_list SwapSpec_DeepCopyInto) (Some a) h)"

definition Swaps_DeepCopy :: "addr option \<Rightarrow> heap \<Rightarrow> (addr option \<times> heap) option" where
  "Swaps_DeepCopy inn h = (if inn = None then Some (None, h) else Swaps_DeepCopyInto inn h)"

definition NodeSwapSpec_DeepCopyInto :: "nodeSwapSpec_m \<Rightarrow> heap \<Rightarrow> (nodeSwapSpec_m \<times> heap) option" where
  "NodeSwapSpec_DeepCopyInto inn h =
     (let out = inn in
      Option.bind (copy_ptr unSwaps CellSwaps (copy_list SwapSpec_DeepCopyInto) (pm_Swaps inn) h) (\<lambda>(s, h).
      let out = out\<lparr>pm_Swaps := s\<rparr> in
      Option.bind (copy_ptr unInt32 CellInt32 copy_plain (pm_LogLevel inn) h) (\<lambda>(l, h).
      Some (out\<lparr>pm_LogLevel := l\<rparr>, h))))"

definition NodeSwapStatus_DeepCopyInto :: "nodeSwapStatus_m \<Rightarrow> heap \<Rightarrow> (nodeSwapStatus_m \<times> heap) option" where
  "NodeSwapStatus_DeepCopyInto inn h =
     (let out = inn in
      Option.bind (copy_ptr unConditions CellConditions (copy_list copy_plain) (tm_Conditions inn) h) (\<lambda>(c, h).
      Some (out\<lparr>tm_Conditions := c\<rparr>, h)))"

definition OwnerReference_DeepCopyInto :: "ownerReference_m \<Rightarrow> heap \<Rightarrow> (ownerReference_m \<times> heap) option" where
  "OwnerReference_DeepCopyInto inn h =
     (let out = inn in
      Option.bind (copy_ptr unBool CellBool copy_plain (orm_Controller inn) h) (\<lambda>(c, h).
      Some (out\<lparr>orm_Controller := c\<rparr>, h)))"

text \<open>Of the metadata, the parts that \<open>ApiTypes\<close> has; the labels are a map of their own.\<close>

definition ObjectMeta_DeepCopyInto :: "objectMeta_m \<Rightarrow> heap \<Rightarrow> (objectMeta_m \<times> heap) option" where
  "ObjectMeta_DeepCopyInto inn h =
     (let out = inn in
      Option.bind (copy_ptr unLabels CellLabels copy_plain (om_m_Labels inn) h) (\<lambda>(l, h).
      let out = out\<lparr>om_m_Labels := l\<rparr> in
      Option.bind (copy_ptr unOwners CellOwners (copy_list OwnerReference_DeepCopyInto)
        (om_m_OwnerReferences inn) h) (\<lambda>(o', h).
      Some (out\<lparr>om_m_OwnerReferences := o'\<rparr>, h))))"

definition NodeSwap_DeepCopyInto :: "nodeSwap_m \<Rightarrow> heap \<Rightarrow> (nodeSwap_m \<times> heap) option" where
  "NodeSwap_DeepCopyInto inn h =
     (let out = inn in
      Option.bind (ObjectMeta_DeepCopyInto (nm_Meta inn) h) (\<lambda>(m, h).
      let out = out\<lparr>nm_Meta := m\<rparr> in
      Option.bind (NodeSwapSpec_DeepCopyInto (nm_Spec inn) h) (\<lambda>(s, h).
      let out = out\<lparr>nm_Spec := s\<rparr> in
      Option.bind (NodeSwapStatus_DeepCopyInto (nm_Status inn) h) (\<lambda>(t, h).
      Some (out\<lparr>nm_Status := t\<rparr>, h)))))"

definition ListMeta_DeepCopyInto :: "listMeta_m \<Rightarrow> heap \<Rightarrow> (listMeta_m \<times> heap) option" where
  "ListMeta_DeepCopyInto inn h =
     (let out = inn in
      Option.bind (copy_ptr unInt64 CellInt64 copy_plain (lm_RemainingItemCount inn) h) (\<lambda>(c, h).
      Some (out\<lparr>lm_RemainingItemCount := c\<rparr>, h)))"

definition NodeSwapList_DeepCopyInto :: "nodeSwapList_m \<Rightarrow> heap \<Rightarrow> (nodeSwapList_m \<times> heap) option" where
  "NodeSwapList_DeepCopyInto inn h =
     (let out = inn in
      Option.bind (ListMeta_DeepCopyInto (nl_Meta inn) h) (\<lambda>(m, h).
      let out = out\<lparr>nl_Meta := m\<rparr> in
      Option.bind (copy_ptr unNodeSwaps CellNodeSwaps (copy_list NodeSwap_DeepCopyInto) (nl_Items inn) h) (\<lambda>(i, h).
      Some (out\<lparr>nl_Items := i\<rparr>, h))))"

text \<open>\<open>DeepCopy\<close>: nil for nil, otherwise \<open>new\<close> and \<open>DeepCopyInto\<close>.\<close>

definition Partition_DeepCopy where "Partition_DeepCopy = copy_ptr unPartition CellPartition Partition_DeepCopyInto"
definition SwapDisk_DeepCopy where "SwapDisk_DeepCopy = copy_ptr unDisk CellDisk SwapDisk_DeepCopyInto"
definition SwapFile_DeepCopy where "SwapFile_DeepCopy = copy_ptr unFile CellFile SwapFile_DeepCopyInto"
definition SwapZram_DeepCopy where "SwapZram_DeepCopy = copy_ptr unZram CellZram SwapZram_DeepCopyInto"
definition SwapSpec_DeepCopy where "SwapSpec_DeepCopy = copy_ptr unSwap CellSwap SwapSpec_DeepCopyInto"
definition NodeSwapSpec_DeepCopy where "NodeSwapSpec_DeepCopy = copy_ptr unSpec CellSpec NodeSwapSpec_DeepCopyInto"
definition NodeSwapStatus_DeepCopy where "NodeSwapStatus_DeepCopy = copy_ptr unStatus CellStatus NodeSwapStatus_DeepCopyInto"
definition NodeSwap_DeepCopy where "NodeSwap_DeepCopy = copy_ptr unNodeSwap CellNodeSwap NodeSwap_DeepCopyInto"
definition NodeSwapList_DeepCopy where
  "NodeSwapList_DeepCopy = copy_ptr unNodeSwapList CellNodeSwapList NodeSwapList_DeepCopyInto"

text \<open>\<open>DeepCopyObject\<close> returns the copy as an interface value, the nil interface for nil.\<close>

definition NodeSwap_DeepCopyObject where
  "NodeSwap_DeepCopyObject p h = Option.bind (NodeSwap_DeepCopy p h) (\<lambda>(c, h).
     if c \<noteq> None then Some (c, h) else Some (None, h))"
definition NodeSwapList_DeepCopyObject where
  "NodeSwapList_DeepCopyObject p h = Option.bind (NodeSwapList_DeepCopy p h) (\<lambda>(c, h).
     if c \<noteq> None then Some (c, h) else Some (None, h))"

section \<open>What the structs stand for\<close>

definition read_quantity :: "heap \<Rightarrow> quantity_m \<Rightarrow> quantity option" where
  "read_quantity h q =
     (case qm_amount q of
        AmtInt64 v s \<Rightarrow> Some \<lparr>q_amount = Int64Amount v s, q_string = qm_string q\<rparr>
      | AmtDec a \<Rightarrow> map_option (\<lambda>(u, s). \<lparr>q_amount = InfDecAmount u s, q_string = qm_string q\<rparr>) (load unDec h a))"

definition read_file :: "heap \<Rightarrow> swapFile_m \<Rightarrow> swapFile option" where
  "read_file h f = map_option (\<lambda>q. \<lparr>sf_Path = fm_Path f, sf_Size = q\<rparr>) (read_quantity h (fm_Size f))"

definition read_zram :: "heap \<Rightarrow> swapZram_m \<Rightarrow> swapZram option" where
  "read_zram h z = map_option (\<lambda>q. \<lparr>sz_Size = q\<rparr>) (read_quantity h (zm_Size z))"

definition read_swap :: "heap \<Rightarrow> swapSpec_m \<Rightarrow> swapSpec option" where
  "read_swap h s =
     Option.bind (read_ptr unDisk read_plain h (sm_Disk s)) (\<lambda>d.
     Option.bind (read_ptr unFile read_file h (sm_File s)) (\<lambda>f.
     Option.bind (read_ptr unZram read_zram h (sm_Zram s)) (\<lambda>z.
     Some \<lparr>sw_Priority = sm_Priority s, sw_SwapType = sm_SwapType s, sw_Disk = d, sw_File = f, sw_Zram = z\<rparr>)))"

text \<open>A nil slice is the empty list.\<close>

definition slice :: "'a list option \<Rightarrow> 'a list" where
  "slice l = (case l of None \<Rightarrow> [] | Some l \<Rightarrow> l)"

definition read_spec :: "heap \<Rightarrow> nodeSwapSpec_m \<Rightarrow> nodeSwapSpec option" where
  "read_spec h p =
     Option.bind (read_ptr unSwaps (read_list read_swap) h (pm_Swaps p)) (\<lambda>s.
     Option.bind (read_ptr unInt32 read_plain h (pm_LogLevel p)) (\<lambda>l.
     Some \<lparr>sp_MachineConfigPoolSelector = pm_MachineConfigPoolSelector p, sp_Swaps = slice s, sp_LogLevel = l\<rparr>))"

definition read_status :: "heap \<Rightarrow> nodeSwapStatus_m \<Rightarrow> nodeSwapStatus option" where
  "read_status h t = map_option (\<lambda>c. \<lparr>st_Conditions = slice c\<rparr>)
     (read_ptr unConditions (read_list read_plain) h (tm_Conditions t))"

definition read_owner :: "heap \<Rightarrow> ownerReference_m \<Rightarrow> ownerReference option" where
  "read_owner h o' = map_option (\<lambda>c. \<lparr>or_APIVersion = orm_APIVersion o', or_Kind = orm_Kind o',
       or_Name = orm_Name o', or_Controller = c\<rparr>)
     (read_ptr unBool read_plain h (orm_Controller o'))"

definition read_meta :: "heap \<Rightarrow> objectMeta_m \<Rightarrow> objectMeta option" where
  "read_meta h m =
     Option.bind (read_ptr unLabels read_plain h (om_m_Labels m)) (\<lambda>l.
     Option.bind (read_ptr unOwners (read_list read_owner) h (om_m_OwnerReferences m)) (\<lambda>o'.
     Some \<lparr>om_Name = om_m_Name m, om_Namespace = om_m_Namespace m, om_Labels = l,
       om_ResourceVersion = om_m_ResourceVersion m, om_OwnerReferences = slice o'\<rparr>))"

definition read_nodeSwap :: "heap \<Rightarrow> nodeSwap_m \<Rightarrow> nodeSwap option" where
  "read_nodeSwap h n =
     Option.bind (read_meta h (nm_Meta n)) (\<lambda>m.
     Option.bind (read_spec h (nm_Spec n)) (\<lambda>s.
     Option.bind (read_status h (nm_Status n)) (\<lambda>t.
     Some \<lparr>ns_Meta = m, ns_Spec = s, ns_Status = t\<rparr>)))"

text \<open>A list: the resource version, the number of remaining items, the items.\<close>

definition read_nodeSwapList :: "heap \<Rightarrow> nodeSwapList_m \<Rightarrow> (string \<times> int64 option \<times> nodeSwap list) option" where
  "read_nodeSwapList h l =
     Option.bind (read_ptr unInt64 read_plain h (lm_RemainingItemCount (nl_Meta l))) (\<lambda>c.
     Option.bind (read_ptr unNodeSwaps (read_list read_nodeSwap) h (nl_Items l)) (\<lambda>i.
     Some (lm_ResourceVersion (nl_Meta l), c, slice i)))"

section \<open>Every copying function keeps the promise\<close>

lemmas parts_defs = read_pair_def copy_pair_def read_plain_def copy_plain_def

lemma map_option_bind: "map_option f (Option.bind x g) = Option.bind x (\<lambda>y. map_option f (g y))"
  by (cases x) simp_all

lemma bind_map_option: "Option.bind (map_option f x) g = Option.bind x (\<lambda>y. g (f y))"
  by (cases x) simp_all

lemma map_option_as_bind: "map_option f x = Option.bind x (\<lambda>y. Some (f y))"
  by (cases x) simp_all

lemmas bind_simps = map_option_bind bind_map_option map_option_as_bind bind_assoc case_prod_unfold

lemma deep_copy_quantity: "deep_copy read_quantity Quantity_DeepCopy"
proof
  fix h q v g
  assume ok: "heap_ok h" and rd: "read_quantity h q = Some v"
  show "read_quantity g q = Some v" if g: "same_between 0 (hp_next h) h g"
  proof (cases "qm_amount q")
    case (AmtDec a)
    with rd obtain d where d: "load unDec h a = Some d" by (auto simp: read_quantity_def)
    from load_local [OF ok d g] d rd show ?thesis by (simp add: read_quantity_def AmtDec)
  qed (use rd in \<open>simp add: read_quantity_def\<close>)
  show "\<exists>y h'. Quantity_DeepCopy q h = Some (y, h') \<and> grows h h'
      \<and> (\<forall>g. same_between (hp_next h) (hp_next h') h' g \<longrightarrow> read_quantity g y = Some v)"
  proof (cases "qm_amount q")
    case (AmtDec a)
    with rd obtain d where d: "load unDec h a = Some d"
      "v = (case d of (u, s) \<Rightarrow> \<lparr>q_amount = InfDecAmount u s, q_string = qm_string q\<rparr>)"
      by (auto simp: read_quantity_def)
    obtain b h2 where al: "alloc (CellDec d) h = (b, h2)" by fastforce
    note al2 = alloc_grows [OF ok al]
    have "hp_cells g b = Some (CellDec d)" if "same_between (hp_next h) (hp_next h2) h2 g" for g
      using that al2 unfolding same_between_def by (metis lessI order_refl)
    then have "read_quantity g (q\<lparr>qm_amount := AmtDec b\<rparr>) = Some v" if "same_between (hp_next h) (hp_next h2) h2 g" for g
      using that d by (cases d) (simp add: read_quantity_def load_def)
    then show ?thesis
      using al al2 d(1) by (simp add: Quantity_DeepCopy_def AmtDec)
  qed (use rd ok in \<open>simp add: read_quantity_def Quantity_DeepCopy_def\<close>)
qed

lemma deep_copy_file: "deep_copy read_file SwapFile_DeepCopyInto"
proof -
  have "deep_copy (\<lambda>h x. map_option (\<lambda>q. \<lparr>sf_Path = fm_Path x, sf_Size = q\<rparr>) (read_quantity h (fm_Size x)))
      (\<lambda>x h. map_option (\<lambda>(y, h). (x\<lparr>fm_Size := y\<rparr>, h)) (Quantity_DeepCopy (fm_Size x) h))"
    by (rule deep_copy_struct [OF deep_copy_quantity, where scal = fm_Path]) simp_all
  then show ?thesis
    by (simp add: read_file_def [abs_def] SwapFile_DeepCopyInto_def [abs_def] bind_simps)
qed

lemma deep_copy_zram: "deep_copy read_zram SwapZram_DeepCopyInto"
proof -
  have "deep_copy (\<lambda>h x. map_option (\<lambda>q. \<lparr>sz_Size = q\<rparr>) (read_quantity h (zm_Size x)))
      (\<lambda>x h. map_option (\<lambda>(y, h). (x\<lparr>zm_Size := y\<rparr>, h)) (Quantity_DeepCopy (zm_Size x) h))"
    by (rule deep_copy_struct [OF deep_copy_quantity, where scal = "\<lambda>_. ()"]) simp_all
  then show ?thesis
    by (simp add: read_zram_def [abs_def] SwapZram_DeepCopyInto_def [abs_def] bind_simps)
qed

lemma deep_copy_swap: "deep_copy read_swap SwapSpec_DeepCopyInto"
proof -
  have "deep_copy (\<lambda>h x. map_option (\<lambda>(d, f, z). \<lparr>sw_Priority = sm_Priority x, sw_SwapType = sm_SwapType x,
          sw_Disk = d, sw_File = f, sw_Zram = z\<rparr>)
        (read_pair (read_ptr unDisk read_plain) (read_pair (read_ptr unFile read_file) (read_ptr unZram read_zram)) h
          (sm_Disk x, sm_File x, sm_Zram x)))
      (\<lambda>x h. map_option (\<lambda>(y, h). (case y of (d, f, z) \<Rightarrow> x\<lparr>sm_Disk := d, sm_File := f, sm_Zram := z\<rparr>, h))
        (copy_pair (copy_ptr unDisk CellDisk copy_plain) (copy_pair (copy_ptr unFile CellFile SwapFile_DeepCopyInto)
          (copy_ptr unZram CellZram SwapZram_DeepCopyInto)) (sm_Disk x, sm_File x, sm_Zram x) h))"
    by (rule deep_copy_struct [where scal = "\<lambda>x. (sm_Priority x, sm_SwapType x)"
          and val = "\<lambda>(p, t) (d, f, z). \<lparr>sw_Priority = p, sw_SwapType = t, sw_Disk = d, sw_File = f, sw_Zram = z\<rparr>", simplified])
      (auto intro!: deep_copy_pair deep_copy_ptr deep_copy_plain deep_copy_file deep_copy_zram)
  then show ?thesis
    by (simp add: read_swap_def [abs_def] SwapSpec_DeepCopyInto_def [abs_def] read_pair_def copy_pair_def bind_simps)
qed

lemma deep_copy_disk: "deep_copy read_plain SwapDisk_DeepCopyInto" "deep_copy read_plain Partition_DeepCopyInto"
  using deep_copy_plain
  by (simp_all add: SwapDisk_DeepCopyInto_def [abs_def] Partition_DeepCopyInto_def [abs_def] copy_plain_def [abs_def])

lemma deep_copy_spec: "deep_copy read_spec NodeSwapSpec_DeepCopyInto"
proof -
  have "deep_copy (\<lambda>h x. map_option (\<lambda>(s, l). \<lparr>sp_MachineConfigPoolSelector = pm_MachineConfigPoolSelector x,
          sp_Swaps = slice s, sp_LogLevel = l\<rparr>)
        (read_pair (read_ptr unSwaps (read_list read_swap)) (read_ptr unInt32 read_plain) h (pm_Swaps x, pm_LogLevel x)))
      (\<lambda>x h. map_option (\<lambda>(y, h). (case y of (s, l) \<Rightarrow> x\<lparr>pm_Swaps := s, pm_LogLevel := l\<rparr>, h))
        (copy_pair (copy_ptr unSwaps CellSwaps (copy_list SwapSpec_DeepCopyInto)) (copy_ptr unInt32 CellInt32 copy_plain)
          (pm_Swaps x, pm_LogLevel x) h))"
    by (rule deep_copy_struct [where scal = pm_MachineConfigPoolSelector])
      (auto intro!: deep_copy_pair deep_copy_ptr deep_copy_list deep_copy_plain deep_copy_swap)
  then show ?thesis
    by (simp add: read_spec_def [abs_def] NodeSwapSpec_DeepCopyInto_def [abs_def] read_pair_def copy_pair_def bind_simps)
qed

lemma deep_copy_status: "deep_copy read_status NodeSwapStatus_DeepCopyInto"
proof -
  have "deep_copy (\<lambda>h x. map_option (\<lambda>c. \<lparr>st_Conditions = slice c\<rparr>)
        (read_ptr unConditions (read_list read_plain) h (tm_Conditions x)))
      (\<lambda>x h. map_option (\<lambda>(y, h). (x\<lparr>tm_Conditions := y\<rparr>, h))
        (copy_ptr unConditions CellConditions (copy_list copy_plain) (tm_Conditions x) h))"
    by (rule deep_copy_struct [where scal = "\<lambda>_. ()"])
      (auto intro!: deep_copy_ptr deep_copy_list deep_copy_plain)
  then show ?thesis
    by (simp add: read_status_def [abs_def] NodeSwapStatus_DeepCopyInto_def [abs_def] bind_simps)
qed

lemma deep_copy_owner: "deep_copy read_owner OwnerReference_DeepCopyInto"
proof -
  have "deep_copy (\<lambda>h x. map_option (\<lambda>c. \<lparr>or_APIVersion = orm_APIVersion x, or_Kind = orm_Kind x,
          or_Name = orm_Name x, or_Controller = c\<rparr>) (read_ptr unBool read_plain h (orm_Controller x)))
      (\<lambda>x h. map_option (\<lambda>(y, h). (x\<lparr>orm_Controller := y\<rparr>, h)) (copy_ptr unBool CellBool copy_plain (orm_Controller x) h))"
    by (rule deep_copy_struct [where scal = "\<lambda>x. (orm_APIVersion x, orm_Kind x, orm_Name x)"
          and val = "\<lambda>(a, k, n) c. \<lparr>or_APIVersion = a, or_Kind = k, or_Name = n, or_Controller = c\<rparr>", simplified])
      (auto intro!: deep_copy_ptr deep_copy_plain)
  then show ?thesis
    by (simp add: read_owner_def [abs_def] OwnerReference_DeepCopyInto_def [abs_def] bind_simps)
qed

lemma deep_copy_meta: "deep_copy read_meta ObjectMeta_DeepCopyInto"
proof -
  have "deep_copy (\<lambda>h x. map_option (\<lambda>(l, o'). \<lparr>om_Name = om_m_Name x, om_Namespace = om_m_Namespace x,
          om_Labels = l, om_ResourceVersion = om_m_ResourceVersion x, om_OwnerReferences = slice o'\<rparr>)
        (read_pair (read_ptr unLabels read_plain) (read_ptr unOwners (read_list read_owner)) h
          (om_m_Labels x, om_m_OwnerReferences x)))
      (\<lambda>x h. map_option (\<lambda>(y, h). (case y of (l, o') \<Rightarrow> x\<lparr>om_m_Labels := l, om_m_OwnerReferences := o'\<rparr>, h))
        (copy_pair (copy_ptr unLabels CellLabels copy_plain)
          (copy_ptr unOwners CellOwners (copy_list OwnerReference_DeepCopyInto))
          (om_m_Labels x, om_m_OwnerReferences x) h))"
    by (rule deep_copy_struct [where scal = "\<lambda>x. (om_m_Name x, om_m_Namespace x, om_m_ResourceVersion x)"
          and val = "\<lambda>(a, b, v) (l, o'). \<lparr>om_Name = a, om_Namespace = b, om_Labels = l,
            om_ResourceVersion = v, om_OwnerReferences = slice o'\<rparr>", simplified])
      (auto intro!: deep_copy_pair deep_copy_ptr deep_copy_list deep_copy_plain deep_copy_owner)
  then show ?thesis
    by (simp add: read_meta_def [abs_def] ObjectMeta_DeepCopyInto_def [abs_def] read_pair_def copy_pair_def bind_simps)
qed

lemma deep_copy_nodeSwap: "deep_copy read_nodeSwap NodeSwap_DeepCopyInto"
proof -
  have "deep_copy (\<lambda>h x. map_option (\<lambda>(m, s, t). \<lparr>ns_Meta = m, ns_Spec = s, ns_Status = t\<rparr>)
        (read_pair read_meta (read_pair read_spec read_status) h (nm_Meta x, nm_Spec x, nm_Status x)))
      (\<lambda>x h. map_option (\<lambda>(y, h). (case y of (m, s, t) \<Rightarrow> x\<lparr>nm_Meta := m, nm_Spec := s, nm_Status := t\<rparr>, h))
        (copy_pair ObjectMeta_DeepCopyInto (copy_pair NodeSwapSpec_DeepCopyInto NodeSwapStatus_DeepCopyInto)
          (nm_Meta x, nm_Spec x, nm_Status x) h))"
    by (rule deep_copy_struct [where scal = "\<lambda>_. ()"])
      (auto intro!: deep_copy_pair deep_copy_meta deep_copy_spec deep_copy_status)
  then show ?thesis
    by (simp add: read_nodeSwap_def [abs_def] NodeSwap_DeepCopyInto_def [abs_def] read_pair_def copy_pair_def bind_simps)
qed

definition read_listMeta :: "heap \<Rightarrow> listMeta_m \<Rightarrow> (string \<times> int64 option) option" where
  "read_listMeta h m = map_option (Pair (lm_ResourceVersion m)) (read_ptr unInt64 read_plain h (lm_RemainingItemCount m))"

lemma deep_copy_listMeta: "deep_copy read_listMeta ListMeta_DeepCopyInto"
proof -
  have "deep_copy (\<lambda>h x. map_option (Pair (lm_ResourceVersion x)) (read_ptr unInt64 read_plain h (lm_RemainingItemCount x)))
      (\<lambda>x h. map_option (\<lambda>(y, h). (x\<lparr>lm_RemainingItemCount := y\<rparr>, h))
        (copy_ptr unInt64 CellInt64 copy_plain (lm_RemainingItemCount x) h))"
    by (rule deep_copy_struct [where scal = lm_ResourceVersion]) (auto intro!: deep_copy_ptr deep_copy_plain)
  then show ?thesis
    by (simp add: read_listMeta_def [abs_def] ListMeta_DeepCopyInto_def [abs_def] bind_simps)
qed

lemma deep_copy_nodeSwapList: "deep_copy read_nodeSwapList NodeSwapList_DeepCopyInto"
proof -
  have "deep_copy (\<lambda>h x. map_option (\<lambda>((v, c), i). (v, c, slice i))
        (read_pair read_listMeta (read_ptr unNodeSwaps (read_list read_nodeSwap)) h (nl_Meta x, nl_Items x)))
      (\<lambda>x h. map_option (\<lambda>(y, h). (case y of (m, i) \<Rightarrow> x\<lparr>nl_Meta := m, nl_Items := i\<rparr>, h))
        (copy_pair ListMeta_DeepCopyInto (copy_ptr unNodeSwaps CellNodeSwaps (copy_list NodeSwap_DeepCopyInto))
          (nl_Meta x, nl_Items x) h))"
    by (rule deep_copy_struct [where scal = "\<lambda>_. ()"])
      (auto intro!: deep_copy_pair deep_copy_ptr deep_copy_list deep_copy_listMeta deep_copy_nodeSwap)
  then show ?thesis
    by (simp add: read_nodeSwapList_def [abs_def] read_listMeta_def NodeSwapList_DeepCopyInto_def [abs_def]
        read_pair_def copy_pair_def bind_simps)
qed

text \<open>The pointer versions, for nil too.\<close>

lemmas deep_copy_intros =
  deep_copy_ptr deep_copy_list deep_copy_disk deep_copy_file deep_copy_zram deep_copy_swap deep_copy_spec
  deep_copy_status deep_copy_nodeSwap deep_copy_nodeSwapList

lemma deep_copy_pointers:
  "deep_copy (read_ptr unPartition read_plain) Partition_DeepCopy" "deep_copy (read_ptr unDisk read_plain) SwapDisk_DeepCopy"
  "deep_copy (read_ptr unFile read_file) SwapFile_DeepCopy" "deep_copy (read_ptr unZram read_zram) SwapZram_DeepCopy"
  "deep_copy (read_ptr unSwap read_swap) SwapSpec_DeepCopy" "deep_copy (read_ptr unSpec read_spec) NodeSwapSpec_DeepCopy"
  "deep_copy (read_ptr unStatus read_status) NodeSwapStatus_DeepCopy"
  "deep_copy (read_ptr unNodeSwap read_nodeSwap) NodeSwap_DeepCopy"
  "deep_copy (read_ptr unNodeSwapList read_nodeSwapList) NodeSwapList_DeepCopy"
  unfolding Partition_DeepCopy_def SwapDisk_DeepCopy_def SwapFile_DeepCopy_def SwapZram_DeepCopy_def
    SwapSpec_DeepCopy_def NodeSwapSpec_DeepCopy_def NodeSwapStatus_DeepCopy_def NodeSwap_DeepCopy_def
    NodeSwapList_DeepCopy_def
  by (intro deep_copy_intros; simp)+

lemma Swaps_DeepCopy_eq: "Swaps_DeepCopy = copy_ptr unSwaps CellSwaps (copy_list SwapSpec_DeepCopyInto)"
  by (intro ext) (simp add: Swaps_DeepCopy_def Swaps_DeepCopyInto_def copy_ptr_def split: option.split)

lemma DeepCopyObject_eq: "NodeSwap_DeepCopyObject = NodeSwap_DeepCopy" "NodeSwapList_DeepCopyObject = NodeSwapList_DeepCopy"
  by (auto simp: fun_eq_iff NodeSwap_DeepCopyObject_def NodeSwapList_DeepCopyObject_def split: bind_splits)

interpretation swaps: deep_copy "read_ptr unSwaps (read_list read_swap)" Swaps_DeepCopy
  unfolding Swaps_DeepCopy_eq by (intro deep_copy_intros) simp

interpretation node_swap: deep_copy "read_ptr unNodeSwap read_nodeSwap" NodeSwap_DeepCopyObject
  unfolding DeepCopyObject_eq by (rule deep_copy_pointers)

interpretation node_swap_list: deep_copy "read_ptr unNodeSwapList read_nodeSwapList" NodeSwapList_DeepCopyObject
  unfolding DeepCopyObject_eq by (rule deep_copy_pointers)

section \<open>Properties\<close>

text \<open>
  C37: copying a \<open>NodeSwap\<close> succeeds wherever it can be read; the copy reads as the original, is nil only
  for nil, and the two are independent: whatever is written to the cells of the copy, and to any cell
  allocated later, leaves the original as it was, and whatever is written to the older cells leaves
  the copy as it was. So the conditions the reconciler sets in its copy never reach the cache.
\<close>

theorem node_swap_copy_independent:
  assumes "heap_ok h" and "read_ptr unNodeSwap read_nodeSwap h p = Some v"
  shows "\<exists>q h'. NodeSwap_DeepCopyObject p h = Some (q, h') \<and> (q = None \<longleftrightarrow> p = None)
    \<and> read_ptr unNodeSwap read_nodeSwap h' q = Some v
    \<and> (\<forall>g. same_between 0 (hp_next h) h' g \<longrightarrow> read_ptr unNodeSwap read_nodeSwap g p = Some v)
    \<and> (\<forall>g. same_between (hp_next h) (hp_next h') h' g \<longrightarrow> read_ptr unNodeSwap read_nodeSwap g q = Some v)"
proof -
  from node_swap.copies [OF assms] obtain q h' where c: "NodeSwap_DeepCopyObject p h = Some (q, h')"
    "\<And>g. same_between (hp_next h) (hp_next h') h' g \<Longrightarrow> read_ptr unNodeSwap read_nodeSwap g q = Some v" by blast
  have "read_ptr unNodeSwap read_nodeSwap h' q = Some v" by (rule c(2)) (simp add: same_between_def)
  moreover have "q = None \<longleftrightarrow> p = None"
    using c(1) unfolding DeepCopyObject_eq NodeSwap_DeepCopy_def
    by (auto simp: copy_ptr_def bind_eq_Some_conv alloc_def split: option.splits)
  ultimately show ?thesis using c node_swap.original_kept [OF assms c(1)] by blast
qed

definition sample_heap :: heap where
  "sample_heap =
     \<lparr>hp_cells =
        [0 \<mapsto> CellNodeSwap \<lparr>nm_Meta = \<lparr>om_m_Name = ''swap'', om_m_Namespace = ''default'', om_m_Labels = None,
             om_m_ResourceVersion = 3, om_m_OwnerReferences = None\<rparr>,
           nm_Spec = \<lparr>pm_MachineConfigPoolSelector = ''a:'', pm_Swaps = Some 1, pm_LogLevel = None\<rparr>,
           nm_Status = \<lparr>tm_Conditions = Some 4\<rparr>\<rparr>,
         1 \<mapsto> CellSwaps [\<lparr>sm_Priority = 0, sm_SwapType = FileBasedSwap, sm_Disk = None, sm_File = Some 2, sm_Zram = None\<rparr>],
         2 \<mapsto> CellFile \<lparr>fm_Path = ''/swap'', fm_Size = \<lparr>qm_amount = AmtDec 3, qm_string = []\<rparr>\<rparr>,
         3 \<mapsto> CellDec (4, 0), 4 \<mapsto> CellConditions []],
      hp_next = 5\<rparr>"

lemma sample_heap_ok: "heap_ok sample_heap"
  by (auto simp: heap_ok_def sample_heap_def)

definition sample_object :: nodeSwap where
  "sample_object =
     \<lparr>ns_Meta = \<lparr>om_Name = ''swap'', om_Namespace = ''default'', om_Labels = None,
        om_ResourceVersion = 3, om_OwnerReferences = []\<rparr>,
      ns_Spec = \<lparr>sp_MachineConfigPoolSelector = ''a:'',
        sp_Swaps = [\<lparr>sw_Priority = 0, sw_SwapType = FileBasedSwap, sw_Disk = None,
          sw_File = Some \<lparr>sf_Path = ''/swap'', sf_Size = \<lparr>q_amount = InfDecAmount 4 0, q_string = []\<rparr>\<rparr>, sw_Zram = None\<rparr>],
        sp_LogLevel = None\<rparr>,
      ns_Status = \<lparr>st_Conditions = []\<rparr>\<rparr>"

lemma sample_heap_read: "read_ptr unNodeSwap read_nodeSwap sample_heap (Some 0) = Some (Some sample_object)"
  by (simp add: sample_heap_def sample_object_def read_ptr_def load_def read_nodeSwap_def read_meta_def read_spec_def
      read_status_def read_swap_def read_file_def read_quantity_def slice_def)

text \<open>Every cell of the original may be lost: the copy is still there.\<close>

theorem node_swap_copy_independent_witness:
  "\<exists>q h'. NodeSwap_DeepCopyObject (Some 0) sample_heap = Some (q, h') \<and> q \<noteq> None
    \<and> read_ptr unNodeSwap read_nodeSwap (h'\<lparr>hp_cells := (\<lambda>a. if a < 5 then None else hp_cells h' a)\<rparr>) q = Some (Some sample_object)"
proof -
  from node_swap_copy_independent [OF sample_heap_ok sample_heap_read] obtain q h' where
    c: "NodeSwap_DeepCopyObject (Some 0) sample_heap = Some (q, h')" "q \<noteq> None"
    and keep: "\<And>g. same_between (hp_next sample_heap) (hp_next h') h' g \<Longrightarrow>
      read_ptr unNodeSwap read_nodeSwap g q = Some (Some sample_object)" by blast
  have "same_between (hp_next sample_heap) (hp_next h') h' (h'\<lparr>hp_cells := (\<lambda>a. if a < 5 then None else hp_cells h' a)\<rparr>)"
    by (simp add: same_between_def sample_heap_def)
  with c keep show ?thesis by blast
qed

end
