(* ===== verification/CachedClient.thy ===== *)
theory CachedClient
  imports ClusterInvariant
begin

text \<open>
  The client that the manager gives the reconciler: it reads from the informers' caches, which lag
  behind the API server, and writes to the server
  (\<open>src/vendor/sigs.k8s.io/controller-runtime/pkg/client/client.go\<close>, \<open>pkg/cache/internal/cache_reader.go\<close>).
  It is a second provider of the interfaces \<open>kube_client\<close> and \<open>client_invariant\<close>; resource versions
  make a status update of an object that was read stale fail.
\<close>

section \<open>The client\<close>

record cached =
  cc_Server :: cluster
  cc_NodeSwaps :: "objectKey \<rightharpoonup> nodeSwap"
  cc_MachineConfigs :: "string \<rightharpoonup> machineConfig"
  cc_Pools :: "machineConfigPool list"

text \<open>A call of the server.\<close>

definition live :: "(cluster \<Rightarrow> 'a \<times> cluster) \<Rightarrow> cached \<Rightarrow> 'a \<times> cached" where
  "live call w = (case call (cc_Server w) of (x, s) \<Rightarrow> (x, w\<lparr>cc_Server := s\<rparr>))"

definition cache_GetNodeSwap :: "objectKey \<Rightarrow> cached \<Rightarrow> nodeSwap result \<times> cached" where
  "cache_GetNodeSwap key w =
     (case cc_NodeSwaps w key of
        None \<Rightarrow> Err (not_found ''NodeSwap.node-swap.openshift.io'' (snd key)) | Some ns \<Rightarrow> Ok ns, w)"

definition cache_GetMachineConfig :: "string \<Rightarrow> cached \<Rightarrow> machineConfig result \<times> cached" where
  "cache_GetMachineConfig name w =
     (case cc_MachineConfigs w name of
        None \<Rightarrow> Err (not_found ''MachineConfig.machineconfiguration.openshift.io'' name) | Some mc \<Rightarrow> Ok mc, w)"

definition cache_ListMachineConfigPools :: "cached \<Rightarrow> machineConfigPool list result \<times> cached" where
  "cache_ListMachineConfigPools w = (Ok (cc_Pools w), w)"

definition cached_client :: "cached client" where
  "cached_client =
     \<lparr>cl_Now = live api_Now, cl_GetNodeSwap = cache_GetNodeSwap, cl_GetMachineConfig = cache_GetMachineConfig,
      cl_ListMachineConfigPools = cache_ListMachineConfigPools,
      cl_CreateMachineConfig = (\<lambda>mc. live (api_CreateMachineConfig mc)),
      cl_UpdateStatus = (\<lambda>ns. live (api_UpdateStatus ns))\<rparr>"

lemma cached_client_simps [simp]:
  "cl_Now cached_client = live api_Now" "cl_GetNodeSwap cached_client = cache_GetNodeSwap"
  "cl_GetMachineConfig cached_client = cache_GetMachineConfig"
  "cl_ListMachineConfigPools cached_client = cache_ListMachineConfigPools"
  "cl_CreateMachineConfig cached_client = (\<lambda>mc. live (api_CreateMachineConfig mc))"
  "cl_UpdateStatus cached_client = (\<lambda>ns. live (api_UpdateStatus ns))"
  by (simp_all add: cached_client_def)

lemmas cache_defs = cache_GetNodeSwap_def cache_GetMachineConfig_def cache_ListMachineConfigPools_def

lemma live_simps [simp]:
  "fst (live call w) = fst (call (cc_Server w))" "cc_Server (snd (live call w)) = snd (call (cc_Server w))"
  "cc_NodeSwaps (snd (live call w)) = cc_NodeSwaps w" "cc_MachineConfigs (snd (live call w)) = cc_MachineConfigs w"
  "cc_Pools (snd (live call w)) = cc_Pools w"
  by (simp_all add: live_def split: prod.split)

definition server_writes :: "cached \<Rightarrow> api_write list" where
  "server_writes w = cs_Writes (cc_Server w)"

interpretation cached: kube_client cached_client server_writes
proof unfold_locales
  fix w key name mc ns
  show "server_writes (snd (cl_Now cached_client w)) = server_writes w"
    using api.now_writes by (simp add: server_writes_def)
  show "server_writes (snd (cl_GetNodeSwap cached_client key w)) = server_writes w"
    "server_writes (snd (cl_GetMachineConfig cached_client name w)) = server_writes w"
    "server_writes (snd (cl_ListMachineConfigPools cached_client w)) = server_writes w"
    by (simp_all add: cache_defs)
  show "server_writes (snd (cl_CreateMachineConfig cached_client mc w)) =
      server_writes w @ (if is_ok (fst (cl_CreateMachineConfig cached_client mc w)) then [CreatedMachineConfig mc] else [])"
    using api.create_writes [of mc "cc_Server w"] by (simp add: server_writes_def)
  show "server_writes (snd (cl_UpdateStatus cached_client ns w)) =
      server_writes w @ (if is_ok (fst (cl_UpdateStatus cached_client ns w)) then [UpdatedStatus (key_of ns) (ns_Status ns)] else [])"
    using api.update_writes [of ns "cc_Server w"] by (simp add: server_writes_def)
  show "no_panic (fst (cl_GetNodeSwap cached_client key w))" "no_panic (fst (cl_GetMachineConfig cached_client name w))"
    "no_panic (fst (cl_ListMachineConfigPools cached_client w))"
    by (simp_all add: cache_defs split: option.split)
  show "no_panic (fst (cl_CreateMachineConfig cached_client mc w))" "no_panic (fst (cl_UpdateStatus cached_client ns w))"
    using api.create_no_panic [of mc "cc_Server w"] api.update_no_panic [of ns "cc_Server w"] by simp_all
qed

section \<open>How the server evolves\<close>

text \<open>
  Of every object: it is as it was, or gone, or has a version that no object had before. Nobody writes
  an old version.
\<close>

definition evolves :: "cluster \<Rightarrow> cluster \<Rightarrow> bool" where
  "evolves s s' \<longleftrightarrow> cs_Revision s \<le> cs_Revision s'
     \<and> (\<forall>key ns. cs_NodeSwaps s' key = Some ns \<longrightarrow>
          cs_NodeSwaps s key = Some ns \<or> cs_Revision s < om_ResourceVersion (ns_Meta ns))"

lemma evolves_refl [simp]: "evolves s s"
  by (simp add: evolves_def)

lemma evolvesD:
  "evolves s s' \<Longrightarrow> cs_NodeSwaps s' key = Some ns \<Longrightarrow>
     cs_NodeSwaps s key = Some ns \<or> cs_Revision s < om_ResourceVersion (ns_Meta ns)"
  unfolding evolves_def by blast

lemma evolves_trans:
  assumes "evolves s s1" and "evolves s1 s2"
  shows "evolves s s2"
proof -
  have r: "cs_Revision s \<le> cs_Revision s1" "cs_Revision s1 \<le> cs_Revision s2" using assms by (simp_all add: evolves_def)
  have "cs_NodeSwaps s key = Some ns \<or> cs_Revision s < om_ResourceVersion (ns_Meta ns)"
    if "cs_NodeSwaps s2 key = Some ns" for key ns
    using evolvesD [OF assms(2) that] evolvesD [OF assms(1), of key ns] r(1) by auto
  with r show ?thesis unfolding evolves_def by auto
qed

lemma evolves_same:
  "cs_NodeSwaps s' = cs_NodeSwaps s \<Longrightarrow> cs_Revision s \<le> cs_Revision s' \<Longrightarrow> evolves s s'"
  by (simp add: evolves_def)

lemma evolves_put:
  assumes "cs_NodeSwaps s' = (cs_NodeSwaps s)(key := new)" and "cs_Revision s \<le> cs_Revision s'"
    and "\<And>ns. new = Some ns \<Longrightarrow> cs_NodeSwaps s key = Some ns \<or> cs_Revision s < om_ResourceVersion (ns_Meta ns)"
  shows "evolves s s'"
  using assms unfolding evolves_def by (metis fun_upd_apply)

lemma env_step_evolves: "evolves s (env_step a s)"
proof (cases a)
  case (EnvPutNodeSwap ns)
  then show ?thesis
    by (intro evolves_put [where key = "key_of ns" and new = "Some (stampNodeSwap (Suc (cs_Revision s)) ns)"]) auto
next
  case (EnvDeleteNodeSwap key)
  then show ?thesis by (intro evolves_put [where key = key and new = None]) auto
qed (auto intro: evolves_same)

lemma env_steps_evolve: "evolves s (fold env_step actions s)"
proof (induction actions arbitrary: s)
  case (Cons a actions)
  show ?case using evolves_trans [OF env_step_evolves Cons.IH] by simp
qed simp

lemma begin_call_evolves: "begin_call s = (f, s') \<Longrightarrow> evolves s s'"
  using evolves_trans [OF evolves_same env_steps_evolve]
  by (auto simp: begin_call_def split: list.splits)

lemma api_call_evolves:
  assumes "\<And>s. evolves s (snd (effect s))"
  shows "evolves s (snd (api_call effect s))"
  using begin_call_evolves [of s] evolves_trans [OF _ assms]
  by (auto simp: api_call_def split: prod.split option.split)

lemma api_evolves:
  "evolves s (snd (api_Now s))" "evolves s (snd (api_CreateMachineConfig mc s))" "evolves s (snd (api_UpdateStatus ns s))"
proof -
  show "evolves s (snd (api_Now s))" by (simp add: api_Now_def evolves_same)
  show "evolves s (snd (api_CreateMachineConfig mc s))"
    unfolding api_CreateMachineConfig_def by (rule api_call_evolves) (simp add: Let_def evolves_same)
  show "evolves s (snd (api_UpdateStatus ns s))"
    unfolding api_UpdateStatus_def
  proof (rule api_call_evolves)
    fix s
    show "evolves s (snd (case cs_NodeSwaps s (key_of ns) of
       None \<Rightarrow> (Err (not_found ''nodeswaps.node-swap.openshift.io'' (om_Name (ns_Meta ns))), s)
     | Some stored \<Rightarrow>
         if om_ResourceVersion (ns_Meta stored) \<noteq> om_ResourceVersion (ns_Meta ns)
         then (Err (conflict ''nodeswaps.node-swap.openshift.io'' (om_Name (ns_Meta ns))), s)
         else
           let (new, v) = put_status stored (ns_Status ns) (cs_Revision s) in
           (Ok new, s\<lparr>cs_NodeSwaps := (cs_NodeSwaps s)(key_of ns \<mapsto> new), cs_Revision := v,
                      cs_Writes := cs_Writes s @ [UpdatedStatus (key_of ns) (ns_Status ns)]\<rparr>)))"
    proof (cases "cs_NodeSwaps s (key_of ns)")
      case (Some stored)
      obtain new v where put: "put_status stored (ns_Status ns) (cs_Revision s) = (new, v)" by fastforce
      have "evolves s (s\<lparr>cs_NodeSwaps := (cs_NodeSwaps s)(key_of ns \<mapsto> new), cs_Revision := v,
                      cs_Writes := cs_Writes s @ [UpdatedStatus (key_of ns) (ns_Status ns)]\<rparr>)"
        using put_status_fields(4) [OF put] Some
        by (intro evolves_put [where key = "key_of ns" and new = "Some new"]) auto
      then show ?thesis by (simp add: Some put)
    qed simp
  qed
qed

section \<open>A pass that succeeds\<close>

context client_invariant
begin

lemma spec_Ok:
  assumes "ReconcileSpec re cl r w = (Ok (), r', w')"
  shows "is_ok (Create (ns_Spec (rr_desiredNodeSwap r)))"
    and "is_ok (parseLabelSelector (sp_MachineConfigPoolSelector (ns_Spec (rr_desiredNodeSwap r))))"
  using assms by (auto simp: ReconcileSpec_def Let_def split: result.splits prod.splits)

text \<open>Its last call is the update of the status of the object it read, in a world that keeps the invariant.\<close>

lemma reconcile_Ok_update:
  assumes "inv w" and "cl_GetNodeSwap cl key w = (Ok ns, w1)" and "Reconcile re cl key r w = (Ok (), r', w')"
  defines "conds \<equiv> st_Conditions (ns_Status ns)"
  obtains w2 stamps stored where "inv w2" "length stamps = length (statusUpdates None conds)"
    "cl_UpdateStatus cl (ns\<lparr>ns_Status := \<lparr>st_Conditions = status_after None conds stamps\<rparr>\<rparr>) w2 = (Ok stored, w')"
    "is_ok (Create (ns_Spec ns))" "is_ok (parseLabelSelector (sp_MachineConfigPoolSelector (ns_Spec ns)))"
proof -
  let ?r = "r\<lparr>rr_desiredNodeSwap := ns\<rparr>"
  have w1: "inv w1" using get_ns_inv [OF assms(1), of key] by (simp add: assms(2))
  obtain y r2 w2 where spec: "ReconcileSpec re cl ?r w1 = (y, r2, w2)" by (metis prod_cases3)
  have y: "y = Ok ()"
    using assms(3) by (cases y) (auto simp: Reconcile_def assms(2) spec split: prod.splits result.splits)
  have st: "ReconcileStatus cl None r2 w2 = (Ok (), r', w')"
    using assms(3) by (simp add: Reconcile_def assms(2) spec y)
  have ns: "rr_desiredNodeSwap r2 = ns" using spec_facts(1) [OF spec] by simp
  have w2: "inv w2" using spec_inv [OF w1, of re ?r] by (simp add: spec)
  obtain stamps w3 where s: "fold (setConditionNow cl) (statusUpdates None conds) (conds, w2) =
        (status_after None conds stamps, w3)"
    and len: "length stamps = length (statusUpdates None conds)"
    using set_conditions [of "statusUpdates None conds" conds w2] by (auto simp: status_after_def)
  have w3: "inv w3" using clock_inv [OF w2, of "statusUpdates None conds" conds] by (simp add: s)
  let ?ns = "ns\<lparr>ns_Status := \<lparr>st_Conditions = status_after None conds stamps\<rparr>\<rparr>"
  obtain z w4 where u: "cl_UpdateStatus cl ?ns w3 = (z, w4)" by fastforce
  obtain stored where "z = Ok stored" "w4 = w'"
    using st by (cases z) (auto simp: ReconcileStatus_def ns conds_def [symmetric] s u)
  with that [OF w3 len] u spec_Ok [OF spec [unfolded y]] show thesis by simp
qed

end

section \<open>What the caches hold\<close>

text \<open>
  Every cached object is one that the server had: if the server still has an object of that name and
  version, it is the cached one.
\<close>

definition cache_ok :: "cached \<Rightarrow> bool" where
  "cache_ok w \<longleftrightarrow> cluster_ok (cc_Server w)
     \<and> (\<forall>key ns. cc_NodeSwaps w key = Some ns \<longrightarrow> key_of ns = key \<and> fst key \<noteq> []
          \<and> conditions_wf (st_Conditions (ns_Status ns))
          \<and> om_ResourceVersion (ns_Meta ns) \<le> cs_Revision (cc_Server w)
          \<and> (\<forall>stored. cs_NodeSwaps (cc_Server w) key = Some stored \<longrightarrow>
               om_ResourceVersion (ns_Meta stored) = om_ResourceVersion (ns_Meta ns) \<longrightarrow> stored = ns))
     \<and> (\<forall>name mc. cc_MachineConfigs w name = Some mc \<longrightarrow> om_Namespace (mc_Meta mc) = [])"

lemma cache_okD:
  assumes "cache_ok w"
  shows "cluster_ok (cc_Server w)"
    and "cc_NodeSwaps w key = Some ns \<Longrightarrow> key_of ns = key \<and> fst key \<noteq> []
      \<and> conditions_wf (st_Conditions (ns_Status ns)) \<and> om_ResourceVersion (ns_Meta ns) \<le> cs_Revision (cc_Server w)"
    and "cc_NodeSwaps w key = Some ns \<Longrightarrow> cs_NodeSwaps (cc_Server w) key = Some stored \<Longrightarrow>
      om_ResourceVersion (ns_Meta stored) = om_ResourceVersion (ns_Meta ns) \<Longrightarrow> stored = ns"
    and "cc_MachineConfigs w name = Some mc \<Longrightarrow> om_Namespace (mc_Meta mc) = []"
  using assms unfolding cache_ok_def by blast+

lemma cache_ok_evolves:
  assumes "cache_ok w" and "evolves (cc_Server w) s" and "cluster_ok s"
  shows "cache_ok (w\<lparr>cc_Server := s\<rparr>)"
proof -
  have "key_of ns = key \<and> fst key \<noteq> [] \<and> conditions_wf (st_Conditions (ns_Status ns))
      \<and> om_ResourceVersion (ns_Meta ns) \<le> cs_Revision s
      \<and> (\<forall>stored. cs_NodeSwaps s key = Some stored \<longrightarrow>
           om_ResourceVersion (ns_Meta stored) = om_ResourceVersion (ns_Meta ns) \<longrightarrow> stored = ns)"
    if "cc_NodeSwaps w key = Some ns" for key ns
  proof -
    note c = cache_okD(2) [OF assms(1) that]
    have "stored = ns" if s: "cs_NodeSwaps s key = Some stored"
      and v: "om_ResourceVersion (ns_Meta stored) = om_ResourceVersion (ns_Meta ns)" for stored
    proof -
      have "\<not> cs_Revision (cc_Server w) < om_ResourceVersion (ns_Meta stored)" using c v by linarith
      with evolvesD [OF assms(2) s] have "cs_NodeSwaps (cc_Server w) key = Some stored" by blast
      from cache_okD(3) [OF assms(1) \<open>cc_NodeSwaps w key = Some ns\<close> this v] show ?thesis .
    qed
    moreover have "om_ResourceVersion (ns_Meta ns) \<le> cs_Revision s"
      using c assms(2) unfolding evolves_def by linarith
    ultimately show ?thesis using c by blast
  qed
  with assms(1,3) show ?thesis unfolding cache_ok_def by simp
qed

text \<open>What every call keeps, with respect to the world \<open>w0\<close> before the pass: the caches, and more.\<close>

definition during :: "cached \<Rightarrow> cached \<Rightarrow> bool" where
  "during w0 w \<longleftrightarrow> cache_ok w \<and> evolves (cc_Server w0) (cc_Server w)
     \<and> cc_NodeSwaps w = cc_NodeSwaps w0 \<and> cc_MachineConfigs w = cc_MachineConfigs w0 \<and> cc_Pools w = cc_Pools w0"

lemma during_refl: "cache_ok w \<Longrightarrow> during w w"
  by (simp add: during_def)

lemma duringD: "during w0 w \<Longrightarrow> cache_ok w" "during w0 w \<Longrightarrow> cc_NodeSwaps w = cc_NodeSwaps w0"
  "during w0 w \<Longrightarrow> cc_MachineConfigs w = cc_MachineConfigs w0" "during w0 w \<Longrightarrow> cc_Pools w = cc_Pools w0"
  "during w0 w \<Longrightarrow> evolves (cc_Server w0) (cc_Server w)"
  by (simp_all add: during_def)

lemma during_live:
  assumes "during w0 w" and "evolves (cc_Server w) (snd (call (cc_Server w)))" and "cluster_ok (snd (call (cc_Server w)))"
  shows "during w0 (snd (live call w))"
proof -
  let ?s = "snd (call (cc_Server w))"
  have eq: "snd (live call w) = w\<lparr>cc_Server := ?s\<rparr>" by (simp add: live_def split: prod.split)
  have "cache_ok (w\<lparr>cc_Server := ?s\<rparr>)" using cache_ok_evolves [OF duringD(1) [OF assms(1)] assms(2,3)] .
  moreover have "evolves (cc_Server w0) ?s" using duringD(5) [OF assms(1)] assms(2) by (rule evolves_trans)
  ultimately show ?thesis using duringD(2-4) [OF assms(1)] by (simp add: during_def eq)
qed

interpretation passing: client_invariant cached_client server_writes "during w0" for w0
proof unfold_locales
  fix w key name ns mc
  assume w: "during w0 w"
  note server = cache_okD(1) [OF duringD(1) [OF w]]
  show "during w0 (snd (cl_Now cached_client w))"
    using during_live [OF w, of api_Now] api_evolves(1) cluster.now_inv [OF server] by simp
  show "during w0 (snd (cl_GetNodeSwap cached_client key w))" "during w0 (snd (cl_GetMachineConfig cached_client name w))"
    "during w0 (snd (cl_ListMachineConfigPools cached_client w))"
    using w by (simp_all add: cache_defs)
  show "during w0 (snd (cl_CreateMachineConfig cached_client mc w))" if "own_machine_config mc"
    using during_live [OF w, of "api_CreateMachineConfig mc"] api_evolves(2) cluster.create_inv [OF server that] by simp
  show "during w0 (snd (cl_UpdateStatus cached_client ns w))"
    if "report_ok (st_Conditions (ns_Status ns))" "conditions_wf (st_Conditions (ns_Status ns))"
    using during_live [OF w, of "api_UpdateStatus ns"] api_evolves(3) cluster.update_inv [OF server that] by simp
  show "conditions_wf (st_Conditions (ns_Status ns))" if "fst (cl_GetNodeSwap cached_client key w) = Ok ns"
    using that cache_okD(2) [OF duringD(1) [OF w], of key ns] by (simp add: cache_defs split: option.splits)
qed

lemma pass_keeps:
  assumes "cache_ok w" and "Reconcile re cached_client key r w = (res, r', w')"
  shows "during w w'"
  using passing.reconcile_inv [OF during_refl [OF assms(1)], of re key r] assms(2) by simp

lemma pass_absent:
  assumes "cc_NodeSwaps w key = None"
  shows "Reconcile re cached_client key r w = (Ok (), r, w)"
  using assms by (simp add: Reconcile_def cache_defs not_found_def isNotFound_def)

lemma update_Ok:
  assumes "api_UpdateStatus ns s = (Ok stored, s')"
  obtains s1 old v where "begin_call s = (None, s1)" "cs_NodeSwaps s1 (key_of ns) = Some old"
    "om_ResourceVersion (ns_Meta old) = om_ResourceVersion (ns_Meta ns)"
    "put_status old (ns_Status ns) (cs_Revision s1) = (stored, v)"
    "cs_NodeSwaps s' = (cs_NodeSwaps s1)(key_of ns \<mapsto> stored)"
  using assms by (auto simp: api_UpdateStatus_def api_call_def split: prod.splits option.splits if_splits)

lemma status_after_fixed:
  assumes "length stamps = length (statusUpdates None conds)" and "status_after None conds stamps = conds"
  shows "settled_conditions conds"
proof (cases "conds = []")
  case True
  then show ?thesis using status_after_first(3) [of stamps] assms by simp
next
  case False
  then show ?thesis using status_after_settled [OF False assms(1)] assms(2) by simp
qed

text \<open>
  The object is reported: its spec is acceptable and its status is the one that further passes keep. A
  pass that succeeds and leaves the object as it is in the cache finds it so.
\<close>

definition reported :: "nodeSwap \<Rightarrow> bool" where
  "reported ns \<longleftrightarrow> settled_conditions (st_Conditions (ns_Status ns)) \<and> is_ok (Create (ns_Spec ns))
     \<and> is_ok (parseLabelSelector (sp_MachineConfigPoolSelector (ns_Spec ns)))"

lemma pass_Ok_stored:
  assumes "cache_ok w" and "cc_NodeSwaps w key = Some ns"
    and "Reconcile re cached_client key r w = (Ok (), r', w')"
  obtains s1 :: cluster and stamps v stored where "is_ok (Create (ns_Spec ns))"
    "is_ok (parseLabelSelector (sp_MachineConfigPoolSelector (ns_Spec ns)))"
    "put_status ns \<lparr>st_Conditions = status_after None (st_Conditions (ns_Status ns)) stamps\<rparr> (cs_Revision s1) = (stored, v)"
    "cs_NodeSwaps (cc_Server w') = (cs_NodeSwaps s1)(key \<mapsto> stored)"
    "length stamps = length (statusUpdates None (st_Conditions (ns_Status ns)))"
proof -
  let ?conds = "st_Conditions (ns_Status ns)"
  note c = cache_okD(2) [OF assms(1,2)]
  have get: "cl_GetNodeSwap cached_client key w = (Ok ns, w)" by (simp add: cache_defs assms(2))
  from passing.reconcile_Ok_update [OF during_refl [OF assms(1)] get assms(3)] obtain w2 stamps stored where
    w2: "during w w2" and len: "length stamps = length (statusUpdates None ?conds)"
    and upd: "cl_UpdateStatus cached_client (ns\<lparr>ns_Status := \<lparr>st_Conditions = status_after None ?conds stamps\<rparr>\<rparr>) w2 = (Ok stored, w')"
    and ok: "is_ok (Create (ns_Spec ns))" "is_ok (parseLabelSelector (sp_MachineConfigPoolSelector (ns_Spec ns)))"
    by blast
  let ?st = "\<lparr>st_Conditions = status_after None ?conds stamps\<rparr>"
  have "api_UpdateStatus (ns\<lparr>ns_Status := ?st\<rparr>) (cc_Server w2) = (Ok stored, cc_Server w')"
    using upd by (auto simp: live_def split: prod.splits)
  from update_Ok [OF this] obtain s1 old v where
    s1: "begin_call (cc_Server w2) = (None, s1)" "cs_NodeSwaps s1 key = Some old"
      "om_ResourceVersion (ns_Meta old) = om_ResourceVersion (ns_Meta ns)"
      "put_status old ?st (cs_Revision s1) = (stored, v)" "cs_NodeSwaps (cc_Server w') = (cs_NodeSwaps s1)(key \<mapsto> stored)"
    using c by auto
  have ok2: "cache_ok w2" and same: "cc_NodeSwaps w2 key = Some ns" using w2 assms(2) by (simp_all add: duringD)
  have ev: "evolves (cc_Server w2) s1" by (rule begin_call_evolves [OF s1(1)])
  have "cache_ok (w2\<lparr>cc_Server := s1\<rparr>)"
    using begin_call_ok(1) [OF cache_okD(1) [OF ok2] s1(1)] by (rule cache_ok_evolves [OF ok2 ev])
  from cache_okD(3) [OF this, of key ns old] same s1(2,3) have old: "old = ns" by simp
  from that [OF ok s1(4) [unfolded old] s1(5) len] show thesis .
qed

lemma pass_reported:
  assumes "cache_ok w" and "cc_NodeSwaps w key = Some ns"
    and "Reconcile re cached_client key r w = (Ok (), r', w')" and "cs_NodeSwaps (cc_Server w') key = Some ns"
  shows "reported ns"
proof -
  let ?conds = "st_Conditions (ns_Status ns)"
  obtain s1 :: cluster and stamps v stored where ok: "is_ok (Create (ns_Spec ns))"
      "is_ok (parseLabelSelector (sp_MachineConfigPoolSelector (ns_Spec ns)))"
    and put: "put_status ns \<lparr>st_Conditions = status_after None ?conds stamps\<rparr> (cs_Revision s1) = (stored, v)"
    and final: "cs_NodeSwaps (cc_Server w') = (cs_NodeSwaps s1)(key \<mapsto> stored)"
    and len: "length stamps = length (statusUpdates None ?conds)"
    by (rule pass_Ok_stored [OF assms(1-3)])
  have "stored = ns" using final assms(4) by simp
  then have "ns_Status ns = \<lparr>st_Conditions = status_after None ?conds stamps\<rparr>" using put_status_fields(1) [OF put] by simp
  then have "status_after None ?conds stamps = ?conds" by (metis nodeSwapStatus.select_convs(1))
  from status_after_fixed [OF len this] ok show ?thesis by (simp add: reported_def)
qed

section \<open>Caches that have caught up\<close>

definition in_sync :: "cached \<Rightarrow> bool" where
  "in_sync w \<longleftrightarrow> cc_NodeSwaps w = cs_NodeSwaps (cc_Server w)
     \<and> cc_MachineConfigs w = cs_MachineConfigs (cc_Server w) \<and> cc_Pools w = cs_Pools (cc_Server w)"

lemma kubelet_live:
  assumes "cs_Schedule (cc_Server w) = []" and "cc_MachineConfigs w = cs_MachineConfigs (cc_Server w)"
  shows "ReconcileKubeletCgroups re cached_client r w = live (ReconcileKubeletCgroups re api_server r) w"
  using assms
  by (auto simp: ReconcileKubeletCgroups_def cache_defs api_GetMachineConfig_def api_call_Nil live_def
      not_found_def isNotFound_def Let_def split: option.split result.split prod.split)

lemma clock_live:
  "fold (setConditionNow cached_client) ups (conds, w) =
     (case fold (setConditionNow api_server) ups (conds, cc_Server w) of (cs, s) \<Rightarrow> (cs, w\<lparr>cc_Server := s\<rparr>))"
proof (induction ups arbitrary: conds w)
  case (Cons c ups)
  obtain t s1 where n: "api_Now (cc_Server w) = (t, s1)" by fastforce
  have "setConditionNow cached_client c (conds, w) = (setCondition t conds c, w\<lparr>cc_Server := s1\<rparr>)"
    "setConditionNow api_server c (conds, cc_Server w) = (setCondition t conds c, s1)"
    by (simp_all add: setConditionNow_def live_def n setCondition_def)
  then show ?case by (simp add: Cons.IH split: prod.split)
qed simp

lemma status_live:
  "ReconcileStatus cached_client e r w =
     (case ReconcileStatus api_server e r (cc_Server w) of (res, r', s) \<Rightarrow> (res, r', w\<lparr>cc_Server := s\<rparr>))"
  by (auto simp: ReconcileStatus_def clock_live live_def Let_def split: prod.split result.split)

text \<open>On a quiet server a pass with the caches in step is the pass with the server itself.\<close>

lemma reconcile_live:
  assumes "cs_Schedule (cc_Server w) = []" and "in_sync w"
  shows "Reconcile re cached_client key r w =
     (case Reconcile re api_server key r (cc_Server w) of (res, r', s) \<Rightarrow> (res, r', w\<lparr>cc_Server := s\<rparr>))"
proof (cases "cs_NodeSwaps (cc_Server w) key")
  case None
  then show ?thesis
    using assms by (simp add: Reconcile_def cache_defs in_sync_def api_GetNodeSwap_def api_call_Nil not_found_def isNotFound_def)
next
  case (Some ns)
  have get: "cache_GetNodeSwap key w = (Ok ns, w)" "api_GetNodeSwap key (cc_Server w) = (Ok ns, cc_Server w)"
    using assms Some by (simp_all add: cache_defs in_sync_def api_GetNodeSwap_def api_call_Nil)
  have kube: "ReconcileKubeletCgroups re cached_client r w = live (ReconcileKubeletCgroups re api_server r) w" for r
    using assms by (intro kubelet_live) (simp_all add: in_sync_def)
  have spec: "ReconcileSpec re cached_client r w =
      (case ReconcileSpec re api_server r (cc_Server w) of (res, r', s) \<Rightarrow> (res, r', w\<lparr>cc_Server := s\<rparr>))" for r
    using assms
    by (auto simp: ReconcileSpec_def cache_defs in_sync_def api_ListMachineConfigPools_def api_call_Nil kube live_def Let_def
        split: result.split prod.split)
  obtain y r2 s2 where s: "ReconcileSpec re api_server (r\<lparr>rr_desiredNodeSwap := ns\<rparr>) (cc_Server w) = (y, r2, s2)"
    by (metis prod_cases3)
  show ?thesis
    by (cases y) (auto simp: Reconcile_def get spec s status_live split: result.split prod.split)
qed

end
