(* ===== verification/ControlLoop.thy ===== *)
theory ControlLoop
  imports CachedClient Watches
begin

text \<open>
  The operator as it runs: informers bring the caches up to date and report every change to the event
  handlers, these fill the work queue, one worker (the default \<open>MaxConcurrentReconciles\<close>) takes keys from
  it and reconciles them (\<open>src/vendor/sigs.k8s.io/controller-runtime/pkg/internal/controller/controller.go\<close>),
  while others act on the API server. \<open>loop_step\<close> is what can happen next, in any order; a reconciliation
  is cut in two steps, so anything may happen while the worker is busy, and the calls of the pass are
  disturbed and made to fail as a schedule says.
\<close>

declare split_paired_All [simp del] split_paired_Ex [simp del]

section \<open>Informers\<close>

text \<open>\<open>processDeltas\<close> for one object: the entry of the store afterwards, and the event.\<close>

datatype 'a delta = Updated 'a | Deleted 'a

fun processDelta :: "('a \<Rightarrow> objectMeta) \<Rightarrow> 'a option \<Rightarrow> 'a delta \<Rightarrow> 'a option \<times> event" where
  "processDelta meta (Some old) (Updated obj) = (Some obj, UpdateEvent (meta old) (meta obj))"
| "processDelta meta None (Updated obj) = (Some obj, CreateEvent (meta obj))"
| "processDelta meta st (Deleted obj) = (None, DeleteEvent (meta obj))"

text \<open>
  The informer learns what the server has now: also nothing new, which is a resync. Its cache and the
  event handlers are taken in one step.
\<close>

definition observe :: "('a \<Rightarrow> objectMeta) \<Rightarrow> 'a option \<Rightarrow> 'a option \<Rightarrow> 'a option \<times> event list" where
  "observe meta known current =
     (case current of
        Some obj \<Rightarrow> (let (entry, e) = processDelta meta known (Updated obj) in (entry, [e]))
      | None \<Rightarrow>
          (case known of
             Some old \<Rightarrow> (let (entry, e) = processDelta meta known (Deleted old) in (entry, [e]))
           | None \<Rightarrow> (None, [])))"

lemma observe_entry [simp]: "fst (observe meta known current) = current"
  by (cases known; cases current) (simp_all add: observe_def)

lemma observe_new: "current = Some obj \<Longrightarrow> \<exists>e. snd (observe meta known current) = [e] \<and> request_of (meta obj) \<in> set (EnqueueRequestForObject e)"
  by (cases known) (simp_all add: observe_def)

lemma observe_objects:
  "e \<in> set (snd (observe meta known current)) \<Longrightarrow> m \<in> event_objects e \<Longrightarrow> \<exists>obj. m = meta obj \<and> (known = Some obj \<or> current = Some obj)"
  by (cases known; cases current) (auto simp: observe_def)

abbreviation pool_meta :: "machineConfigPool \<Rightarrow> objectMeta" where
  "pool_meta p \<equiv> new_meta (mp_Name p) None"

definition pool_named :: "string \<Rightarrow> machineConfigPool list \<Rightarrow> machineConfigPool option" where
  "pool_named name pools = List.find (\<lambda>p. mp_Name p = name) pools"

definition pool_events :: "machineConfigPool list \<Rightarrow> machineConfigPool list \<Rightarrow> event list" where
  "pool_events known current =
     concat (List.map (\<lambda>p. snd (observe pool_meta (pool_named (mp_Name p) known) (Some p))) current)
     @ concat (List.map (\<lambda>p. snd (observe pool_meta (Some p) None))
         (filter (\<lambda>p. pool_named (mp_Name p) current = None) known))"

section \<open>The controller\<close>

record loop =
  lp_World :: cached
  lp_Reconciler :: reconciler
  lp_Queue :: "objectKey rateLimitingQueue"
  lp_Worker :: "objectKey option"

type_synonym restMapping = "groupKind \<Rightarrow> string \<Rightarrow> bool result"

definition enqueue :: "restMapping \<Rightarrow> goType \<Rightarrow> event list \<Rightarrow> objectKey rateLimitingQueue \<Rightarrow> objectKey rateLimitingQueue" where
  "enqueue rm t events q = fold wq_Add (concat (List.map (requests rm operator_watches t) events)) q"

definition see_NodeSwap :: "restMapping \<Rightarrow> objectKey \<Rightarrow> loop \<Rightarrow> loop" where
  "see_NodeSwap rm key l =
     (let w = lp_World l;
          (entry, events) = observe ns_Meta (cc_NodeSwaps w key) (cs_NodeSwaps (cc_Server w) key)
      in l\<lparr>lp_World := w\<lparr>cc_NodeSwaps := (cc_NodeSwaps w)(key := entry)\<rparr>,
           lp_Queue := enqueue rm (nodeSwapType ''NodeSwap'') events (lp_Queue l)\<rparr>)"

definition see_MachineConfig :: "restMapping \<Rightarrow> string \<Rightarrow> loop \<Rightarrow> loop" where
  "see_MachineConfig rm name l =
     (let w = lp_World l;
          (entry, events) = observe mc_Meta (cc_MachineConfigs w name) (cs_MachineConfigs (cc_Server w) name)
      in l\<lparr>lp_World := w\<lparr>cc_MachineConfigs := (cc_MachineConfigs w)(name := entry)\<rparr>,
           lp_Queue := enqueue rm (mcfgType ''MachineConfig'') events (lp_Queue l)\<rparr>)"

definition see_Pools :: "restMapping \<Rightarrow> loop \<Rightarrow> loop" where
  "see_Pools rm l =
     (let w = lp_World l; current = cs_Pools (cc_Server w)
      in l\<lparr>lp_World := w\<lparr>cc_Pools := current\<rparr>,
           lp_Queue := enqueue rm (mcfgType ''MachineConfigPool'') (pool_events (cc_Pools w) current) (lp_Queue l)\<rparr>)"

text \<open>\<open>processNextWorkItem\<close>, first half: the worker gets a key.\<close>

definition take_item :: "loop \<Rightarrow> loop" where
  "take_item l =
     (case wq_Get (lp_Queue l) of
        (Item key, q) \<Rightarrow> l\<lparr>lp_Queue := q, lp_Worker := Some key\<rparr>
      | _ \<Rightarrow> l)"

text \<open>\<open>Controller.Reconcile\<close>: a panic of the reconciler is recovered into an error (\<open>RecoverPanic\<close> is on by default).\<close>

fun recovered :: "unit result \<Rightarrow> error option" where
  "recovered (Panic p) = Some (ErrText ''panic: [recovered]'')"
| "recovered (Err e) = Some e"
| "recovered (Ok _) = None"

text \<open>\<open>reconcileHandler\<close>: the reconciler's \<open>Result\<close> is always zero and no error of it is a \<open>TerminalError\<close>.\<close>

definition reconcileHandler ::
  "int \<Rightarrow> int \<Rightarrow> objectKey \<Rightarrow> error option \<Rightarrow> objectKey rateLimitingQueue \<Rightarrow> objectKey rateLimitingQueue" where
  "reconcileHandler now bucket req err q =
     (case err of Some e \<Rightarrow> rl_AddRateLimited now bucket req q | None \<Rightarrow> rl_Forget req q)"

text \<open>Second half: the reconciliation, what follows from its result, and \<open>Done\<close>.\<close>

definition with_schedule :: "tick list \<Rightarrow> cached \<Rightarrow> cached" where
  "with_schedule ticks w = w\<lparr>cc_Server := (cc_Server w)\<lparr>cs_Schedule := ticks\<rparr>\<rparr>"

definition finish_item :: "('b, 't) renderer \<Rightarrow> tick list \<Rightarrow> int \<Rightarrow> int \<Rightarrow> loop \<Rightarrow> loop" where
  "finish_item re ticks now bucket l =
     (case lp_Worker l of
        None \<Rightarrow> l
      | Some key \<Rightarrow>
          (let (res, r, w) = Reconcile re cached_client key (lp_Reconciler l) (with_schedule ticks (lp_World l));
               q = wq_Done key (reconcileHandler now bucket key (recovered res) (lp_Queue l))
           in \<lparr>lp_World = with_schedule [] w, lp_Reconciler = r, lp_Queue = q, lp_Worker = None\<rparr>))"

definition others_act :: "env_action \<Rightarrow> loop \<Rightarrow> loop" where
  "others_act a l = l\<lparr>lp_World := (lp_World l)\<lparr>cc_Server := env_step a (cc_Server (lp_World l))\<rparr>\<rparr>"

section \<open>What can happen\<close>

inductive loop_step :: "('b, 't) renderer \<Rightarrow> restMapping \<Rightarrow> loop \<Rightarrow> loop \<Rightarrow> bool" for re rm where
  act: "action_ok a \<Longrightarrow> loop_step re rm l (others_act a l)"
| see_ns: "loop_step re rm l (see_NodeSwap rm key l)"
| see_mc: "loop_step re rm l (see_MachineConfig rm name l)"
| see_pools: "loop_step re rm l (see_Pools rm l)"
| receive: "loop_step re rm l (l\<lparr>lp_Queue := dq_receive now (lp_Queue l)\<rparr>)"
| ready: "loop_step re rm l (l\<lparr>lp_Queue := dq_ready now (lp_Queue l)\<rparr>)"
| take: "lp_Worker l = None \<Longrightarrow> loop_step re rm l (take_item l)"
| finish: "\<forall>t\<in>set ticks. tick_ok t \<Longrightarrow> loop_step re rm l (finish_item re ticks now bucket l)"

text \<open>The operator starts, with empty caches and an empty queue, on a server of any history.\<close>

definition loop_start :: "loop \<Rightarrow> bool" where
  "loop_start l \<longleftrightarrow> cluster_ok (cc_Server (lp_World l)) \<and> cs_Schedule (cc_Server (lp_World l)) = []
     \<and> cc_NodeSwaps (lp_World l) = Map.empty \<and> cc_MachineConfigs (lp_World l) = Map.empty \<and> cc_Pools (lp_World l) = []
     \<and> lp_Queue l = new_queue \<and> lp_Worker l = None"

inductive loop_reachable :: "('b, 't) renderer \<Rightarrow> restMapping \<Rightarrow> loop \<Rightarrow> bool" for re rm where
  start: "loop_start l \<Longrightarrow> loop_reachable re rm l"
| step: "loop_reachable re rm l \<Longrightarrow> loop_step re rm l l' \<Longrightarrow> loop_reachable re rm l'"

section \<open>Nothing is forgotten\<close>

text \<open>
  A stored object that the cache has caught up with is waiting in the queue, or being reconciled, or
  reported as it is.
\<close>

definition tracked :: "loop \<Rightarrow> bool" where
  "tracked l \<longleftrightarrow> (\<forall>key ns. cs_NodeSwaps (cc_Server (lp_World l)) key = Some ns \<longrightarrow>
     cc_NodeSwaps (lp_World l) key = Some ns \<longrightarrow>
     key \<in> pending (lp_Queue l) \<or> lp_Worker l = Some key \<or> reported ns)"

definition loop_ok :: "loop \<Rightarrow> bool" where
  "loop_ok l \<longleftrightarrow> cache_ok (lp_World l) \<and> cs_Schedule (cc_Server (lp_World l)) = [] \<and> running (lp_Queue l)
     \<and> wq_processing (lp_Queue l) = set_option (lp_Worker l) \<and> tracked l"

lemma loop_okD:
  assumes "loop_ok l"
  shows "cache_ok (lp_World l)" and "cs_Schedule (cc_Server (lp_World l)) = []" and "running (lp_Queue l)"
    and "wq_processing (lp_Queue l) = set_option (lp_Worker l)"
    and "cs_NodeSwaps (cc_Server (lp_World l)) key = Some ns \<Longrightarrow> cc_NodeSwaps (lp_World l) key = Some ns \<Longrightarrow>
      key \<in> pending (lp_Queue l) \<or> lp_Worker l = Some key \<or> reported ns"
  using assms unfolding loop_ok_def tracked_def by blast+

lemma loop_okI:
  assumes "cache_ok (lp_World l)" and "cs_Schedule (cc_Server (lp_World l)) = []" and "running (lp_Queue l)"
    and "wq_processing (lp_Queue l) = set_option (lp_Worker l)"
    and "\<And>key ns. cs_NodeSwaps (cc_Server (lp_World l)) key = Some ns \<Longrightarrow> cc_NodeSwaps (lp_World l) key = Some ns \<Longrightarrow>
      key \<in> pending (lp_Queue l) \<or> lp_Worker l = Some key \<or> reported ns"
  shows "loop_ok l"
  using assms unfolding loop_ok_def tracked_def by blast

lemma start_ok: "loop_start l \<Longrightarrow> loop_ok l"
  by (simp add: loop_start_def loop_ok_def cache_ok_def tracked_def)

text \<open>A step that only adds to the queue.\<close>

lemma loop_ok_queue:
  assumes "loop_ok l" and "running q" and "pending (lp_Queue l) \<subseteq> pending q"
    and "wq_processing q = wq_processing (lp_Queue l)"
  shows "loop_ok (l\<lparr>lp_Queue := q\<rparr>)"
proof (rule loop_okI)
  fix key ns
  assume "cs_NodeSwaps (cc_Server (lp_World (l\<lparr>lp_Queue := q\<rparr>))) key = Some ns"
    and "cc_NodeSwaps (lp_World (l\<lparr>lp_Queue := q\<rparr>)) key = Some ns"
  then show "key \<in> pending (lp_Queue (l\<lparr>lp_Queue := q\<rparr>)) \<or> lp_Worker (l\<lparr>lp_Queue := q\<rparr>) = Some key \<or> reported ns"
    using loop_okD(5) [OF assms(1), of key ns] assms(3) by (simp, blast)
qed (use assms(2,4) loop_okD(1-4) [OF assms(1)] in simp_all)

lemma enqueue_adds:
  assumes "running q"
  shows "running (enqueue rm t events q)"
    and "pending (enqueue rm t events q) = (\<Union>e\<in>set events. set (requests rm operator_watches t e)) \<union> pending q"
    and "wq_processing (enqueue rm t events q) = wq_processing q"
  using wq.add_all [OF assms, of "concat (List.map (requests rm operator_watches t) events)"]
  by (simp_all add: enqueue_def)

lemma act_ok:
  assumes "loop_ok l" and "action_ok a"
  shows "loop_ok (others_act a l)"
proof -
  let ?w = "lp_World l" and ?s = "env_step a (cc_Server (lp_World l))"
  note ok = loop_okD [OF assms(1)]
  have ev: "evolves (cc_Server ?w) ?s" by (rule env_step_evolves)
  have "cache_ok (?w\<lparr>cc_Server := ?s\<rparr>)"
    using env_step_ok [OF cache_okD(1) [OF ok(1)] assms(2)] by (rule cache_ok_evolves [OF ok(1) ev])
  moreover have "cs_Schedule ?s = []" using ok(2) by (cases a) simp_all
  moreover have "key \<in> pending (lp_Queue l) \<or> lp_Worker l = Some key \<or> reported ns"
    if "cs_NodeSwaps ?s key = Some ns" "cc_NodeSwaps ?w key = Some ns" for key ns
  proof -
    have "\<not> cs_Revision (cc_Server ?w) < om_ResourceVersion (ns_Meta ns)"
      using cache_okD(2) [OF ok(1) that(2)] by linarith
    with evolvesD [OF ev that(1)] ok(5) [OF _ that(2)] show ?thesis by blast
  qed
  ultimately show ?thesis by (intro loop_okI) (use ok(3,4) in \<open>simp_all add: others_act_def\<close>)
qed

text \<open>An informer's step: the world with one cache entry brought up to date.\<close>

lemma see_NodeSwap_eq:
  "see_NodeSwap rm key l = l\<lparr>lp_World := (lp_World l)\<lparr>cc_NodeSwaps :=
       (cc_NodeSwaps (lp_World l))(key := cs_NodeSwaps (cc_Server (lp_World l)) key)\<rparr>,
     lp_Queue := enqueue rm (nodeSwapType ''NodeSwap'')
       (snd (observe ns_Meta (cc_NodeSwaps (lp_World l) key) (cs_NodeSwaps (cc_Server (lp_World l)) key))) (lp_Queue l)\<rparr>"
  using observe_entry [of ns_Meta "cc_NodeSwaps (lp_World l) key" "cs_NodeSwaps (cc_Server (lp_World l)) key"]
  by (simp add: see_NodeSwap_def Let_def case_prod_beta)

lemma see_MachineConfig_eq:
  "see_MachineConfig rm name l = l\<lparr>lp_World := (lp_World l)\<lparr>cc_MachineConfigs :=
       (cc_MachineConfigs (lp_World l))(name := cs_MachineConfigs (cc_Server (lp_World l)) name)\<rparr>,
     lp_Queue := enqueue rm (mcfgType ''MachineConfig'')
       (snd (observe mc_Meta (cc_MachineConfigs (lp_World l) name) (cs_MachineConfigs (cc_Server (lp_World l)) name))) (lp_Queue l)\<rparr>"
  using observe_entry [of mc_Meta "cc_MachineConfigs (lp_World l) name" "cs_MachineConfigs (cc_Server (lp_World l)) name"]
  by (simp add: see_MachineConfig_def Let_def case_prod_beta)

lemma cache_ok_see_NodeSwap:
  assumes "cache_ok w"
  shows "cache_ok (w\<lparr>cc_NodeSwaps := (cc_NodeSwaps w)(key := cs_NodeSwaps (cc_Server w) key)\<rparr>)"
proof -
  note server = cache_okD(1) [OF assms]
  have "key_of ns = k \<and> fst k \<noteq> [] \<and> conditions_wf (st_Conditions (ns_Status ns))
      \<and> om_ResourceVersion (ns_Meta ns) \<le> cs_Revision (cc_Server w)
      \<and> (\<forall>stored. cs_NodeSwaps (cc_Server w) k = Some stored \<longrightarrow>
           om_ResourceVersion (ns_Meta stored) = om_ResourceVersion (ns_Meta ns) \<longrightarrow> stored = ns)"
    if "((cc_NodeSwaps w)(key := cs_NodeSwaps (cc_Server w) key)) k = Some ns" for k ns
  proof (cases "k = key")
    case True
    then have s: "cs_NodeSwaps (cc_Server w) key = Some ns" using that by simp
    show ?thesis using stored_ok [OF server s] stored_wf [OF server s] True s by simp
  next
    case False
    then have k: "cc_NodeSwaps w k = Some ns" using that by simp
    show ?thesis using cache_okD(2) [OF assms k] cache_okD(3) [OF assms k] by blast
  qed
  with server cache_okD(4) [OF assms] show ?thesis unfolding cache_ok_def by simp
qed

lemma see_NodeSwap_ok:
  assumes "loop_ok l"
  shows "loop_ok (see_NodeSwap rm key l)"
proof -
  let ?w = "lp_World l" and ?t = "nodeSwapType ''NodeSwap''"
  let ?events = "snd (observe ns_Meta (cc_NodeSwaps ?w key) (cs_NodeSwaps (cc_Server ?w) key))"
  note ok = loop_okD [OF assms] and q = enqueue_adds [OF loop_okD(3) [OF assms], of rm ?t ?events]
  have "k \<in> pending (enqueue rm ?t ?events (lp_Queue l)) \<or> lp_Worker l = Some k \<or> reported ns"
    if s: "cs_NodeSwaps (cc_Server ?w) k = Some ns"
      and c: "((cc_NodeSwaps ?w)(key := cs_NodeSwaps (cc_Server ?w) key)) k = Some ns" for k ns
  proof (cases "k = key")
    case True
    then have "cs_NodeSwaps (cc_Server ?w) key = Some ns" using s by simp
    from observe_new [OF this, of ns_Meta "cc_NodeSwaps ?w key"] obtain e where
      "?events = [e]" "request_of (ns_Meta ns) \<in> set (EnqueueRequestForObject e)" by blast
    moreover have "request_of (ns_Meta ns) = k"
      using stored_ok(1) [OF cache_okD(1) [OF ok(1)] s] by (simp add: request_of_def key_of_def)
    ultimately show ?thesis using q(2) by (simp add: requests_operator)
  next
    case False
    then show ?thesis using ok(5) [OF s] c q(2) by auto
  qed
  then show ?thesis
    unfolding see_NodeSwap_eq
    by (intro loop_okI) (use ok(2,4) q(1,3) cache_ok_see_NodeSwap [OF ok(1)] in simp_all)
qed

lemma see_MachineConfig_ok:
  assumes "loop_ok l"
  shows "loop_ok (see_MachineConfig rm name l)"
proof -
  let ?w = "lp_World l"
  let ?events = "snd (observe mc_Meta (cc_MachineConfigs ?w name) (cs_MachineConfigs (cc_Server ?w) name))"
  note ok = loop_okD [OF assms] and q = enqueue_adds [OF loop_okD(3) [OF assms], of rm "mcfgType ''MachineConfig''" ?events]
  have "cluster_ok (cc_Server ?w)" using cache_okD(1) [OF ok(1)] .
  then have "cache_ok (?w\<lparr>cc_MachineConfigs := (cc_MachineConfigs ?w)(name := cs_MachineConfigs (cc_Server ?w) name)\<rparr>)"
    using ok(1) unfolding cache_ok_def by (auto simp: cluster_ok_def)
  then show ?thesis
    unfolding see_MachineConfig_eq
    by (intro loop_okI) (use ok(2,4,5) q in auto)
qed

lemma see_Pools_ok:
  assumes "loop_ok l"
  shows "loop_ok (see_Pools rm l)"
proof -
  let ?w = "lp_World l"
  note ok = loop_okD [OF assms]
  note q = enqueue_adds [OF ok(3), of rm "mcfgType ''MachineConfigPool''" "pool_events (cc_Pools ?w) (cs_Pools (cc_Server ?w))"]
  have "cache_ok (?w\<lparr>cc_Pools := cs_Pools (cc_Server ?w)\<rparr>)" using ok(1) by (simp add: cache_ok_def)
  then show ?thesis
    unfolding see_Pools_def Let_def
    by (intro loop_okI) (use ok(2,4,5) q in auto)
qed

lemma take_ok:
  assumes "loop_ok l" and "lp_Worker l = None"
  shows "loop_ok (take_item l)"
proof -
  note ok = loop_okD [OF assms(1)]
  obtain got q where g: "wq_Get (lp_Queue l) = (got, q)" by fastforce
  show ?thesis
  proof (cases got)
    case (Item key)
    note t = wq.get_item [OF ok(3) g [unfolded Item]]
    have "k \<in> pending q \<or> Some key = Some k \<or> reported ns"
      if "cs_NodeSwaps (cc_Server (lp_World l)) k = Some ns" "cc_NodeSwaps (lp_World l) k = Some ns" for k ns
      using ok(5) [OF that] t assms(2) by (simp, blast)
    then show ?thesis
      by (intro loop_okI) (use ok(1,2,4) t assms(2) in \<open>simp_all add: take_item_def g Item\<close>)
  qed (use assms(1) in \<open>simp_all add: take_item_def g\<close>)
qed

text \<open>The end of a pass: the queue afterwards, and what the pass left behind.\<close>

lemma handler_turn:
  assumes "running q" and "key \<in> wq_processing q"
  shows "running (wq_Done key (reconcileHandler now bucket key err q))"
    and "pending q \<subseteq> pending (wq_Done key (reconcileHandler now bucket key err q))"
    and "err \<noteq> None \<Longrightarrow> key \<in> pending (wq_Done key (reconcileHandler now bucket key err q))"
    and "wq_processing (wq_Done key (reconcileHandler now bucket key err q)) = wq_processing q - {key}"
  using wq.failed_turn [OF assms, of now bucket] wq.good_turn [OF assms]
  by (auto simp: reconcileHandler_def split: option.split)

lemma with_schedule_simps [simp]:
  "cc_NodeSwaps (with_schedule ticks w) = cc_NodeSwaps w" "cc_MachineConfigs (with_schedule ticks w) = cc_MachineConfigs w"
  "cc_Pools (with_schedule ticks w) = cc_Pools w"
  "cs_NodeSwaps (cc_Server (with_schedule ticks w)) = cs_NodeSwaps (cc_Server w)"
  "cs_MachineConfigs (cc_Server (with_schedule ticks w)) = cs_MachineConfigs (cc_Server w)"
  "cs_Pools (cc_Server (with_schedule ticks w)) = cs_Pools (cc_Server w)"
  "cs_Revision (cc_Server (with_schedule ticks w)) = cs_Revision (cc_Server w)"
  "cs_Schedule (cc_Server (with_schedule ticks w)) = ticks"
  by (simp_all add: with_schedule_def)

lemma cache_ok_schedule: "cache_ok w \<Longrightarrow> \<forall>t\<in>set ticks. tick_ok t \<Longrightarrow> cache_ok (with_schedule ticks w)"
  by (simp add: cache_ok_def cluster_ok_def with_schedule_def)

lemma finish_eq:
  assumes "lp_Worker l = Some key"
    and "Reconcile re cached_client key (lp_Reconciler l) (with_schedule ticks (lp_World l)) = (res, r, w)"
  shows "finish_item re ticks now bucket l =
    \<lparr>lp_World = with_schedule [] w, lp_Reconciler = r,
     lp_Queue = wq_Done key (reconcileHandler now bucket key (recovered res) (lp_Queue l)), lp_Worker = None\<rparr>"
  using assms by (simp add: finish_item_def)

lemma finish_ok:
  assumes "loop_ok l" and "\<forall>t\<in>set ticks. tick_ok t"
  shows "loop_ok (finish_item re ticks now bucket l)"
proof (cases "lp_Worker l")
  case (Some key)
  let ?w = "with_schedule ticks (lp_World l)"
  note ok = loop_okD [OF assms(1)]
  obtain res r w where run: "Reconcile re cached_client key (lp_Reconciler l) ?w = (res, r, w)" by (metis prod_cases3)
  let ?q = "wq_Done key (reconcileHandler now bucket key (recovered res) (lp_Queue l))"
  have w0: "cache_ok ?w" using cache_ok_schedule [OF ok(1) assms(2)] .
  have w: "during ?w w" by (rule pass_keeps [OF w0 run])
  have busy: "key \<in> wq_processing (lp_Queue l)" using ok(4) Some by simp
  note q = handler_turn [where now = now and bucket = bucket and err = "recovered res", OF ok(3) busy]
  have "k \<in> pending ?q \<or> reported ns"
    if s: "cs_NodeSwaps (cc_Server w) k = Some ns" and c: "cc_NodeSwaps w k = Some ns" for k ns
  proof (cases "k = key \<and> recovered res = None")
    case True
    then have "res = Ok ()" by (cases res) auto
    then show ?thesis
      using pass_reported [OF w0 _ _ s, of re "lp_Reconciler l" r] run c duringD(2) [OF w] True by simp
  next
    case False
    have c0: "cc_NodeSwaps (lp_World l) k = Some ns" using c duringD(2) [OF w] by simp
    have "\<not> cs_Revision (cc_Server ?w) < om_ResourceVersion (ns_Meta ns)"
      using cache_okD(2) [OF ok(1) c0] by simp
    then have "cs_NodeSwaps (cc_Server (lp_World l)) k = Some ns"
      using evolvesD [OF duringD(5) [OF w] s] by simp
    from ok(5) [OF this c0] show ?thesis using q(2,3) False Some by auto
  qed
  moreover have "cache_ok (with_schedule [] w)" using cache_ok_schedule [OF duringD(1) [OF w]] by simp
  moreover have "wq_processing ?q = {}" using q(4) ok(4) Some by simp
  ultimately show ?thesis
    unfolding finish_eq [OF Some run] using q(1) by (intro loop_okI) simp_all
qed (use assms(1) in \<open>simp add: finish_item_def\<close>)

lemma step_ok: "loop_step re rm l l' \<Longrightarrow> loop_ok l \<Longrightarrow> loop_ok l'"
proof (induction rule: loop_step.induct)
  case (receive l now)
  with wq.receive [OF loop_okD(3) [OF receive], of now] show ?case by (intro loop_ok_queue) auto
next
  case (ready l now)
  with wq.ready [OF loop_okD(3) [OF ready], of now] show ?case by (intro loop_ok_queue) auto
qed (simp_all add: act_ok see_NodeSwap_ok see_MachineConfig_ok see_Pools_ok take_ok finish_ok)

lemma reachable_loop_ok: "loop_reachable re rm l \<Longrightarrow> loop_ok l"
  by (induction rule: loop_reachable.induct) (simp_all add: start_ok step_ok)

end
