(* ===== verification/LoopDrain.thy ===== *)
theory LoopDrain
  imports ControlLoop "HOL-Library.While_Combinator"
begin

text \<open>
  The loop when nothing disturbs it any more: the informers deliver what they have not delivered yet,
  the retries come due, and the worker takes one key after the other until the queue is empty. \<open>drain\<close>
  is that loop; it ends, because every pass either leaves its object as it is or brings its status
  closer to the one that is kept.
\<close>

declare split_paired_All [simp del] split_paired_Ex [simp del]

section \<open>The undisturbed loop\<close>

text \<open>An informer delivers what has changed.\<close>

definition news_NodeSwap :: "restMapping \<Rightarrow> objectKey \<Rightarrow> loop \<Rightarrow> loop" where
  "news_NodeSwap rm key l =
     (if cc_NodeSwaps (lp_World l) key = cs_NodeSwaps (cc_Server (lp_World l)) key then l else see_NodeSwap rm key l)"

definition news_MachineConfig :: "restMapping \<Rightarrow> string \<Rightarrow> loop \<Rightarrow> loop" where
  "news_MachineConfig rm name l =
     (if cc_MachineConfigs (lp_World l) name = cs_MachineConfigs (cc_Server (lp_World l)) name then l
      else see_MachineConfig rm name l)"

definition catch_up :: "restMapping \<Rightarrow> objectKey list \<Rightarrow> string list \<Rightarrow> loop \<Rightarrow> loop" where
  "catch_up rm keys names l =
     see_Pools rm (fold (news_MachineConfig rm) names (fold (news_NodeSwap rm) keys l))"

text \<open>The waiting loop receives everything that was sent to it, and enough time passes.\<close>

definition elapse :: "int \<Rightarrow> 'a rateLimitingQueue \<Rightarrow> 'a rateLimitingQueue" where
  "elapse now q =
     (let q = fold (\<lambda>_. dq_receive now) (dq_channel q) q in dq_ready (fold max (List.map snd (dq_waiting q)) now) q)"

text \<open>One key: taken, reconciled, done, and what came of it seen by the informers.\<close>

definition turn :: "('b, 't) renderer \<Rightarrow> restMapping \<Rightarrow> int \<Rightarrow> int \<Rightarrow> loop \<Rightarrow> loop" where
  "turn re rm now bucket l =
     (case lp_Worker (take_item l) of
        None \<Rightarrow> l
      | Some key \<Rightarrow> news_MachineConfig rm SwapKubeletCgroupsMCPrefix
          (news_NodeSwap rm key (finish_item re [] now bucket (take_item l))))"

definition drain :: "('b, 't) renderer \<Rightarrow> restMapping \<Rightarrow> int \<Rightarrow> int \<Rightarrow> loop \<Rightarrow> loop option" where
  "drain re rm now bucket = while_option (\<lambda>l. wq_queue (lp_Queue l) \<noteq> []) (turn re rm now bucket)"

text \<open>Before that: the pass that is under way ends, caches and retries catch up.\<close>

definition calm_down ::
  "('b, 't) renderer \<Rightarrow> restMapping \<Rightarrow> objectKey list \<Rightarrow> string list \<Rightarrow> int \<Rightarrow> int \<Rightarrow> loop \<Rightarrow> loop" where
  "calm_down re rm keys names now bucket l =
     (let l = catch_up rm keys names (finish_item re [] now bucket l) in l\<lparr>lp_Queue := elapse now (lp_Queue l)\<rparr>)"

section \<open>Informers\<close>

lemma news_reachable:
  "loop_reachable re rm l \<Longrightarrow> loop_reachable re rm (news_NodeSwap rm key l)"
  "loop_reachable re rm l \<Longrightarrow> loop_reachable re rm (news_MachineConfig rm name l)"
  by (simp_all add: news_NodeSwap_def news_MachineConfig_def loop_reachable.step loop_step.intros)

lemma news_NodeSwap_fields [simp]:
  "cc_Server (lp_World (news_NodeSwap rm key l)) = cc_Server (lp_World l)"
  "cc_NodeSwaps (lp_World (news_NodeSwap rm key l)) =
     (cc_NodeSwaps (lp_World l))(key := cs_NodeSwaps (cc_Server (lp_World l)) key)"
  "cc_MachineConfigs (lp_World (news_NodeSwap rm key l)) = cc_MachineConfigs (lp_World l)"
  "cc_Pools (lp_World (news_NodeSwap rm key l)) = cc_Pools (lp_World l)"
  "lp_Worker (news_NodeSwap rm key l) = lp_Worker l" "lp_Reconciler (news_NodeSwap rm key l) = lp_Reconciler l"
  by (auto simp: news_NodeSwap_def see_NodeSwap_eq)

lemma news_MachineConfig_fields [simp]:
  "cc_Server (lp_World (news_MachineConfig rm name l)) = cc_Server (lp_World l)"
  "cc_NodeSwaps (lp_World (news_MachineConfig rm name l)) = cc_NodeSwaps (lp_World l)"
  "cc_MachineConfigs (lp_World (news_MachineConfig rm name l)) =
     (cc_MachineConfigs (lp_World l))(name := cs_MachineConfigs (cc_Server (lp_World l)) name)"
  "cc_Pools (lp_World (news_MachineConfig rm name l)) = cc_Pools (lp_World l)"
  "lp_Worker (news_MachineConfig rm name l) = lp_Worker l" "lp_Reconciler (news_MachineConfig rm name l) = lp_Reconciler l"
  by (auto simp: news_MachineConfig_def see_MachineConfig_eq)

lemma all_NodeSwaps:
  fixes keys :: "objectKey list"
  assumes "loop_reachable re rm l"
  defines "l' \<equiv> fold (news_NodeSwap rm) keys l"
  shows "loop_reachable re rm l'" and "cc_Server (lp_World l') = cc_Server (lp_World l)"
    and "cc_NodeSwaps (lp_World l') key =
      (if key \<in> set keys then cs_NodeSwaps (cc_Server (lp_World l)) key else cc_NodeSwaps (lp_World l) key)"
    and "cc_MachineConfigs (lp_World l') = cc_MachineConfigs (lp_World l)"
    and "lp_Worker l' = lp_Worker l" and "lp_Reconciler l' = lp_Reconciler l"
proof -
  have "loop_reachable re rm l' \<and> cc_Server (lp_World l') = cc_Server (lp_World l)
    \<and> cc_NodeSwaps (lp_World l') key =
      (if key \<in> set keys then cs_NodeSwaps (cc_Server (lp_World l)) key else cc_NodeSwaps (lp_World l) key)
    \<and> cc_MachineConfigs (lp_World l') = cc_MachineConfigs (lp_World l)
    \<and> lp_Worker l' = lp_Worker l \<and> lp_Reconciler l' = lp_Reconciler l"
    using assms unfolding l'_def by (induction keys arbitrary: l) (simp_all add: news_reachable)
  then show "loop_reachable re rm l'" "cc_Server (lp_World l') = cc_Server (lp_World l)"
    "cc_NodeSwaps (lp_World l') key =
      (if key \<in> set keys then cs_NodeSwaps (cc_Server (lp_World l)) key else cc_NodeSwaps (lp_World l) key)"
    "cc_MachineConfigs (lp_World l') = cc_MachineConfigs (lp_World l)"
    "lp_Worker l' = lp_Worker l" "lp_Reconciler l' = lp_Reconciler l" by blast+
qed

lemma all_MachineConfigs:
  fixes names :: "string list"
  assumes "loop_reachable re rm l"
  defines "l' \<equiv> fold (news_MachineConfig rm) names l"
  shows "loop_reachable re rm l'" and "cc_Server (lp_World l') = cc_Server (lp_World l)"
    and "cc_MachineConfigs (lp_World l') name =
      (if name \<in> set names then cs_MachineConfigs (cc_Server (lp_World l)) name else cc_MachineConfigs (lp_World l) name)"
    and "cc_NodeSwaps (lp_World l') = cc_NodeSwaps (lp_World l)"
    and "lp_Worker l' = lp_Worker l" and "lp_Reconciler l' = lp_Reconciler l"
proof -
  have "loop_reachable re rm l' \<and> cc_Server (lp_World l') = cc_Server (lp_World l)
    \<and> cc_MachineConfigs (lp_World l') name =
      (if name \<in> set names then cs_MachineConfigs (cc_Server (lp_World l)) name else cc_MachineConfigs (lp_World l) name)
    \<and> cc_NodeSwaps (lp_World l') = cc_NodeSwaps (lp_World l)
    \<and> lp_Worker l' = lp_Worker l \<and> lp_Reconciler l' = lp_Reconciler l"
    using assms unfolding l'_def by (induction names arbitrary: l) (simp_all add: news_reachable)
  then show "loop_reachable re rm l'" "cc_Server (lp_World l') = cc_Server (lp_World l)"
    "cc_MachineConfigs (lp_World l') name =
      (if name \<in> set names then cs_MachineConfigs (cc_Server (lp_World l)) name else cc_MachineConfigs (lp_World l) name)"
    "cc_NodeSwaps (lp_World l') = cc_NodeSwaps (lp_World l)"
    "lp_Worker l' = lp_Worker l" "lp_Reconciler l' = lp_Reconciler l" by blast+
qed

lemma outside_dom: "dom f \<union> dom g \<subseteq> s \<Longrightarrow> x \<notin> s \<Longrightarrow> f x = None \<and> g x = None"
  by (meson UnI1 UnI2 domIff subsetD)

lemma see_Pools_fields [simp]:
  "lp_World (see_Pools rm l) = (lp_World l)\<lparr>cc_Pools := cs_Pools (cc_Server (lp_World l))\<rparr>"
  "lp_Worker (see_Pools rm l) = lp_Worker l" "lp_Reconciler (see_Pools rm l) = lp_Reconciler l"
  by (simp_all add: see_Pools_def Let_def)

lemma catch_up_sync:
  assumes "loop_reachable re rm l"
    and "dom (cs_NodeSwaps (cc_Server (lp_World l))) \<union> dom (cc_NodeSwaps (lp_World l)) \<subseteq> set keys"
    and "dom (cs_MachineConfigs (cc_Server (lp_World l))) \<union> dom (cc_MachineConfigs (lp_World l)) \<subseteq> set names"
  defines "l' \<equiv> catch_up rm keys names l"
  shows "loop_reachable re rm l'" and "in_sync (lp_World l')" and "cc_Server (lp_World l') = cc_Server (lp_World l)"
    and "lp_Worker l' = lp_Worker l" and "lp_Reconciler l' = lp_Reconciler l"
proof -
  let ?l1 = "fold (news_NodeSwap rm) keys l"
  let ?l2 = "fold (news_MachineConfig rm) names ?l1"
  note 1 = all_NodeSwaps [OF assms(1), of keys]
  note 2 = all_MachineConfigs [OF 1(1), of names]
  have l': "l' = see_Pools rm ?l2" by (simp add: l'_def catch_up_def)
  show "loop_reachable re rm l'" unfolding l' using 2(1) by (rule loop_reachable.step) (rule loop_step.see_pools)
  show "cc_Server (lp_World l') = cc_Server (lp_World l)" "lp_Worker l' = lp_Worker l" "lp_Reconciler l' = lp_Reconciler l"
    by (simp_all add: l' 1 2)
  have "cc_NodeSwaps (lp_World ?l2) key = cs_NodeSwaps (cc_Server (lp_World l)) key" for key
    using 1(3) [of key] outside_dom [OF assms(2), of key] unfolding 2(4) by (cases "key \<in> set keys") simp_all
  moreover have "cc_MachineConfigs (lp_World ?l2) name = cs_MachineConfigs (cc_Server (lp_World l)) name" for name
    using 2(3) [of name] outside_dom [OF assms(3), of name] unfolding 1 by (cases "name \<in> set names") simp_all
  ultimately show "in_sync (lp_World l')" by (auto simp: in_sync_def l' 1 2)
qed

section \<open>Retries come due\<close>

lemma channel_receive: "running q \<Longrightarrow> dq_channel (dq_receive now q) = tl (dq_channel q)"
  by (auto simp: dq_receive_def running_def Let_def split: list.split)

lemma receive_all:
  assumes "running q" and "length xs = length (dq_channel q)"
  shows "running (fold (\<lambda>_. dq_receive now) xs q) \<and> dq_channel (fold (\<lambda>_. dq_receive now) xs q) = []
    \<and> pending (fold (\<lambda>_. dq_receive now) xs q) = pending q
    \<and> wq_processing (fold (\<lambda>_. dq_receive now) xs q) = wq_processing q"
  using assms
proof (induction xs arbitrary: q)
  case (Cons x xs)
  from Cons.IH [OF receive_running(1) [OF Cons.prems(1), of now]] Cons.prems(2)
  show ?case by (simp add: channel_receive [OF Cons.prems(1)] receive_running [OF Cons.prems(1)])
qed simp

lemma fold_max_upper: "x \<in> set xs \<Longrightarrow> x \<le> fold max xs (m::int)" "m \<le> fold max xs (m::int)"
  by (induction xs arbitrary: m) (auto intro: order_trans [OF max.cobounded2] order_trans [OF max.cobounded1])

lemma ready_late:
  assumes "running q" and "\<And>e. e \<in> set (dq_waiting q) \<Longrightarrow> snd e \<le> t"
  shows "dq_channel (dq_ready t q) = dq_channel q" and "dq_waiting (dq_ready t q) = []"
proof -
  have fields: "dq_channel (fold (\<lambda>entry. wq_Add (fst entry)) xs d) = dq_channel d
      \<and> dq_waiting (fold (\<lambda>entry. wq_Add (fst entry)) xs d) = dq_waiting d"
    for xs :: "('a \<times> int) list" and d :: "('a, 'b) delayingQueue_scheme"
    by (induction xs arbitrary: d) simp_all
  have "dropWhile (\<lambda>entry. snd entry \<le> t) (dq_waiting q) = []" using assms(2) by (simp add: dropWhile_eq_Nil_conv)
  then show "dq_channel (dq_ready t q) = dq_channel q" "dq_waiting (dq_ready t q) = []"
    using assms(1) by (simp_all add: dq_ready_def running_def fields)
qed

lemma elapse_all:
  assumes "running q"
  shows "running (elapse now q)" and "dq_channel (elapse now q) = []" and "dq_waiting (elapse now q) = []"
    and "pending (elapse now q) = pending q" and "wq_processing (elapse now q) = wq_processing q"
proof -
  let ?q = "fold (\<lambda>_. dq_receive now) (dq_channel q) q"
  let ?t = "fold max (List.map snd (dq_waiting ?q)) now"
  note r = receive_all [OF assms refl, of now]
  have eq: "elapse now q = dq_ready ?t ?q" by (simp add: elapse_def Let_def)
  have "snd e \<le> ?t" if "e \<in> set (dq_waiting ?q)" for e
    using fold_max_upper(1) [of "snd e" "List.map snd (dq_waiting ?q)" now] that by simp
  then show "dq_channel (elapse now q) = []" "dq_waiting (elapse now q) = []"
    unfolding eq using ready_late [of ?q ?t] r by simp_all
  show "running (elapse now q)" "pending (elapse now q) = pending q" "wq_processing (elapse now q) = wq_processing q"
    unfolding eq using ready_running(1-3) [of ?q ?t] r by simp_all
qed

lemma elapse_reachable:
  assumes "loop_reachable re rm l"
  shows "loop_reachable re rm (l\<lparr>lp_Queue := elapse now (lp_Queue l)\<rparr>)"
proof -
  have "loop_reachable re rm (l\<lparr>lp_Queue := fold (\<lambda>_. dq_receive now) xs (lp_Queue l)\<rparr>)" for xs
    using assms
  proof (induction xs arbitrary: l)
    case (Cons x xs)
    from Cons.IH [OF loop_reachable.step [OF Cons.prems loop_step.receive]] show ?case by simp
  qed simp
  from loop_reachable.step [OF this loop_step.ready] show ?thesis by (simp add: elapse_def Let_def)
qed

section \<open>What a pass leaves as it is\<close>

lemma reconcile_TemplateDir:
  "Reconcile re cl key r w = (res, r', w') \<Longrightarrow> rr_TemplateDir r' = rr_TemplateDir r"
proof -
  have spec: "rr_TemplateDir r2 = rr_TemplateDir r1" if "ReconcileSpec re cl r1 w1 = (y, r2, w2)" for r1 w1 y r2 w2
    using that by (auto simp: ReconcileSpec_def Let_def split: result.splits prod.splits)
  have status: "rr_TemplateDir r2 = rr_TemplateDir r1" if "ReconcileStatus cl e r1 w1 = (y, r2, w2)" for e r1 w1 y r2 w2
    using that by (auto simp: ReconcileStatus_def Let_def split: result.splits prod.splits)
  show "Reconcile re cl key r w = (res, r', w') \<Longrightarrow> rr_TemplateDir r' = rr_TemplateDir r"
    by (auto simp: Reconcile_def dest!: spec status split: result.splits prod.splits if_splits)
qed

text \<open>On a quiet server nobody changes a spec, or a machine config but the operator's own, or a pool.\<close>

definition specs :: "cluster \<Rightarrow> objectKey \<Rightarrow> nodeSwapSpec option" where
  "specs s key = map_option ns_Spec (cs_NodeSwaps s key)"

definition quiet_since :: "cluster \<Rightarrow> cluster \<Rightarrow> bool" where
  "quiet_since s0 s \<longleftrightarrow> cluster_ok s \<and> cs_Schedule s = [] \<and> specs s = specs s0 \<and> cs_Pools s = cs_Pools s0
     \<and> (\<forall>name. name \<noteq> SwapKubeletCgroupsMCPrefix \<longrightarrow> cs_MachineConfigs s name = cs_MachineConfigs s0 name)
     \<and> (cs_MachineConfigs s0 SwapKubeletCgroupsMCPrefix \<noteq> None \<longrightarrow>
          cs_MachineConfigs s SwapKubeletCgroupsMCPrefix = cs_MachineConfigs s0 SwapKubeletCgroupsMCPrefix)"

lemma quiet_since_refl: "cluster_ok s \<Longrightarrow> cs_Schedule s = [] \<Longrightarrow> quiet_since s s"
  by (simp add: quiet_since_def)

lemma quiet_since_trans: "quiet_since s0 s1 \<Longrightarrow> quiet_since s1 s2 \<Longrightarrow> quiet_since s0 s2"
  unfolding quiet_since_def by metis

lemma quiet_sinceD:
  assumes "quiet_since s0 s"
  shows "cluster_ok s" and "cs_Schedule s = []" and "specs s = specs s0"
    and "name \<noteq> SwapKubeletCgroupsMCPrefix \<Longrightarrow> cs_MachineConfigs s name = cs_MachineConfigs s0 name"
  using assms unfolding quiet_since_def by blast+

lemma specs_dom: "specs s = specs s0 \<Longrightarrow> dom (cs_NodeSwaps s) = dom (cs_NodeSwaps s0)"
  by (metis (mono_tags, lifting) domIff map_option_is_None specs_def subsetI subset_antisym)

text \<open>The same for the cached client, for which it is an invariant of a pass.\<close>

definition quiet_world :: "cached \<Rightarrow> cached \<Rightarrow> bool" where
  "quiet_world w0 w \<longleftrightarrow> cache_ok w \<and> quiet_since (cc_Server w0) (cc_Server w) \<and> cc_NodeSwaps w = cc_NodeSwaps w0
     \<and> cc_MachineConfigs w = cc_MachineConfigs w0 \<and> cc_Pools w = cc_Pools w0"

lemma quiet_live:
  assumes "quiet_world w0 w" and "quiet_since (cc_Server w) (snd (call (cc_Server w)))"
    and "evolves (cc_Server w) (snd (call (cc_Server w)))"
  shows "quiet_world w0 (snd (live call w))"
proof -
  have d: "during w (snd (live call w))"
    by (rule during_live [of w w call, OF during_refl assms(3) quiet_sinceD(1) [OF assms(2)]])
      (use assms(1) in \<open>simp add: quiet_world_def\<close>)
  have "quiet_since (cc_Server w0) (snd (call (cc_Server w)))"
    using assms(1,2) quiet_since_trans unfolding quiet_world_def by blast
  then show ?thesis using assms(1) duringD(1) [OF d] by (simp add: quiet_world_def)
qed

interpretation quiet: client_invariant cached_client server_writes "quiet_world w0" for w0
proof unfold_locales
  fix w key name ns mc
  assume w: "quiet_world w0 w"
  let ?s = "cc_Server w"
  have server: "cluster_ok ?s" "cs_Schedule ?s = []" and c: "cache_ok w"
    using w by (simp_all add: quiet_world_def quiet_since_def)
  show "quiet_world w0 (snd (cl_Now cached_client w))"
    using quiet_live [OF w, of api_Now] api_evolves(1) cluster.now_inv [OF server(1)] server(2)
    by (simp add: quiet_since_def api_Now_def specs_def [abs_def])
  show "quiet_world w0 (snd (cl_GetNodeSwap cached_client key w))" "quiet_world w0 (snd (cl_GetMachineConfig cached_client name w))"
    "quiet_world w0 (snd (cl_ListMachineConfigPools cached_client w))"
    using w by (simp_all add: cache_defs)
  show "quiet_world w0 (snd (cl_CreateMachineConfig cached_client mc w))" if own: "own_machine_config mc"
  proof -
    have name: "om_Name (mc_Meta mc) = SwapKubeletCgroupsMCPrefix" using own by (auto simp: own_machine_config_def)
    have "quiet_since ?s (snd (api_CreateMachineConfig mc ?s))"
      using cluster.create_inv [OF server(1) own] server(2)
      by (auto simp: quiet_since_def api_CreateMachineConfig_def api_call_Nil Let_def specs_def [abs_def] name)
    then show ?thesis using quiet_live [OF w, of "api_CreateMachineConfig mc"] api_evolves(2) by simp
  qed
  show "quiet_world w0 (snd (cl_UpdateStatus cached_client ns w))"
    if r: "report_ok (st_Conditions (ns_Status ns))" "conditions_wf (st_Conditions (ns_Status ns))"
  proof -
    have "quiet_since ?s (snd (api_UpdateStatus ns ?s))"
      using cluster.update_inv [OF server(1) r] server(2)
      by (auto simp: quiet_since_def api_UpdateStatus_def api_call_Nil specs_def fun_eq_iff put_status_fields(2)
          split: option.splits prod.splits)
    then show ?thesis using quiet_live [OF w, of "api_UpdateStatus ns"] api_evolves(3) by simp
  qed
  show "conditions_wf (st_Conditions (ns_Status ns))" if "fst (cl_GetNodeSwap cached_client key w) = Ok ns"
    using that cache_okD(2) [OF c, of key ns] by (simp add: cache_defs split: option.splits)
qed

lemma with_schedule_id: "cs_Schedule (cc_Server w) = [] \<Longrightarrow> with_schedule [] w = w"
  by (simp add: with_schedule_def)

lemma finish_quiet:
  fixes now bucket :: int
  assumes "loop_reachable re rm l"
  defines "l' \<equiv> finish_item re [] now bucket l"
  shows "loop_reachable re rm l'" and "lp_Worker l' = None" and "quiet_world (lp_World l) (lp_World l')"
    and "rr_TemplateDir (lp_Reconciler l') = rr_TemplateDir (lp_Reconciler l)"
proof -
  note ok = loop_okD [OF reachable_loop_ok [OF assms(1)]]
  have w: "quiet_world (lp_World l) (lp_World l)"
    using ok(1,2) cache_okD(1) [OF ok(1)] by (simp add: quiet_world_def quiet_since_refl)
  show "loop_reachable re rm l'" unfolding l'_def using assms(1) by (rule loop_reachable.step) (rule loop_step.finish, simp)
  have "lp_Worker l' = None \<and> quiet_world (lp_World l) (lp_World l')
    \<and> rr_TemplateDir (lp_Reconciler l') = rr_TemplateDir (lp_Reconciler l)"
  proof (cases "lp_Worker l")
    case (Some key)
    obtain res r w' where run: "Reconcile re cached_client key (lp_Reconciler l) (lp_World l) = (res, r, w')" by (metis prod_cases3)
    have w': "quiet_world (lp_World l) w'" using quiet.reconcile_inv [OF w, of re key "lp_Reconciler l"] by (simp add: run)
    then have "with_schedule [] w' = w'" by (intro with_schedule_id) (simp add: quiet_world_def quiet_since_def)
    then show ?thesis
      using finish_eq [OF Some, of re "[]"] run w' reconcile_TemplateDir [OF run] by (simp add: l'_def with_schedule_id ok(2))
  qed (use w in \<open>simp add: l'_def finish_item_def\<close>)
  then show "lp_Worker l' = None" "quiet_world (lp_World l) (lp_World l')"
    "rr_TemplateDir (lp_Reconciler l') = rr_TemplateDir (lp_Reconciler l)" by blast+
qed

section \<open>One turn\<close>

text \<open>
  Nothing is under way and nothing waits but what is in the queue; every \<open>NodeSwap\<close> is acceptable and the
  machine config can be rendered.
\<close>

definition acceptable :: "nodeSwapSpec \<Rightarrow> bool" where
  "acceptable spec \<longleftrightarrow> is_ok (Create spec) \<and> is_ok (parseLabelSelector (sp_MachineConfigPoolSelector spec))"

definition calm :: "('b, 't) renderer \<Rightarrow> restMapping \<Rightarrow> loop \<Rightarrow> bool" where
  "calm re rm l \<longleftrightarrow> loop_reachable re rm l \<and> lp_Worker l = None \<and> in_sync (lp_World l)
     \<and> dq_channel (lp_Queue l) = [] \<and> dq_waiting (lp_Queue l) = []
     \<and> (\<forall>key spec. specs (cc_Server (lp_World l)) key = Some spec \<longrightarrow> acceptable spec)
     \<and> is_ok (kubelet_mc re (rr_TemplateDir (lp_Reconciler l)))"

lemma calmD:
  assumes "calm re rm l"
  shows "loop_reachable re rm l" and "lp_Worker l = None" and "in_sync (lp_World l)"
    and "dq_channel (lp_Queue l) = []" and "dq_waiting (lp_Queue l) = []"
    and "specs (cc_Server (lp_World l)) key = Some spec \<Longrightarrow> acceptable spec"
    and "is_ok (kubelet_mc re (rr_TemplateDir (lp_Reconciler l)))"
  using assms unfolding calm_def by blast+

text \<open>How far the status of an object is from the one that is kept.\<close>

definition stage :: "nodeSwap option \<Rightarrow> nat" where
  "stage x = (case x of None \<Rightarrow> 0
     | Some ns \<Rightarrow> let conds = st_Conditions (ns_Status ns) in
         if conds = [] then 2 else if settled_conditions conds then 0 else 1)"

definition remaining :: "loop \<Rightarrow> nat" where
  "remaining l = (\<Sum>key\<in>dom (cs_NodeSwaps (cc_Server (lp_World l))). stage (cs_NodeSwaps (cc_Server (lp_World l)) key))
     + length (wq_queue (lp_Queue l))"

lemma sum_stage_put:
  assumes "finite (dom f)" and "f key = Some ns"
  shows "(\<Sum>k\<in>dom (f(key \<mapsto> ns')). stage ((f(key \<mapsto> ns')) k)) + stage (Some ns) = (\<Sum>k\<in>dom f. stage (f k)) + stage (Some ns')"
proof -
  have key: "key \<in> dom f" using assms(2) by blast
  have "dom (f(key \<mapsto> ns')) = dom f" using key by auto
  moreover have "(\<Sum>k\<in>dom f - {key}. stage ((f(key \<mapsto> ns')) k)) = (\<Sum>k\<in>dom f - {key}. stage (f k))"
    by (rule sum.cong) simp_all
  ultimately show ?thesis
    using sum.remove [OF assms(1) key, of "\<lambda>k. stage (f k)"] sum.remove [OF assms(1) key, of "\<lambda>k. stage ((f(key \<mapsto> ns')) k)"]
      assms(2) by simp
qed

text \<open>What the pass makes of a stored object: the same object, or one that is closer.\<close>

lemma put_status_stage:
  assumes "length stamps = length (statusUpdates None (st_Conditions (ns_Status ns)))"
    and "put_status ns \<lparr>st_Conditions = status_after None (st_Conditions (ns_Status ns)) stamps\<rparr> v = (ns', v')"
  shows "ns' = ns \<or> stage (Some ns') < stage (Some ns)"
proof -
  let ?conds = "st_Conditions (ns_Status ns)"
  have new: "st_Conditions (ns_Status ns') = status_after None ?conds stamps" using put_status_fields(1) [OF assms(2)] by simp
  consider "?conds = []" | "settled_conditions ?conds" | "?conds \<noteq> []" "\<not> settled_conditions ?conds" by blast
  then show ?thesis
  proof cases
    case 1
    then have "status_after None ?conds stamps \<noteq> []" using status_after_first(3) [of stamps] assms(1) by simp
    then show ?thesis by (simp add: stage_def Let_def new 1)
  next
    case 2
    then have "status_after None ?conds stamps = ?conds" by (rule settled_status_after)
    then show ?thesis using assms(2) by (simp add: put_status_def)
  next
    case 3
    have "settled_conditions (status_after None ?conds stamps)" by (rule status_after_settled [OF 3(1) assms(1)])
    then show ?thesis using status_after_not_Nil [OF 3(1)] 3 by (simp add: stage_def Let_def new)
  qed
qed

text \<open>The queue's part: the key leaves it, and comes back at most once.\<close>

lemma good_pass_queue:
  assumes "running q" and "wq_processing q = {}" and "dq_channel q = []" and "dq_waiting q = []"
    and "wq_queue q = key # rest" and "wq_Get q = (Item key', q')"
  defines "q2 \<equiv> wq_Done key (rl_Forget key q')"
  shows "key' = key" and "wq_queue q2 = rest" and "dq_channel q2 = []" and "dq_waiting q2 = []"
    and "wq_dirty q2 = wq_dirty q - {key}" and "wq_processing q2 = {}" and "wq_shuttingDown q2 = False"
  using assms by (auto simp: wq_Get_def wq_Done_def rl_Forget_def Let_def running_def)

lemma Add_queue: "length (wq_queue (wq_Add x q)) \<le> Suc (length (wq_queue q))"
  by (simp add: wq_Add_def Let_def)

text \<open>The machine config that the operator creates has no owner, so its events ask for nothing.\<close>

lemma own_config_event:
  assumes "own_machine_config mc"
  shows "requests rm operator_watches (mcfgType ''MachineConfig'') (CreateEvent (mc_Meta (stampMachineConfig v mc))) = []"
proof -
  have "om_OwnerReferences (mc_Meta (stampMachineConfig v mc)) = []"
    using assms by (auto simp: own_machine_config_def stampMachineConfig_def)
  then show ?thesis unfolding requests_operator by (intro no_owner_no_request) simp
qed

lemma calm_pass:
  assumes "calm re rm l"
  obtains r' w' where "Reconcile re cached_client key (lp_Reconciler l) (lp_World l) = (Ok (), r', w')"
    "cs_NodeSwaps (cc_Server w') = cs_NodeSwaps (cc_Server (lp_World l))
     \<or> (\<exists>ns ns'. cs_NodeSwaps (cc_Server (lp_World l)) key = Some ns \<and> stage (Some ns') < stage (Some ns)
          \<and> cs_NodeSwaps (cc_Server w') = (cs_NodeSwaps (cc_Server (lp_World l)))(key \<mapsto> ns'))"
    "cs_MachineConfigs (cc_Server w') SwapKubeletCgroupsMCPrefix = cs_MachineConfigs (cc_Server (lp_World l)) SwapKubeletCgroupsMCPrefix
     \<or> (cs_MachineConfigs (cc_Server (lp_World l)) SwapKubeletCgroupsMCPrefix = None
          \<and> (\<exists>v mc. own_machine_config mc
               \<and> cs_MachineConfigs (cc_Server w') SwapKubeletCgroupsMCPrefix = Some (stampMachineConfig v mc)))"
proof (cases "cs_NodeSwaps (cc_Server (lp_World l)) key")
  case None
  then have "cc_NodeSwaps (lp_World l) key = None" using calmD(3) [OF assms] by (simp add: in_sync_def)
  from pass_absent [OF this] that show ?thesis by blast
next
  case (Some ns)
  let ?w = "lp_World l" and ?r = "lp_Reconciler l" and ?s = "cc_Server (lp_World l)"
  let ?n = "length (statusUpdates None (st_Conditions (ns_Status ns)))"
  let ?st = "\<lparr>st_Conditions = status_after None (st_Conditions (ns_Status ns))
      (List.map (cs_Times ?s) [cs_Ticks ?s ..< cs_Ticks ?s + ?n])\<rparr>"
  note ok = loop_okD [OF reachable_loop_ok [OF calmD(1) [OF assms]]]
  note server = cache_okD(1) [OF ok(1)]
  have "acceptable (ns_Spec ns)" using calmD(6) [OF assms, of key] Some by (simp add: specs_def)
  then have h: "healthy re key (rr_TemplateDir ?r) ?s"
    using ok(2) stored_ok(1) [OF server Some] calmD(7) [OF assms] by (simp add: healthy_def Some acceptable_def)
  obtain r' mc ns' v s' where put: "put_status ns ?st (cs_Revision (with_kubelet_config mc ?s)) = (ns', v)"
    and s': "s' = (with_kubelet_config mc ?s)\<lparr>cs_Ticks := cs_Ticks ?s + ?n, cs_NodeSwaps := (cs_NodeSwaps ?s)(key \<mapsto> ns'),
        cs_Revision := v, cs_Writes := cs_Writes (with_kubelet_config mc ?s) @ [UpdatedStatus key ?st]\<rparr>"
    and step: "Reconcile re api_server key ?r ?s = (Ok (), r', s')"
    and mc: "no_kubelet_config ?s \<Longrightarrow> kubelet_config re (?r\<lparr>rr_desiredNodeSwap := ns\<rparr>) mc"
    by (rule healthy_step [OF h refl Some]) (metis prod.collapse)
  have "ns' = ns \<or> stage (Some ns') < stage (Some ns)"
    by (rule put_status_stage [OF _ put]) simp
  then have "cs_NodeSwaps s' = cs_NodeSwaps ?s \<or>
      (stage (Some ns') < stage (Some ns) \<and> cs_NodeSwaps s' = (cs_NodeSwaps ?s)(key \<mapsto> ns'))"
    using Some by (auto simp: s')
  moreover have "cs_MachineConfigs s' SwapKubeletCgroupsMCPrefix = cs_MachineConfigs ?s SwapKubeletCgroupsMCPrefix
      \<or> (no_kubelet_config ?s \<and> own_machine_config mc
         \<and> cs_MachineConfigs s' SwapKubeletCgroupsMCPrefix = Some (stampMachineConfig (Suc (cs_Revision ?s)) mc))"
    using kubelet_config_own [OF mc] by (simp add: s' with_kubelet_config_def)
  moreover have "Reconcile re cached_client key ?r ?w = (Ok (), r', ?w\<lparr>cc_Server := s'\<rparr>)"
    using reconcile_live [OF ok(2) calmD(3) [OF assms], of re key ?r] step by simp
  ultimately show thesis using that [of r' "?w\<lparr>cc_Server := s'\<rparr>"] Some by simp blast
qed

text \<open>What the informers then add to the queue.\<close>

lemma news_NodeSwap_queue:
  assumes "running (lp_Queue l)"
  shows "length (wq_queue (lp_Queue (news_NodeSwap rm key l))) \<le> Suc (length (wq_queue (lp_Queue l)))"
    and "dq_channel (lp_Queue (news_NodeSwap rm key l)) = dq_channel (lp_Queue l)"
    and "dq_waiting (lp_Queue (news_NodeSwap rm key l)) = dq_waiting (lp_Queue l)"
proof -
  let ?events = "snd (observe ns_Meta (cc_NodeSwaps (lp_World l) key) (cs_NodeSwaps (cc_Server (lp_World l)) key))"
  have "length (concat (List.map (requests rm operator_watches (nodeSwapType ''NodeSwap'')) ?events)) \<le> 1"
    by (cases "cc_NodeSwaps (lp_World l) key"; cases "cs_NodeSwaps (cc_Server (lp_World l)) key")
      (simp_all add: observe_def requests_operator)
  then obtain xs where xs: "concat (List.map (requests rm operator_watches (nodeSwapType ''NodeSwap'')) ?events) = xs"
    "length xs \<le> 1" by blast
  have "length (wq_queue (fold wq_Add xs (lp_Queue l))) \<le> Suc (length (wq_queue (lp_Queue l)))"
    "dq_channel (fold wq_Add xs (lp_Queue l)) = dq_channel (lp_Queue l)"
    "dq_waiting (fold wq_Add xs (lp_Queue l)) = dq_waiting (lp_Queue l)"
    using xs(2) Add_queue [of _ "lp_Queue l"] by (cases xs; simp)+
  then show "length (wq_queue (lp_Queue (news_NodeSwap rm key l))) \<le> Suc (length (wq_queue (lp_Queue l)))"
    "dq_channel (lp_Queue (news_NodeSwap rm key l)) = dq_channel (lp_Queue l)"
    "dq_waiting (lp_Queue (news_NodeSwap rm key l)) = dq_waiting (lp_Queue l)"
    by (auto simp: news_NodeSwap_def see_NodeSwap_eq enqueue_def xs(1))
qed

lemma news_own_MachineConfig:
  assumes "cs_MachineConfigs (cc_Server (lp_World l)) name = cc_MachineConfigs (lp_World l) name
     \<or> (cc_MachineConfigs (lp_World l) name = None \<and> (\<exists>v mc. own_machine_config mc
          \<and> cs_MachineConfigs (cc_Server (lp_World l)) name = Some (stampMachineConfig v mc)))"
  shows "lp_Queue (news_MachineConfig rm name l) = lp_Queue l"
proof (cases "cs_MachineConfigs (cc_Server (lp_World l)) name = cc_MachineConfigs (lp_World l) name")
  case False
  with assms obtain v mc where "cc_MachineConfigs (lp_World l) name = None" "own_machine_config mc"
    "cs_MachineConfigs (cc_Server (lp_World l)) name = Some (stampMachineConfig v mc)" by blast
  then show ?thesis
    by (simp add: news_MachineConfig_def see_MachineConfig_eq observe_def enqueue_def own_config_event)
qed (simp add: news_MachineConfig_def)

text \<open>What a turn takes from the queue, or puts there together with a report, counts.\<close>

lemma remaining_less:
  assumes "finite (dom (cs_NodeSwaps (cc_Server (lp_World l))))" and "wq_queue (lp_Queue l) = key # rest"
    and "cs_NodeSwaps (cc_Server (lp_World l')) = cs_NodeSwaps (cc_Server (lp_World l))
           \<and> length (wq_queue (lp_Queue l')) \<le> length rest
       \<or> (\<exists>ns ns'. cs_NodeSwaps (cc_Server (lp_World l)) key = Some ns \<and> stage (Some ns') < stage (Some ns)
           \<and> cs_NodeSwaps (cc_Server (lp_World l')) = (cs_NodeSwaps (cc_Server (lp_World l)))(key \<mapsto> ns')
           \<and> length (wq_queue (lp_Queue l')) \<le> Suc (length rest))"
  shows "remaining l' < remaining l"
  using assms(3)
proof
  assume "cs_NodeSwaps (cc_Server (lp_World l')) = cs_NodeSwaps (cc_Server (lp_World l))
    \<and> length (wq_queue (lp_Queue l')) \<le> length rest"
  then show ?thesis using assms(2) by (simp add: remaining_def)
next
  assume "\<exists>ns ns'. cs_NodeSwaps (cc_Server (lp_World l)) key = Some ns \<and> stage (Some ns') < stage (Some ns)
    \<and> cs_NodeSwaps (cc_Server (lp_World l')) = (cs_NodeSwaps (cc_Server (lp_World l)))(key \<mapsto> ns')
    \<and> length (wq_queue (lp_Queue l')) \<le> Suc (length rest)"
  then obtain ns ns' where f: "cs_NodeSwaps (cc_Server (lp_World l)) key = Some ns" "stage (Some ns') < stage (Some ns)"
    "cs_NodeSwaps (cc_Server (lp_World l')) = (cs_NodeSwaps (cc_Server (lp_World l)))(key \<mapsto> ns')"
    "length (wq_queue (lp_Queue l')) \<le> Suc (length rest)" by blast
  then show ?thesis
    using sum_stage_put [OF assms(1) f(1), of ns'] assms(2) unfolding remaining_def by (simp del: dom_fun_upd)
qed

lemma turn_calm:
  fixes now bucket :: int
  assumes "calm re rm l" and "finite (dom (cs_NodeSwaps (cc_Server (lp_World l))))" and "wq_queue (lp_Queue l) \<noteq> []"
  defines "l' \<equiv> turn re rm now bucket l"
  shows "calm re rm l'" and "remaining l' < remaining l" and "quiet_since (cc_Server (lp_World l)) (cc_Server (lp_World l'))"
proof -
  note ok = loop_okD [OF reachable_loop_ok [OF calmD(1) [OF assms(1)]]] and c = calmD [OF assms(1)]
  obtain key rest where q: "wq_queue (lp_Queue l) = key # rest" using assms(3) by (cases "wq_queue (lp_Queue l)") auto
  obtain q1 where g: "wq_Get (lp_Queue l) = (Item key, q1)" using q by (simp add: wq_Get_def)
  let ?l1 = "take_item l"
  let ?l2 = "finish_item re [] now bucket ?l1"
  have l1: "?l1 = l\<lparr>lp_Queue := q1, lp_Worker := Some key\<rparr>" by (simp add: take_item_def g)
  have reach1: "loop_reachable re rm ?l1" using c(1) by (rule loop_reachable.step) (rule loop_step.take [OF c(2)])
  note 2 = finish_quiet [OF reach1, of now bucket]
  obtain r' w' where pass: "Reconcile re cached_client key (lp_Reconciler l) (lp_World l) = (Ok (), r', w')"
    and ns: "cs_NodeSwaps (cc_Server w') = cs_NodeSwaps (cc_Server (lp_World l))
     \<or> (\<exists>ns ns'. cs_NodeSwaps (cc_Server (lp_World l)) key = Some ns \<and> stage (Some ns') < stage (Some ns)
          \<and> cs_NodeSwaps (cc_Server w') = (cs_NodeSwaps (cc_Server (lp_World l)))(key \<mapsto> ns'))"
    and mc: "cs_MachineConfigs (cc_Server w') SwapKubeletCgroupsMCPrefix = cs_MachineConfigs (cc_Server (lp_World l)) SwapKubeletCgroupsMCPrefix
     \<or> (cs_MachineConfigs (cc_Server (lp_World l)) SwapKubeletCgroupsMCPrefix = None
          \<and> (\<exists>v mc. own_machine_config mc
               \<and> cs_MachineConfigs (cc_Server w') SwapKubeletCgroupsMCPrefix = Some (stampMachineConfig v mc)))"
    by (rule calm_pass [OF assms(1), of key])
  have "quiet_world (lp_World l) (lp_World l)"
    using ok(1,2) cache_okD(1) [OF ok(1)] by (simp add: quiet_world_def quiet_since_refl)
  from quiet.reconcile_inv [OF this, of re key "lp_Reconciler l"] have world: "quiet_world (lp_World l) w'" by (simp add: pass)
  then have since: "quiet_since (cc_Server (lp_World l)) (cc_Server w')" by (simp add: quiet_world_def)
  have l2: "?l2 = \<lparr>lp_World = w', lp_Reconciler = r', lp_Queue = wq_Done key (rl_Forget key q1), lp_Worker = None\<rparr>"
    using finish_eq [of ?l1 key re "[]"] pass with_schedule_id [OF ok(2)] with_schedule_id [OF quiet_sinceD(2) [OF since]]
    by (simp add: l1 reconcileHandler_def)
  have "wq_processing (lp_Queue l) = {}" using ok(4) c(2) by simp
  note q2 = good_pass_queue [OF ok(3) this c(4,5) q g]
  let ?l3 = "news_NodeSwap rm key ?l2"
  have l': "l' = news_MachineConfig rm SwapKubeletCgroupsMCPrefix ?l3" by (simp add: l'_def turn_def l1)
  have run2: "running (lp_Queue ?l2)" using reachable_loop_ok [OF 2(1)] by (rule loop_okD)
  have caches: "cc_NodeSwaps w' = cs_NodeSwaps (cc_Server (lp_World l))"
    "cc_MachineConfigs w' = cs_MachineConfigs (cc_Server (lp_World l))" "cc_Pools w' = cs_Pools (cc_Server (lp_World l))"
    using world c(3) by (simp_all add: quiet_world_def in_sync_def)
  have queue: "lp_Queue l' = lp_Queue ?l3"
    unfolding l' by (rule news_own_MachineConfig) (use mc in \<open>simp add: l2 caches\<close>)
  have sync: "in_sync (lp_World l')"
    using ns since by (auto simp: l' l2 in_sync_def caches fun_eq_iff quiet_since_def)
  have reach: "loop_reachable re rm l'" unfolding l' using 2(1) by (intro news_reachable)
  show "quiet_since (cc_Server (lp_World l)) (cc_Server (lp_World l'))" using since by (simp add: l' l2)
  from reconcile_TemplateDir [OF pass] show "calm re rm l'"
    using reach sync c(7) news_NodeSwap_queue(2,3) [OF run2, of rm key] q2(3,4) c(6) quiet_sinceD(3) [OF since]
    by (simp add: calm_def queue, simp add: l' l2)
  have "cs_NodeSwaps (cc_Server w') = cs_NodeSwaps (cc_Server (lp_World l)) \<Longrightarrow>
      length (wq_queue (lp_Queue l')) \<le> length rest"
    unfolding queue by (simp add: news_NodeSwap_def l2 caches q2(2))
  moreover have "length (wq_queue (lp_Queue l')) \<le> Suc (length rest)"
    using news_NodeSwap_queue(1) [OF run2, of rm key] q2(2) unfolding queue by (simp add: l2)
  ultimately show "remaining l' < remaining l"
    using ns by (intro remaining_less [OF assms(2) q]) (auto simp: l' l2)
qed

section \<open>The loop ends\<close>

lemma while_option_within:
  fixes f :: "'a \<Rightarrow> nat"
  assumes step: "\<And>s. P s \<Longrightarrow> b s \<Longrightarrow> P (c s) \<and> f (c s) < f s" and "P s"
  shows "\<exists>n\<le>f s. while_option b c s = Some ((c ^^ n) s) \<and> P ((c ^^ n) s) \<and> \<not> b ((c ^^ n) s)"
  using assms(2)
proof (induction "f s" arbitrary: s rule: less_induct)
  case less
  show ?case
  proof (cases "b s")
    case True
    note next_s = step [OF less.prems True]
    obtain n where "n \<le> f (c s)" "while_option b c (c s) = Some ((c ^^ n) (c s))" "P ((c ^^ n) (c s))" "\<not> b ((c ^^ n) (c s))"
      using less.hyps [of "c s"] next_s by blast
    then show ?thesis
      using next_s True
      by (intro exI [of _ "Suc n"]) (simp add: funpow_Suc_right while_option_unfold [of b c s] del: funpow.simps)
  next
    case False
    then show ?thesis using less.prems by (intro exI [of _ 0]) (simp add: while_option_unfold [of b c s])
  qed
qed

lemma drain_ends:
  fixes now bucket :: int
  assumes "calm re rm l" and "finite (dom (cs_NodeSwaps (cc_Server (lp_World l))))"
  obtains n where "n \<le> remaining l" "drain re rm now bucket l = Some ((turn re rm now bucket ^^ n) l)"
    "calm re rm ((turn re rm now bucket ^^ n) l)" "wq_queue (lp_Queue ((turn re rm now bucket ^^ n) l)) = []"
    "quiet_since (cc_Server (lp_World l)) (cc_Server (lp_World ((turn re rm now bucket ^^ n) l)))"
proof -
  let ?s = "cc_Server (lp_World l)"
  let ?P = "\<lambda>x. calm re rm x \<and> quiet_since ?s (cc_Server (lp_World x))"
  let ?b = "\<lambda>x. wq_queue (lp_Queue x) \<noteq> []" and ?c = "turn re rm now bucket"
  have step: "?P (?c x) \<and> remaining (?c x) < remaining x" if "?P x" "?b x" for x
  proof -
    have "finite (dom (cs_NodeSwaps (cc_Server (lp_World x))))"
      using assms(2) specs_dom [OF quiet_sinceD(3)] that(1) by metis
    with turn_calm [of re rm x now bucket] that show ?thesis using quiet_since_trans by blast
  qed
  have start: "?P l"
    using assms(1) reachable_loop_ok [OF calmD(1) [OF assms(1)]] loop_okD(1,2) cache_okD(1) quiet_since_refl by blast
  obtain n where n: "n \<le> remaining l" "while_option ?b ?c l = Some ((?c ^^ n) l)" "?P ((?c ^^ n) l)" "\<not> ?b ((?c ^^ n) l)"
    using while_option_within [of ?P ?b ?c remaining l, OF step start] by blast
  then show thesis using that [of n] by (simp add: drain_def)
qed

text \<open>No object needs more than two passes of its own that change something.\<close>

lemma remaining_bound:
  "remaining l \<le> 2 * card (dom (cs_NodeSwaps (cc_Server (lp_World l)))) + length (wq_queue (lp_Queue l))"
proof -
  have "stage x \<le> 2" for x by (simp add: stage_def Let_def split: option.split)
  then have "(\<Sum>key\<in>dom f. stage (f key)) \<le> (\<Sum>key\<in>dom f. 2)" for f :: "objectKey \<rightharpoonup> nodeSwap"
    by (intro sum_mono)
  from this [of "cs_NodeSwaps (cc_Server (lp_World l))"] show ?thesis by (simp add: remaining_def)
qed

lemma idle_pending:
  assumes "running q" and "wq_queue q = []" and "wq_processing q = {}" and "dq_channel q = []" and "dq_waiting q = []"
  shows "pending q = {}"
  using assms by (simp add: running_def queue_ok_def pending_def)

lemma calm_down_calm:
  fixes now bucket :: int
  assumes "loop_reachable re rm l" and "is_ok (kubelet_mc re (rr_TemplateDir (lp_Reconciler l)))"
    and "\<forall>key ns. cs_NodeSwaps (cc_Server (lp_World l)) key = Some ns \<longrightarrow> acceptable (ns_Spec ns)"
    and "dom (cs_NodeSwaps (cc_Server (lp_World l))) \<union> dom (cc_NodeSwaps (lp_World l)) \<subseteq> set keys"
    and "insert SwapKubeletCgroupsMCPrefix (dom (cs_MachineConfigs (cc_Server (lp_World l))) \<union> dom (cc_MachineConfigs (lp_World l))) \<subseteq> set names"
  defines "l' \<equiv> calm_down re rm keys names now bucket l"
  shows "calm re rm l'" and "quiet_since (cc_Server (lp_World l)) (cc_Server (lp_World l'))"
proof -
  let ?l1 = "finish_item re [] now bucket l"
  let ?l2 = "catch_up rm keys names ?l1"
  note 1 = finish_quiet [OF assms(1), of now bucket]
  have world: "cc_NodeSwaps (lp_World ?l1) = cc_NodeSwaps (lp_World l)"
    "cc_MachineConfigs (lp_World ?l1) = cc_MachineConfigs (lp_World l)"
    and since: "quiet_since (cc_Server (lp_World l)) (cc_Server (lp_World ?l1))"
    using 1(3) by (simp_all add: quiet_world_def)
  have keys: "dom (cs_NodeSwaps (cc_Server (lp_World ?l1))) \<union> dom (cc_NodeSwaps (lp_World ?l1)) \<subseteq> set keys"
    using assms(4) specs_dom [OF quiet_sinceD(3) [OF since]] world(1) by simp
  have "cs_MachineConfigs (cc_Server (lp_World ?l1)) name = None" if "name \<notin> set names" for name
  proof -
    have "name \<noteq> SwapKubeletCgroupsMCPrefix" "cs_MachineConfigs (cc_Server (lp_World l)) name = None"
      using assms(5) that by blast+
    then show ?thesis using quiet_sinceD(4) [OF since] by simp
  qed
  then have names: "dom (cs_MachineConfigs (cc_Server (lp_World ?l1))) \<union> dom (cc_MachineConfigs (lp_World ?l1)) \<subseteq> set names"
    using assms(5) world(2) by auto
  note 2 = catch_up_sync [OF 1(1) keys names]
  have l': "l' = ?l2\<lparr>lp_Queue := elapse now (lp_Queue ?l2)\<rparr>" by (simp add: l'_def calm_down_def Let_def)
  show "quiet_since (cc_Server (lp_World l)) (cc_Server (lp_World l'))" using since by (simp add: l' 2(3))
  have "running (lp_Queue ?l2)" using reachable_loop_ok [OF 2(1)] by (rule loop_okD)
  then have "dq_channel (lp_Queue l') = []" "dq_waiting (lp_Queue l') = []" by (simp_all add: l' elapse_all)
  moreover have "acceptable spec" if "specs (cc_Server (lp_World l')) key = Some spec" for key spec
  proof -
    have "specs (cc_Server (lp_World l)) key = Some spec"
      using that fun_cong [OF quiet_sinceD(3) [OF since], of key] by (simp add: l' 2(3))
    then show ?thesis using assms(3) by (auto simp: specs_def)
  qed
  ultimately show "calm re rm l'"
    using elapse_reachable [OF 2(1), of now] 2(2,4,5) 1(2,4) assms(2) by (simp add: calm_def l')
qed

end
