(* ===== verification/LoopSpec.thy ===== *)
theory LoopSpec
  imports LoopDrain ReconcilerSpec
begin

text \<open>
  The properties of the running operator: from its start, through any interleaving of the others'
  actions, stale caches, failing calls, panics, retries and resyncs.
\<close>

declare split_paired_All [simp del] split_paired_Ex [simp del]

section \<open>A sample operator\<close>

definition sample_config :: machineConfig where
  "sample_config = \<lparr>mc_Meta = new_meta SwapKubeletCgroupsMCPrefix None, mc_OSImageURL = [], mc_Config = [], mc_Extensions = []\<rparr>"

definition sample_loop :: "machineConfig option \<Rightarrow> loop" where
  "sample_loop stored =
     \<lparr>lp_World = \<lparr>cc_Server = (sample_cluster [])\<lparr>cs_MachineConfigs := Map.empty(SwapKubeletCgroupsMCPrefix := stored)\<rparr>,
        cc_NodeSwaps = Map.empty, cc_MachineConfigs = Map.empty, cc_Pools = []\<rparr>,
      lp_Reconciler = sample_reconciler, lp_Queue = new_queue, lp_Worker = None\<rparr>"

definition sample_mapping :: restMapping where
  "sample_mapping gk version = Ok (gk = nodeSwap_kind)"

lemma sample_loop_reachable:
  assumes "stored \<in> {None, Some sample_config}"
  shows "loop_reachable re rm (sample_loop stored)"
proof (rule loop_reachable.start)
  have "cluster_ok ((sample_cluster [])\<lparr>cs_MachineConfigs := Map.empty(SwapKubeletCgroupsMCPrefix := stored)\<rparr>)"
    using assms
    by (auto simp: cluster_ok_def sample_cluster_def sample_ns_def sample_key_def key_of_def conditions_wf_def sample_config_def
        split: if_splits)
  then show "loop_start (sample_loop stored)"
    by (simp add: loop_start_def sample_loop_def) (simp add: sample_cluster_def)
qed

lemmas sample_start = sample_loop_reachable [of None, simplified]

lemma sample_acceptable: "acceptable sample_spec"
  by (simp add: acceptable_def sample_Create) (simp add: sample_spec_def sample_selector)

section \<open>The loop settles\<close>

lemma idle_reported:
  assumes "loop_reachable re rm l" and "lp_Worker l = None" and "pending (lp_Queue l) = {}"
    and "cs_NodeSwaps (cc_Server (lp_World l)) key = Some ns" and "cc_NodeSwaps (lp_World l) key = Some ns"
  shows "reported ns"
  using loop_okD(5) [OF reachable_loop_ok [OF assms(1)] assms(4,5)] assms(2,3) by simp

lemma reported_available:
  assumes "reported ns"
  shows "condition_is (st_Conditions (ns_Status ns)) typeAvailableNodeSwap ConditionTrue
      ''ReconciliationSucceeded'' ''NodeSwap successfully reconciled''"
    and "condition_is (st_Conditions (ns_Status ns)) typeDegradedNodeSwap ConditionFalse ''ReconciliationSucceeded'' []"
    and "is_ok (Create (ns_Spec ns))" and "is_ok (parseLabelSelector (sp_MachineConfigPoolSelector (ns_Spec ns)))"
  using assms settled_report(1,2) by (simp_all add: reported_def)

lemma settles:
  fixes now bucket :: int
  assumes "loop_reachable re rm l" and "is_ok (kubelet_mc re (rr_TemplateDir (lp_Reconciler l)))"
    and "\<forall>key ns. cs_NodeSwaps (cc_Server (lp_World l)) key = Some ns \<longrightarrow> acceptable (ns_Spec ns)"
    and "dom (cs_NodeSwaps (cc_Server (lp_World l))) \<union> dom (cc_NodeSwaps (lp_World l)) \<subseteq> set keys"
    and "insert SwapKubeletCgroupsMCPrefix (dom (cs_MachineConfigs (cc_Server (lp_World l))) \<union> dom (cc_MachineConfigs (lp_World l))) \<subseteq> set names"
  obtains l' where "drain re rm now bucket (calm_down re rm keys names now bucket l) = Some l'"
    "loop_reachable re rm l'" "lp_Worker l' = None" "pending (lp_Queue l') = {}" "in_sync (lp_World l')"
    "quiet_since (cc_Server (lp_World l)) (cc_Server (lp_World l'))"
    "is_ok (kubelet_mc re (rr_TemplateDir (lp_Reconciler l')))"
proof -
  let ?l = "calm_down re rm keys names now bucket l"
  note c = calm_down_calm [where now = now and bucket = bucket, OF assms]
  have "finite (dom (cs_NodeSwaps (cc_Server (lp_World l))))"
    using assms(4) by (meson finite_set finite_subset le_sup_iff)
  then have fin: "finite (dom (cs_NodeSwaps (cc_Server (lp_World ?l))))"
    using specs_dom [OF quiet_sinceD(3) [OF c(2)]] by simp
  let ?turns = "\<lambda>n. (turn re rm now bucket ^^ n) ?l"
  obtain n where n: "n \<le> remaining ?l" "drain re rm now bucket ?l = Some (?turns n)" "calm re rm (?turns n)"
    "wq_queue (lp_Queue (?turns n)) = []" "quiet_since (cc_Server (lp_World ?l)) (cc_Server (lp_World (?turns n)))"
    by (rule drain_ends [OF c(1) fin])
  note d = calmD [OF n(3)] and ok = loop_okD [OF reachable_loop_ok [OF calmD(1) [OF n(3)]]]
  have "pending (lp_Queue (?turns n)) = {}"
    using ok(3) n(4) _ d(4,5) by (rule idle_pending) (simp add: ok(4) d(2))
  from that [OF n(2) d(1-2) this d(3) quiet_since_trans [OF c(2) n(5)] d(7)] show thesis .
qed

text \<open>
  C2: the operator recovers and comes to rest. From any state of any run - in the middle of a pass, with
  stale caches, with failed keys waiting - if nothing disturbs it any more, every \<open>NodeSwap\<close> on the
  server has an acceptable spec and the templates can be rendered, then, once the informers and the
  retries have caught up, the loop of the worker ends after finitely many passes; then the queue is
  empty, no retry waits, and every \<open>NodeSwap\<close>, its spec unchanged, is reported \<open>Available\<close>.
\<close>

theorem operator_settles:
  assumes "loop_reachable re rm l" and "is_ok (kubelet_mc re (rr_TemplateDir (lp_Reconciler l)))"
    and "\<forall>key ns. cs_NodeSwaps (cc_Server (lp_World l)) key = Some ns \<longrightarrow> acceptable (ns_Spec ns)"
    and "dom (cs_NodeSwaps (cc_Server (lp_World l))) \<union> dom (cc_NodeSwaps (lp_World l)) \<subseteq> set keys"
    and "insert SwapKubeletCgroupsMCPrefix (dom (cs_MachineConfigs (cc_Server (lp_World l))) \<union> dom (cc_MachineConfigs (lp_World l))) \<subseteq> set names"
  shows "\<exists>l'. drain re rm now bucket (calm_down re rm keys names now bucket l) = Some l'
    \<and> loop_reachable re rm l' \<and> lp_Worker l' = None \<and> pending (lp_Queue l') = {}
    \<and> specs (cc_Server (lp_World l')) = specs (cc_Server (lp_World l))
    \<and> (\<forall>key ns. cs_NodeSwaps (cc_Server (lp_World l')) key = Some ns \<longrightarrow>
         condition_is (st_Conditions (ns_Status ns)) typeAvailableNodeSwap ConditionTrue
           ''ReconciliationSucceeded'' ''NodeSwap successfully reconciled'')"
proof -
  obtain l' where l': "drain re rm now bucket (calm_down re rm keys names now bucket l) = Some l'"
    "loop_reachable re rm l'" "lp_Worker l' = None" "pending (lp_Queue l') = {}" "in_sync (lp_World l')"
    "quiet_since (cc_Server (lp_World l)) (cc_Server (lp_World l'))"
    by (rule settles [where now = now and bucket = bucket, OF assms])
  note specs = quiet_sinceD(3) [OF l'(6)]
  have "condition_is (st_Conditions (ns_Status ns)) typeAvailableNodeSwap ConditionTrue
       ''ReconciliationSucceeded'' ''NodeSwap successfully reconciled''"
    if "cs_NodeSwaps (cc_Server (lp_World l')) key = Some ns" for key ns
    using reported_available(1) [OF idle_reported [OF l'(2-4) that]] that l'(5) by (simp add: in_sync_def)
  with l' specs show ?thesis by blast
qed

lemma sample_stored: "cs_NodeSwaps (cc_Server (lp_World (sample_loop stored))) = [sample_key \<mapsto> sample_ns []]"
  by (simp add: sample_loop_def sample_cluster_def)

lemma sample_settles:
  "is_ok (kubelet_mc sample_renderer (rr_TemplateDir (lp_Reconciler (sample_loop stored))))"
  "\<forall>key ns. cs_NodeSwaps (cc_Server (lp_World (sample_loop stored))) key = Some ns \<longrightarrow> acceptable (ns_Spec ns)"
  "dom (cs_NodeSwaps (cc_Server (lp_World (sample_loop stored)))) \<union> dom (cc_NodeSwaps (lp_World (sample_loop stored))) \<subseteq> set [sample_key]"
  "insert SwapKubeletCgroupsMCPrefix (dom (cs_MachineConfigs (cc_Server (lp_World (sample_loop stored))))
     \<union> dom (cc_MachineConfigs (lp_World (sample_loop stored)))) \<subseteq> set [SwapKubeletCgroupsMCPrefix]"
proof -
  show "is_ok (kubelet_mc sample_renderer (rr_TemplateDir (lp_Reconciler (sample_loop stored))))"
    using sample_mc [of zeroRenderConfig] by (simp add: sample_loop_def sample_reconciler_def)
  show "\<forall>key ns. cs_NodeSwaps (cc_Server (lp_World (sample_loop stored))) key = Some ns \<longrightarrow> acceptable (ns_Spec ns)"
    using sample_acceptable by (simp add: sample_stored) (simp add: sample_ns_def)
  show "dom (cs_NodeSwaps (cc_Server (lp_World (sample_loop stored)))) \<union> dom (cc_NodeSwaps (lp_World (sample_loop stored))) \<subseteq> set [sample_key]"
    by (simp add: sample_stored) (simp add: sample_loop_def)
  show "insert SwapKubeletCgroupsMCPrefix (dom (cs_MachineConfigs (cc_Server (lp_World (sample_loop stored))))
     \<union> dom (cc_MachineConfigs (lp_World (sample_loop stored)))) \<subseteq> set [SwapKubeletCgroupsMCPrefix]"
    by (simp add: sample_loop_def sample_cluster_def)
qed

theorem operator_settles_witness:
  "\<exists>l' ns. drain sample_renderer sample_mapping 0 0
        (calm_down sample_renderer sample_mapping [sample_key] [SwapKubeletCgroupsMCPrefix] 0 0 (sample_loop None)) = Some l'
     \<and> cs_NodeSwaps (cc_Server (lp_World l')) sample_key = Some ns \<and> ns_Spec ns = sample_spec
     \<and> condition_is (st_Conditions (ns_Status ns)) typeAvailableNodeSwap ConditionTrue
         ''ReconciliationSucceeded'' ''NodeSwap successfully reconciled''"
proof -
  obtain l' where l': "drain sample_renderer sample_mapping 0 0
      (calm_down sample_renderer sample_mapping [sample_key] [SwapKubeletCgroupsMCPrefix] 0 0 (sample_loop None)) = Some l'"
    "specs (cc_Server (lp_World l')) = specs (cc_Server (lp_World (sample_loop None)))"
    "\<And>key ns. cs_NodeSwaps (cc_Server (lp_World l')) key = Some ns \<Longrightarrow>
       condition_is (st_Conditions (ns_Status ns)) typeAvailableNodeSwap ConditionTrue
         ''ReconciliationSucceeded'' ''NodeSwap successfully reconciled''"
    using operator_settles [where rm = sample_mapping and now = 0 and bucket = 0, OF sample_start sample_settles] by blast
  have "specs (cc_Server (lp_World l')) sample_key = Some sample_spec"
    unfolding l'(2) by (simp add: specs_def sample_stored sample_ns_def)
  then obtain ns where "cs_NodeSwaps (cc_Server (lp_World l')) sample_key = Some ns" "ns_Spec ns = sample_spec"
    by (auto simp: specs_def)
  with l' show ?thesis by blast
qed

text \<open>
  C22: it comes to rest quickly: after the informers and the retries have caught up, the worker makes at
  most two passes for every \<open>NodeSwap\<close> there is, the first report and the final one, and one for every
  key that is queued.
\<close>

theorem operator_settles_within:
  assumes "loop_reachable re rm l" and "is_ok (kubelet_mc re (rr_TemplateDir (lp_Reconciler l)))"
    and "\<forall>key ns. cs_NodeSwaps (cc_Server (lp_World l)) key = Some ns \<longrightarrow> acceptable (ns_Spec ns)"
    and "dom (cs_NodeSwaps (cc_Server (lp_World l))) \<union> dom (cc_NodeSwaps (lp_World l)) \<subseteq> set keys"
    and "insert SwapKubeletCgroupsMCPrefix (dom (cs_MachineConfigs (cc_Server (lp_World l))) \<union> dom (cc_MachineConfigs (lp_World l))) \<subseteq> set names"
  shows "\<exists>n\<le>2 * card (dom (cs_NodeSwaps (cc_Server (lp_World l))))
        + length (wq_queue (lp_Queue (calm_down re rm keys names now bucket l))).
     let l' = (turn re rm now bucket ^^ n) (calm_down re rm keys names now bucket l) in
       wq_queue (lp_Queue l') = [] \<and> drain re rm now bucket (calm_down re rm keys names now bucket l) = Some l'"
proof -
  let ?l = "calm_down re rm keys names now bucket l"
  note c = calm_down_calm [where now = now and bucket = bucket, OF assms]
  have same: "dom (cs_NodeSwaps (cc_Server (lp_World ?l))) = dom (cs_NodeSwaps (cc_Server (lp_World l)))"
    by (rule specs_dom [OF quiet_sinceD(3) [OF c(2)]])
  have "finite (dom (cs_NodeSwaps (cc_Server (lp_World l))))"
    using assms(4) by (meson finite_set finite_subset le_sup_iff)
  then have fin: "finite (dom (cs_NodeSwaps (cc_Server (lp_World ?l))))" by (simp add: same)
  obtain n where "n \<le> remaining ?l" "drain re rm now bucket ?l = Some ((turn re rm now bucket ^^ n) ?l)"
    "calm re rm ((turn re rm now bucket ^^ n) ?l)" "wq_queue (lp_Queue ((turn re rm now bucket ^^ n) ?l)) = []"
    "quiet_since (cc_Server (lp_World ?l)) (cc_Server (lp_World ((turn re rm now bucket ^^ n) ?l)))"
    by (rule drain_ends [OF c(1) fin])
  then show ?thesis using remaining_bound [of ?l] unfolding same by (intro exI [of _ n]) simp
qed

theorem operator_settles_within_witness:
  "\<exists>n\<le>2 + length (wq_queue (lp_Queue
        (calm_down sample_renderer sample_mapping [sample_key] [SwapKubeletCgroupsMCPrefix] 0 0 (sample_loop None)))).
     wq_queue (lp_Queue ((turn sample_renderer sample_mapping 0 0 ^^ n)
        (calm_down sample_renderer sample_mapping [sample_key] [SwapKubeletCgroupsMCPrefix] 0 0 (sample_loop None)))) = []"
  using operator_settles_within [where rm = sample_mapping and now = 0 and bucket = 0, OF sample_start sample_settles]
  by (simp add: sample_stored Let_def) blast

text \<open>
  C3: whenever, in any run, the operator has nothing to do - the worker waits, nothing is queued and no
  retry waits - every \<open>NodeSwap\<close> that it has seen as it is on the server has an acceptable spec and is
  reported \<open>Available\<close> and not \<open>Degraded\<close>: no event, failure, conflict or panic is ever dropped.
\<close>

theorem idle_operator_has_reported:
  assumes "loop_reachable re rm l" and "lp_Worker l = None" and "pending (lp_Queue l) = {}"
    and "cs_NodeSwaps (cc_Server (lp_World l)) key = Some ns" and "cc_NodeSwaps (lp_World l) key = Some ns"
  shows "is_ok (Create (ns_Spec ns)) \<and> is_ok (parseLabelSelector (sp_MachineConfigPoolSelector (ns_Spec ns)))
    \<and> condition_is (st_Conditions (ns_Status ns)) typeAvailableNodeSwap ConditionTrue
        ''ReconciliationSucceeded'' ''NodeSwap successfully reconciled''
    \<and> condition_is (st_Conditions (ns_Status ns)) typeDegradedNodeSwap ConditionFalse ''ReconciliationSucceeded'' []"
  using reported_available [OF idle_reported [OF assms]] by blast

theorem idle_operator_has_reported_witness:
  "\<exists>l ns. loop_reachable sample_renderer sample_mapping l \<and> pending (lp_Queue l) = {}
     \<and> cs_NodeSwaps (cc_Server (lp_World l)) sample_key = Some ns
     \<and> condition_is (st_Conditions (ns_Status ns)) typeDegradedNodeSwap ConditionFalse ''ReconciliationSucceeded'' []"
proof -
  obtain l where l: "loop_reachable sample_renderer sample_mapping l" "lp_Worker l = None" "pending (lp_Queue l) = {}"
    "in_sync (lp_World l)" "quiet_since (cc_Server (lp_World (sample_loop None))) (cc_Server (lp_World l))"
    by (rule settles [where rm = sample_mapping and now = 0 and bucket = 0, OF sample_start sample_settles])
  have "specs (cc_Server (lp_World l)) sample_key = Some sample_spec"
    unfolding quiet_sinceD(3) [OF l(5)] by (simp add: specs_def sample_stored sample_ns_def)
  then obtain ns where ns: "cs_NodeSwaps (cc_Server (lp_World l)) sample_key = Some ns" by (auto simp: specs_def)
  moreover have "cc_NodeSwaps (lp_World l) sample_key = Some ns" using ns l(4) by (simp add: in_sync_def)
  ultimately show ?thesis using idle_operator_has_reported [OF l(1-3)] l(1,3) by blast
qed

section \<open>Events that change nothing\<close>

lemma pool_events_cluster_scoped:
  assumes "e \<in> set (pool_events known current)" and "m \<in> event_objects e"
  shows "om_Namespace m = []"
proof -
  obtain p1 p2 where "e \<in> set (snd (observe pool_meta p1 p2))" using assms(1) by (auto simp: pool_events_def)
  from observe_objects [OF this assms(2)] show ?thesis by auto
qed

lemma config_events_cluster_scoped:
  assumes "cache_ok w" and "e \<in> set (snd (observe mc_Meta (cc_MachineConfigs w name) (cs_MachineConfigs (cc_Server w) name)))"
    and "m \<in> event_objects e"
  shows "om_Namespace m = []"
proof -
  obtain mc where "m = mc_Meta mc" "cc_MachineConfigs w name = Some mc \<or> cs_MachineConfigs (cc_Server w) name = Some mc"
    using observe_objects [OF assms(2,3)] by blast
  then show ?thesis
    using cache_okD(4) [OF assms(1), of name mc] cache_okD(1) [OF assms(1)] unfolding cluster_ok_def by blast
qed

lemma no_namespace_absent:
  assumes "cache_ok w" and "fst key = []"
  shows "cc_NodeSwaps w key = None"
  using cache_okD(2) [OF assms(1), of key] assms(2) by (cases "cc_NodeSwaps w key") auto

text \<open>Any event of a stored \<open>NodeSwap\<close> queues its key.\<close>

lemma see_NodeSwap_queued:
  assumes "loop_reachable re rm l" and "cs_NodeSwaps (cc_Server (lp_World l)) key = Some ns"
  shows "key \<in> pending (lp_Queue (see_NodeSwap rm key l))"
proof -
  note ok = loop_okD [OF reachable_loop_ok [OF assms(1)]]
  obtain e where "snd (observe ns_Meta (cc_NodeSwaps (lp_World l) key) (cs_NodeSwaps (cc_Server (lp_World l)) key)) = [e]"
    "request_of (ns_Meta ns) \<in> set (EnqueueRequestForObject e)"
    using observe_new [OF assms(2)] by blast
  moreover have "request_of (ns_Meta ns) = key"
    using stored_ok(1) [OF cache_okD(1) [OF ok(1)] assms(2)] by (simp add: request_of_def key_of_def)
  ultimately show ?thesis using enqueue_adds(2) [OF ok(3)] by (simp add: see_NodeSwap_eq requests_operator)
qed

lemma cluster_scoped_inert:
  assumes "loop_reachable re rm l"
  shows "(\<forall>key \<in> pending (lp_Queue (see_MachineConfig rm name l)). key \<in> pending (lp_Queue l) \<or> fst key = [])
    \<and> (\<forall>key \<in> pending (lp_Queue (see_Pools rm l)). key \<in> pending (lp_Queue l) \<or> fst key = [])
    \<and> Reconcile re cached_client ([], pool) r (lp_World l) = (Ok (), r, lp_World l)"
proof -
  let ?w = "lp_World l"
  note ok = loop_okD [OF reachable_loop_ok [OF assms]]
  note q = enqueue_adds(2) [OF ok(3)]
  have "fst key = []" if "e \<in> set (pool_events (cc_Pools ?w) (cs_Pools (cc_Server ?w)))"
    "key \<in> set (requests rm operator_watches (mcfgType ''MachineConfigPool'') e)" for e key
    by (rule requests_cluster_scoped(1) [of e])
      (use that pool_events_cluster_scoped [OF that(1)] in \<open>simp_all add: requests_operator\<close>)
  moreover have "fst key = []"
    if "e \<in> set (snd (observe mc_Meta (cc_MachineConfigs ?w name) (cs_MachineConfigs (cc_Server ?w) name)))"
    "key \<in> set (requests rm operator_watches (mcfgType ''MachineConfig'') e)" for e key
    by (rule requests_cluster_scoped(2) [of e _ rm nodeSwap_kind True])
      (use that config_events_cluster_scoped [OF ok(1) that(1)] in \<open>simp_all add: requests_operator\<close>)
  moreover have "Reconcile re cached_client ([], pool) r ?w = (Ok (), r, ?w)"
    by (rule pass_absent) (rule no_namespace_absent [OF ok(1)], simp)
  ultimately show ?thesis by (auto simp: see_Pools_def see_MachineConfig_eq Let_def q)
qed

text \<open>
  C15: the watches of machine configs and of machine config pools never make the operator do anything.
  These objects have no namespace, so every key that their events add to the queue has none, while a
  \<open>NodeSwap\<close> has one; and reconciling a key without a namespace, in any state of any run, calls nothing
  that writes, changes nothing and succeeds.
\<close>

theorem cluster_scoped_events_inert:
  assumes "loop_reachable re rm l"
  shows "(\<forall>key \<in> pending (lp_Queue (see_MachineConfig rm name l)). key \<in> pending (lp_Queue l) \<or> fst key = [])
    \<and> (\<forall>key \<in> pending (lp_Queue (see_Pools rm l)). key \<in> pending (lp_Queue l) \<or> fst key = [])
    \<and> Reconcile re cached_client ([], pool) r (lp_World l) = (Ok (), r, lp_World l)"
  by (rule cluster_scoped_inert [OF assms])

theorem cluster_scoped_events_inert_witness:
  "pending (lp_Queue (see_Pools sample_mapping (sample_loop None))) = {([], ''workers'')}
   \<and> Reconcile sample_renderer cached_client ([], ''workers'') sample_reconciler (lp_World (sample_loop None)) =
      (Ok (), sample_reconciler, lp_World (sample_loop None))"
proof
  have "enqueue sample_mapping (mcfgType ''MachineConfigPool'') (pool_events [] [sample_pool]) new_queue =
      wq_Add ([], ''workers'') new_queue"
    by (simp add: enqueue_def pool_events_def pool_named_def observe_def requests_operator request_of_def sample_pool_def)
  then show "pending (lp_Queue (see_Pools sample_mapping (sample_loop None))) = {([], ''workers'')}"
    using wq.add [OF new_queue_running(1), of "([], ''workers'') :: objectKey"]
    by (simp add: see_Pools_def sample_loop_def sample_cluster_def Let_def)
  show "Reconcile sample_renderer cached_client ([], ''workers'') sample_reconciler (lp_World (sample_loop None)) =
      (Ok (), sample_reconciler, lp_World (sample_loop None))"
    using cluster_scoped_events_inert [OF sample_start] by blast
qed

text \<open>
  What can happen while nothing prompts the operator: nobody touches a \<open>NodeSwap\<close> or puts its machine
  config back, and no event of a \<open>NodeSwap\<close>, a resync included, is delivered. Every other step is allowed.
\<close>

fun unprompting :: "env_action \<Rightarrow> bool" where
  "unprompting (EnvPutNodeSwap ns) \<longleftrightarrow> False"
| "unprompting (EnvDeleteNodeSwap key) \<longleftrightarrow> False"
| "unprompting (EnvPutMachineConfig mc) \<longleftrightarrow> om_Namespace (mc_Meta mc) = [] \<and> om_Name (mc_Meta mc) \<noteq> SwapKubeletCgroupsMCPrefix"
| "unprompting (EnvDeleteMachineConfig name) \<longleftrightarrow> True"
| "unprompting (EnvSetPools pools) \<longleftrightarrow> True"

inductive unprompted_step :: "('b, 't) renderer \<Rightarrow> restMapping \<Rightarrow> loop \<Rightarrow> loop \<Rightarrow> bool" for re rm where
  act: "unprompting a \<Longrightarrow> unprompted_step re rm l (others_act a l)"
| see_mc: "unprompted_step re rm l (see_MachineConfig rm name l)"
| see_pools: "unprompted_step re rm l (see_Pools rm l)"
| receive: "unprompted_step re rm l (l\<lparr>lp_Queue := dq_receive now (lp_Queue l)\<rparr>)"
| ready: "unprompted_step re rm l (l\<lparr>lp_Queue := dq_ready now (lp_Queue l)\<rparr>)"
| take: "lp_Worker l = None \<Longrightarrow> unprompted_step re rm l (take_item l)"
| finish: "\<forall>t\<in>set ticks. tick_ok t \<Longrightarrow> unprompted_step re rm l (finish_item re ticks now bucket l)"

lemma unprompted_loop_step: "unprompted_step re rm l l' \<Longrightarrow> loop_step re rm l l'"
proof (induction rule: unprompted_step.induct)
  case (act a l)
  then have "action_ok a" by (cases a) simp_all
  then show ?case by (rule loop_step.act)
qed (auto intro: loop_step.intros)

lemma Get_pending: "running q \<Longrightarrow> wq_Get q = (Item x, q') \<Longrightarrow> pending q' \<subseteq> pending q"
  by (auto simp: wq_Get_def pending_def Let_def split: list.splits if_splits)

text \<open>The operator is busy with keys without a namespace at most, and everything it could report is as it was.\<close>

definition dormant :: "('b, 't) renderer \<Rightarrow> restMapping \<Rightarrow> loop \<Rightarrow> loop \<Rightarrow> bool" where
  "dormant re rm l0 l \<longleftrightarrow> loop_reachable re rm l
     \<and> cs_MachineConfigs (cc_Server (lp_World l)) SwapKubeletCgroupsMCPrefix = None
     \<and> cs_NodeSwaps (cc_Server (lp_World l)) = cs_NodeSwaps (cc_Server (lp_World l0))
     \<and> server_writes (lp_World l) = server_writes (lp_World l0)
     \<and> (\<forall>key\<in>pending (lp_Queue l) \<union> set_option (lp_Worker l). fst key = [])"

lemma dormant_finish:
  assumes "dormant re rm l0 l" and "\<forall>t\<in>set ticks. tick_ok t"
  shows "dormant re rm l0 (finish_item re ticks now bucket l)"
proof (cases "lp_Worker l")
  case (Some key)
  note d = assms(1) [unfolded dormant_def]
  note ok = loop_okD [OF reachable_loop_ok [OF conjunct1 [OF d]]]
  have "fst key = []" using d Some by simp
  then have "cc_NodeSwaps (with_schedule ticks (lp_World l)) key = None"
    using no_namespace_absent [OF ok(1), of key] by simp
  from finish_eq [OF Some pass_absent [OF this]]
  have l': "finish_item re ticks now bucket l = \<lparr>lp_World = with_schedule [] (with_schedule ticks (lp_World l)),
      lp_Reconciler = lp_Reconciler l, lp_Queue = wq_Done key (rl_Forget key (lp_Queue l)), lp_Worker = None\<rparr>"
    by (simp add: reconcileHandler_def)
  have "loop_reachable re rm (finish_item re ticks now bucket l)"
    using d loop_step.finish [OF assms(2)] by (blast intro: loop_reachable.step)
  moreover have "key \<in> wq_processing (lp_Queue l)" using ok(4) Some by simp
  ultimately show ?thesis
    using d wq.good_turn(2) [OF ok(3), of key] unfolding dormant_def
    by (simp add: l') (simp add: server_writes_def with_schedule_def)
qed (use assms in \<open>simp add: finish_item_def\<close>)

lemma dormant_step:
  assumes "unprompted_step re rm l l'" and "dormant re rm l0 l"
  shows "dormant re rm l0 l'"
proof -
  note d = assms(2) [unfolded dormant_def]
  have reach: "loop_reachable re rm l'"
    using d unprompted_loop_step [OF assms(1)] by (blast intro: loop_reachable.step)
  note run = loop_okD(3) [OF reachable_loop_ok [OF conjunct1 [OF d]]]
  note inert = cluster_scoped_inert [OF conjunct1 [OF d]]
  from assms(1) show ?thesis
  proof (cases rule: unprompted_step.cases)
    case (act a)
    then show ?thesis
      using d reach unfolding dormant_def by (cases a) (auto simp: others_act_def server_writes_def)
  next
    case (see_mc name)
    have "\<forall>key\<in>pending (lp_Queue l'). fst key = []" using d inert unfolding see_mc by blast
    then show ?thesis using d reach unfolding dormant_def see_mc by (simp add: see_MachineConfig_eq server_writes_def ball_Un)
  next
    case see_pools
    have "\<forall>key\<in>pending (lp_Queue l'). fst key = []" using d inert unfolding see_pools by blast
    then show ?thesis using d reach unfolding dormant_def see_pools by (simp add: see_Pools_def Let_def server_writes_def ball_Un)
  next
    case (receive now)
    then show ?thesis using d reach wq.receive [OF run, of now] unfolding dormant_def by simp
  next
    case (ready now)
    then show ?thesis using d reach wq.ready [OF run, of now] unfolding dormant_def by simp
  next
    case take
    obtain got q where g: "wq_Get (lp_Queue l) = (got, q)" by fastforce
    then show ?thesis
      using d reach Get_pending [OF run] wq.get_item [OF run] unfolding dormant_def take(1)
      by (cases got) (auto simp: take_item_def)
  next
    case (finish ticks now bucket)
    then show ?thesis using dormant_finish [OF assms(2)] by simp
  qed
qed

lemma dormant_run: "(unprompted_step re rm)\<^sup>*\<^sup>* l l' \<Longrightarrow> dormant re rm l0 l \<Longrightarrow> dormant re rm l0 l'"
  by (induction rule: rtranclp_induct) (auto intro: dormant_step)

text \<open>One pass restores it, once the caches know that it is gone.\<close>

lemma pass_restores:
  assumes "loop_reachable re rm l" and "in_sync (lp_World l)" and "cs_NodeSwaps (cc_Server (lp_World l)) key = Some ns"
    and "acceptable (ns_Spec ns)" and "is_ok (kubelet_mc re (rr_TemplateDir (lp_Reconciler l)))"
  shows "\<exists>r w. Reconcile re cached_client key (lp_Reconciler l) (lp_World l) = (Ok (), r, w)
    \<and> cs_MachineConfigs (cc_Server w) SwapKubeletCgroupsMCPrefix \<noteq> None"
proof -
  note ok = loop_okD [OF reachable_loop_ok [OF assms(1)]]
  have "healthy re key (rr_TemplateDir (lp_Reconciler l)) (cc_Server (lp_World l))"
    using ok(2) stored_ok(1) [OF cache_okD(1) [OF ok(1)] assms(3)] assms(3-5) by (simp add: healthy_def acceptable_def)
  from healthy_pass [OF this refl assms(3)] show ?thesis
    using reconcile_live [OF ok(2) assms(2), of re key "lp_Reconciler l"] by auto
qed

text \<open>
  C17: a machine config of the operator that somebody deletes while the operator is at rest waits for the
  next event of a \<open>NodeSwap\<close>. However long nothing prompts the operator - whatever happens to other
  machine configs and to the pools, and although the deletion itself is an event of a watched object -
  the operator writes nothing, the config stays away and every \<open>NodeSwap\<close> is still reported as
  \<open>Available\<close>. Any event of a \<open>NodeSwap\<close>, also the resync of an unchanged one (every ten hours by
  default), puts its key in the queue, and a pass over it, once the caches have caught up and if the
  templates can be rendered, creates the config again.
\<close>

theorem deleted_config_waits_for_resync:
  assumes "loop_reachable re rm l" and "lp_Worker l = None" and "pending (lp_Queue l) = {}" and "in_sync (lp_World l)"
    and "(unprompted_step re rm)\<^sup>*\<^sup>* (others_act (EnvDeleteMachineConfig SwapKubeletCgroupsMCPrefix) l) l'"
  shows "cs_MachineConfigs (cc_Server (lp_World l')) SwapKubeletCgroupsMCPrefix = None
    \<and> server_writes (lp_World l') = server_writes (lp_World l)
    \<and> cs_NodeSwaps (cc_Server (lp_World l')) = cs_NodeSwaps (cc_Server (lp_World l))
    \<and> (\<forall>key ns. cs_NodeSwaps (cc_Server (lp_World l')) key = Some ns \<longrightarrow>
         condition_is (st_Conditions (ns_Status ns)) typeAvailableNodeSwap ConditionTrue
           ''ReconciliationSucceeded'' ''NodeSwap successfully reconciled''
       \<and> key \<in> pending (lp_Queue (see_NodeSwap rm key l'))
       \<and> (in_sync (lp_World l') \<longrightarrow> is_ok (kubelet_mc re (rr_TemplateDir (lp_Reconciler l'))) \<longrightarrow>
           (\<exists>r w. Reconcile re cached_client key (lp_Reconciler l') (lp_World l') = (Ok (), r, w)
              \<and> cs_MachineConfigs (cc_Server w) SwapKubeletCgroupsMCPrefix \<noteq> None)))"
proof -
  let ?l1 = "others_act (EnvDeleteMachineConfig SwapKubeletCgroupsMCPrefix) l"
  have "loop_reachable re rm ?l1" using assms(1) by (rule loop_reachable.step) (rule loop_step.act, simp)
  then have "dormant re rm l ?l1" using assms(2,3) by (simp add: dormant_def others_act_def server_writes_def)
  then have "dormant re rm l l'" by (rule dormant_run [OF assms(5)])
  then have d: "loop_reachable re rm l'" "cs_MachineConfigs (cc_Server (lp_World l')) SwapKubeletCgroupsMCPrefix = None"
    "cs_NodeSwaps (cc_Server (lp_World l')) = cs_NodeSwaps (cc_Server (lp_World l))"
    "server_writes (lp_World l') = server_writes (lp_World l)" by (simp_all add: dormant_def)
  have "reported ns" if "cs_NodeSwaps (cc_Server (lp_World l')) key = Some ns" for key ns
    using idle_reported [OF assms(1-3)] assms(4) that by (simp add: d(3) in_sync_def)
  moreover from this have "acceptable (ns_Spec ns)" if "cs_NodeSwaps (cc_Server (lp_World l')) key = Some ns" for key ns
    using that by (auto simp: reported_def acceptable_def)
  ultimately show ?thesis
    using d reported_available(1) see_NodeSwap_queued [OF d(1)] pass_restores [OF d(1)] by blast
qed

theorem deleted_config_waits_for_resync_witness:
  "\<exists>l ns. loop_reachable sample_renderer sample_mapping l
     \<and> cs_MachineConfigs (cc_Server (lp_World l)) SwapKubeletCgroupsMCPrefix = None
     \<and> cs_NodeSwaps (cc_Server (lp_World l)) sample_key = Some ns
     \<and> condition_is (st_Conditions (ns_Status ns)) typeAvailableNodeSwap ConditionTrue
         ''ReconciliationSucceeded'' ''NodeSwap successfully reconciled''
     \<and> (\<exists>r w. Reconcile sample_renderer cached_client sample_key (lp_Reconciler l) (lp_World l) = (Ok (), r, w)
         \<and> cs_MachineConfigs (cc_Server w) SwapKubeletCgroupsMCPrefix \<noteq> None)"
proof -
  let ?start = "sample_loop (Some sample_config)"
  have start: "loop_reachable sample_renderer sample_mapping ?start" by (rule sample_loop_reachable) simp
  obtain l where l: "loop_reachable sample_renderer sample_mapping l" "lp_Worker l = None" "pending (lp_Queue l) = {}"
    "in_sync (lp_World l)" "quiet_since (cc_Server (lp_World ?start)) (cc_Server (lp_World l))"
    "is_ok (kubelet_mc sample_renderer (rr_TemplateDir (lp_Reconciler l)))"
    by (rule settles [where rm = sample_mapping and now = 0 and bucket = 0, OF start sample_settles])
  let ?l1 = "others_act (EnvDeleteMachineConfig SwapKubeletCgroupsMCPrefix) l"
  let ?l = "see_MachineConfig sample_mapping SwapKubeletCgroupsMCPrefix ?l1"
  have "(unprompted_step sample_renderer sample_mapping)\<^sup>*\<^sup>* ?l1 ?l" by (rule r_into_rtranclp) (rule unprompted_step.see_mc)
  note d = deleted_config_waits_for_resync [OF l(1-4) this]
  have "loop_reachable sample_renderer sample_mapping ?l1"
    using l(1) by (rule loop_reachable.step) (rule loop_step.act, simp)
  then have reach: "loop_reachable sample_renderer sample_mapping ?l"
    by (rule loop_reachable.step) (rule loop_step.see_mc)
  have sync: "in_sync (lp_World ?l)" using l(4) by (simp add: see_MachineConfig_eq others_act_def in_sync_def)
  have dir: "lp_Reconciler ?l = lp_Reconciler l" by (simp add: see_MachineConfig_eq others_act_def)
  have "specs (cc_Server (lp_World l)) sample_key = Some sample_spec"
    unfolding quiet_sinceD(3) [OF l(5)] by (simp add: specs_def sample_stored sample_ns_def)
  then obtain ns where "cs_NodeSwaps (cc_Server (lp_World l)) sample_key = Some ns" by (auto simp: specs_def)
  then have "cs_NodeSwaps (cc_Server (lp_World ?l)) sample_key = Some ns" by (simp add: see_MachineConfig_eq others_act_def)
  with d reach sync l(6) show ?thesis unfolding dir by (intro exI [of _ ?l] exI [of _ ns]) (simp add: dir)
qed

section \<open>A pass in the loop\<close>

lemma failures_kept [simp]:
  "rl_failures (wq_Add x q) = rl_failures q" "rl_failures (wq_Done x q) = rl_failures q"
  "rl_failures (dq_AddAfter now x d q) = rl_failures q"
  by (simp_all add: wq_Add_def wq_Done_def dq_AddAfter_def Let_def)

lemma handler_failures:
  "rl_failures (wq_Done key (reconcileHandler now bucket key err q)) key = (case err of Some e \<Rightarrow> Suc (rl_failures q key) | None \<Rightarrow> 0)"
  by (simp add: reconcileHandler_def AddRateLimited_eq rl_Forget_def split: option.split)

text \<open>
  C18: the worker survives every outcome of a pass, a panic included, and is free again. After a pass that
  did not succeed the key waits for a retry, with one failure more counted, however the pass failed;
  after one that did, the count is reset. No other waiting key is lost.
\<close>

theorem failed_pass_is_retried:
  fixes now bucket :: int
  assumes "loop_reachable re rm l" and "lp_Worker l = Some key" and "\<forall>t\<in>set ticks. tick_ok t"
    and "Reconcile re cached_client key (lp_Reconciler l) (with_schedule ticks (lp_World l)) = (res, r, w)"
  defines "l' \<equiv> finish_item re ticks now bucket l"
  shows "lp_Worker l' = None \<and> pending (lp_Queue l) \<subseteq> pending (lp_Queue l')
    \<and> (case res of Ok _ \<Rightarrow> rl_failures (lp_Queue l') key = 0
        | _ \<Rightarrow> key \<in> pending (lp_Queue l') \<and> rl_failures (lp_Queue l') key = Suc (rl_failures (lp_Queue l) key))"
proof -
  note ok = loop_okD [OF reachable_loop_ok [OF assms(1)]]
  have busy: "key \<in> wq_processing (lp_Queue l)" using ok(4) assms(2) by simp
  note q = handler_turn [where now = now and bucket = bucket and err = "recovered res", OF ok(3) busy]
  show ?thesis
    using q(2,3) handler_failures [of key now bucket "recovered res" "lp_Queue l"]
    unfolding l'_def finish_eq [OF assms(2,4)] by (cases res) simp_all
qed

text \<open>A user puts a \<open>NodeSwap\<close> whose file-based swap has no file; the worker takes its key.\<close>

definition bad_ns :: nodeSwap where
  "bad_ns = (sample_ns [])\<lparr>ns_Spec := sample_spec\<lparr>sp_Swaps := [sample_swap\<lparr>sw_File := None\<rparr>]\<rparr>\<rparr>"

definition bad_loop :: loop where
  "bad_loop = take_item (see_NodeSwap sample_mapping sample_key (others_act (EnvPutNodeSwap bad_ns) (sample_loop None)))"

lemma bad_loop_reachable: "loop_reachable re sample_mapping bad_loop"
proof -
  let ?l1 = "others_act (EnvPutNodeSwap bad_ns) (sample_loop None)"
  have "loop_reachable re sample_mapping ?l1"
    using sample_start by (rule loop_reachable.step)
      (rule loop_step.act, simp add: bad_ns_def sample_ns_def conditions_wf_def)
  then have "loop_reachable re sample_mapping (see_NodeSwap sample_mapping sample_key ?l1)"
    by (rule loop_reachable.step) (rule loop_step.see_ns)
  then show ?thesis
    unfolding bad_loop_def
    by (rule loop_reachable.step) (rule loop_step.take, simp add: see_NodeSwap_eq others_act_def sample_loop_def)
qed

lemma bad_loop_fields:
  "lp_Worker bad_loop = Some sample_key" "lp_Queue bad_loop = new_queue\<lparr>wq_processing := {sample_key}\<rparr>"
  "cc_NodeSwaps (lp_World bad_loop) sample_key = Some (stampNodeSwap 2 bad_ns)"
  "cs_Schedule (cc_Server (lp_World bad_loop)) = []"
proof -
  let ?l = "see_NodeSwap sample_mapping sample_key (others_act (EnvPutNodeSwap bad_ns) (sample_loop None))"
  have key: "key_of bad_ns = sample_key" "request_of (ns_Meta (stampNodeSwap 2 bad_ns)) = sample_key"
    by (simp_all add: bad_ns_def sample_ns_def sample_key_def key_of_def request_of_def stampNodeSwap_def)
  have queue: "lp_Queue ?l = wq_Add sample_key new_queue"
    by (simp add: see_NodeSwap_eq others_act_def key sample_loop_def observe_def enqueue_def requests_operator)
      (simp add: sample_cluster_def numeral_2_eq_2 [symmetric] key)
  have "wq_Get (wq_Add sample_key new_queue) = (Item sample_key, new_queue\<lparr>wq_processing := {sample_key}\<rparr>)"
    by (simp add: new_queue_def wq_Add_def wq_Get_def)
  then have take: "bad_loop = ?l\<lparr>lp_Queue := new_queue\<lparr>wq_processing := {sample_key}\<rparr>, lp_Worker := Some sample_key\<rparr>"
    unfolding bad_loop_def take_item_def queue by simp
  show "lp_Worker bad_loop = Some sample_key" "lp_Queue bad_loop = new_queue\<lparr>wq_processing := {sample_key}\<rparr>"
    by (simp_all add: take)
  show "cc_NodeSwaps (lp_World bad_loop) sample_key = Some (stampNodeSwap 2 bad_ns)"
    "cs_Schedule (cc_Server (lp_World bad_loop)) = []"
    by (simp_all add: take see_NodeSwap_eq others_act_def key sample_loop_def) (simp_all add: sample_cluster_def numeral_2_eq_2)
qed

theorem failed_pass_is_retried_witness:
  "\<exists>p. fst (Reconcile sample_renderer cached_client sample_key (lp_Reconciler bad_loop) (lp_World bad_loop)) = Panic p
   \<and> sample_key \<in> pending (lp_Queue (finish_item sample_renderer [] 0 0 bad_loop))
   \<and> rl_failures (lp_Queue (finish_item sample_renderer [] 0 0 bad_loop)) sample_key = 1"
proof -
  have get: "cl_GetNodeSwap cached_client sample_key (lp_World bad_loop) = (Ok (stampNodeSwap 2 bad_ns), lp_World bad_loop)"
    by (simp add: cache_defs bad_loop_fields)
  obtain p where "Create (ns_Spec (stampNodeSwap 2 bad_ns)) = Panic p"
    using Create_panics [of "ns_Spec bad_ns" "[]" "sample_swap\<lparr>sw_File := None\<rparr>" "[]"] by (auto simp: bad_ns_def sample_swap_def)
  from cached.reconcile_panics [OF get this, of sample_renderer "lp_Reconciler bad_loop"] obtain r where
    pass: "Reconcile sample_renderer cached_client sample_key (lp_Reconciler bad_loop) (lp_World bad_loop) = (Panic p, r, lp_World bad_loop)"
    by blast
  then have "Reconcile sample_renderer cached_client sample_key (lp_Reconciler bad_loop)
      (with_schedule [] (lp_World bad_loop)) = (Panic p, r, lp_World bad_loop)"
    by (simp add: with_schedule_id bad_loop_fields(4))
  from failed_pass_is_retried [where now = 0 and bucket = 0, OF bad_loop_reachable bad_loop_fields(1) _ this] pass show ?thesis
    by (simp add: bad_loop_fields new_queue_def)
qed

text \<open>
  C16: a pass that succeeds has reconciled the spec that the server has, although it was read from a
  cache that may be stale and whatever happened during the pass: when \<open>Reconcile\<close> returns without error,
  the stored object has the spec that was read, which is acceptable, and the status of a success. A
  pass over a stale copy therefore fails, and is retried.
\<close>

theorem success_means_current:
  assumes "loop_reachable re rm l" and "\<forall>t\<in>set ticks. tick_ok t" and "cc_NodeSwaps (lp_World l) key = Some ns"
    and "Reconcile re cached_client key r (with_schedule ticks (lp_World l)) = (Ok (), r', w')"
  shows "\<exists>ns' stamps. cs_NodeSwaps (cc_Server w') key = Some ns' \<and> ns_Spec ns' = ns_Spec ns \<and> acceptable (ns_Spec ns)
    \<and> length stamps = length (statusUpdates None (st_Conditions (ns_Status ns)))
    \<and> st_Conditions (ns_Status ns') = status_after None (st_Conditions (ns_Status ns)) stamps"
proof -
  let ?w = "with_schedule ticks (lp_World l)" and ?conds = "st_Conditions (ns_Status ns)"
  have w: "cache_ok ?w" using loop_okD(1) [OF reachable_loop_ok [OF assms(1)]] assms(2) by (rule cache_ok_schedule)
  have c: "cc_NodeSwaps ?w key = Some ns" using assms(3) by simp
  obtain s1 :: cluster and stamps v stored where
    ok: "is_ok (Create (ns_Spec ns))" "is_ok (parseLabelSelector (sp_MachineConfigPoolSelector (ns_Spec ns)))"
    and put: "put_status ns \<lparr>st_Conditions = status_after None ?conds stamps\<rparr> (cs_Revision s1) = (stored, v)"
    and final: "cs_NodeSwaps (cc_Server w') = (cs_NodeSwaps s1)(key \<mapsto> stored)"
    and "length stamps = length (statusUpdates None ?conds)"
    by (rule pass_Ok_stored [OF w c assms(4)])
  then show ?thesis
    using put_status_fields(1,2) [OF put]
    by (intro exI [of _ stored] exI [of _ stamps]) (simp add: acceptable_def)
qed

lemma sample_calm:
  obtains l ns where "calm sample_renderer sample_mapping l" "cs_NodeSwaps (cc_Server (lp_World l)) sample_key = Some ns"
    "cc_NodeSwaps (lp_World l) sample_key = Some ns" "ns_Spec ns = sample_spec" "with_schedule [] (lp_World l) = lp_World l"
proof -
  let ?l = "calm_down sample_renderer sample_mapping [sample_key] [SwapKubeletCgroupsMCPrefix] 0 0 (sample_loop None)"
  note c = calm_down_calm [where rm = sample_mapping and now = 0 and bucket = 0,
      OF sample_start sample_settles]
  have "specs (cc_Server (lp_World (sample_loop None))) sample_key = Some sample_spec"
    by (simp add: specs_def sample_stored sample_ns_def)
  then have "specs (cc_Server (lp_World ?l)) sample_key = Some sample_spec"
    using fun_cong [OF quiet_sinceD(3) [OF c(2)], of sample_key] by (rule trans [rotated])
  then obtain ns where ns: "cs_NodeSwaps (cc_Server (lp_World ?l)) sample_key = Some ns" "ns_Spec ns = sample_spec"
    unfolding specs_def map_option_eq_Some by blast
  moreover have "cc_NodeSwaps (lp_World ?l) sample_key = Some ns" using ns(1) calmD(3) [OF c(1)] by (simp add: in_sync_def)
  moreover have "with_schedule [] (lp_World ?l) = lp_World ?l" by (rule with_schedule_id [OF quiet_sinceD(2) [OF c(2)]])
  ultimately show thesis using that c(1) by blast
qed

theorem success_means_current_witness:
  "\<exists>l r' w' ns'. loop_reachable sample_renderer sample_mapping l
     \<and> Reconcile sample_renderer cached_client sample_key (lp_Reconciler l) (lp_World l) = (Ok (), r', w')
     \<and> cs_NodeSwaps (cc_Server w') sample_key = Some ns' \<and> ns_Spec ns' = sample_spec"
proof -
  obtain l ns where l: "calm sample_renderer sample_mapping l" "cc_NodeSwaps (lp_World l) sample_key = Some ns"
    "ns_Spec ns = sample_spec" "with_schedule [] (lp_World l) = lp_World l"
    by (rule sample_calm)
  obtain r' w' where pass: "Reconcile sample_renderer cached_client sample_key (lp_Reconciler l) (lp_World l) = (Ok (), r', w')"
    by (rule calm_pass [OF l(1), of sample_key])
  then have "Reconcile sample_renderer cached_client sample_key (lp_Reconciler l) (with_schedule [] (lp_World l)) = (Ok (), r', w')"
    by (simp add: l(4))
  from success_means_current [OF calmD(1) [OF l(1)] _ l(2) this] l(1,3) pass show ?thesis using calmD(1) by auto
qed

text \<open>
  The cached client implements the API server's own: when nothing disturbs the calls and the caches
  have caught up, a pass with the cached client returns what a pass that reads from the server returns,
  leaves the same reconciler and the same server, and leaves the caches alone.
\<close>

theorem cached_pass_refines_server_pass:
  assumes "cs_Schedule (cc_Server w) = []" and "cc_NodeSwaps w = cs_NodeSwaps (cc_Server w)"
    and "cc_MachineConfigs w = cs_MachineConfigs (cc_Server w)" and "cc_Pools w = cs_Pools (cc_Server w)"
  shows "Reconcile re cached_client key r w =
    (case Reconcile re api_server key r (cc_Server w) of (res, r', s) \<Rightarrow> (res, r', w\<lparr>cc_Server := s\<rparr>))"
  by (rule reconcile_live [OF assms(1)]) (simp add: in_sync_def assms(2-4))

theorem cached_pass_refines_server_pass_witness:
  "\<exists>w. fst (Reconcile sample_renderer cached_client sample_key sample_reconciler w) = Ok ()
     \<and> cc_Server w = sample_cluster [] \<and> cc_Pools w = [sample_pool]"
proof -
  let ?s = "sample_cluster []"
  let ?w = "\<lparr>cc_Server = ?s, cc_NodeSwaps = cs_NodeSwaps ?s, cc_MachineConfigs = cs_MachineConfigs ?s, cc_Pools = cs_Pools ?s\<rparr>"
  have ns: "cs_NodeSwaps ?s sample_key = Some (sample_ns [])" by (simp add: sample_cluster_def)
  obtain r' s' where "Reconcile sample_renderer api_server sample_key sample_reconciler ?s = (Ok (), r', s')"
    using healthy_pass [OF sample_healthy _ ns, of sample_reconciler] by (auto simp: sample_reconciler_def)
  then have "fst (Reconcile sample_renderer cached_client sample_key sample_reconciler ?w) = Ok ()"
    using cached_pass_refines_server_pass [of ?w sample_renderer sample_key sample_reconciler] by (simp add: sample_cluster_def)
  then show ?thesis by (intro exI [of _ ?w]) (simp add: sample_cluster_def)
qed

section \<open>Who writes\<close>

lemma quiet_steps:
  "server_writes (lp_World (others_act a l)) = server_writes (lp_World l)"
  "server_writes (lp_World (see_NodeSwap rm key l)) = server_writes (lp_World l)"
  "server_writes (lp_World (see_MachineConfig rm name l)) = server_writes (lp_World l)"
  "server_writes (lp_World (see_Pools rm l)) = server_writes (lp_World l)"
  "server_writes (lp_World (take_item l)) = server_writes (lp_World l)"
  by (cases a; simp add: server_writes_def others_act_def see_NodeSwap_eq see_MachineConfig_eq take_item_def
      split: prod.split got.split)+

lemma finish_writes:
  assumes "loop_reachable re rm l" and "lp_Worker l = Some key" and "\<forall>t\<in>set ticks. tick_ok t"
  obtains new where "server_writes (lp_World (finish_item re ticks now bucket l)) = server_writes (lp_World l) @ new"
    "length new \<le> 2" "\<forall>x\<in>set new. write_ok x \<and> (case x of CreatedMachineConfig mc \<Rightarrow> True | UpdatedStatus k st \<Rightarrow> k = key)"
proof -
  let ?w = "with_schedule ticks (lp_World l)"
  have w: "cache_ok ?w" using loop_okD(1) [OF reachable_loop_ok [OF assms(1)]] assms(3) by (rule cache_ok_schedule)
  obtain res r w' where run: "Reconcile re cached_client key (lp_Reconciler l) ?w = (res, r, w')" by (metis prod_cases3)
  obtain mcs sts where ws: "server_writes w' = server_writes ?w @ mcs @ sts" "length mcs \<le> 1" "length sts \<le> 1"
    "\<forall>x\<in>set mcs. \<exists>mc. x = CreatedMachineConfig mc"
    "\<forall>x\<in>set sts. \<exists>ns st. fst (cl_GetNodeSwap cached_client key ?w) = Ok ns \<and> x = UpdatedStatus (key_of ns) st"
    using cached.reconcile_writes [OF run] by blast
  have "cluster_ok (cc_Server w')" by (rule cache_okD(1) [OF duringD(1) [OF pass_keeps [OF w run]]])
  then have ok: "\<forall>x\<in>set (mcs @ sts). write_ok x"
    using ws(1) unfolding cluster_ok_def by (simp add: server_writes_def)
  have "k = key" if upd: "UpdatedStatus k st \<in> set sts" for k st
  proof -
    obtain ns where "cc_NodeSwaps (lp_World l) key = Some ns" "k = key_of ns"
      using bspec [OF ws(5) upd] by (auto simp: cache_defs split: option.splits)
    then show ?thesis using cache_okD(2) [OF w, of key ns] by simp
  qed
  then have "\<forall>x\<in>set (mcs @ sts). case x of CreatedMachineConfig mc \<Rightarrow> True | UpdatedStatus k st \<Rightarrow> k = key"
    using ws(4) by (auto split: api_write.split)
  moreover have "server_writes (lp_World (finish_item re ticks now bucket l)) = server_writes (lp_World l) @ mcs @ sts"
    using ws(1) unfolding finish_eq [OF assms(2) run] by (simp add: server_writes_def with_schedule_def)
  ultimately show thesis using that [of "mcs @ sts"] ok ws(2,3) by simp
qed

text \<open>
  C19: in every run only the worker writes, and only when it ends a pass: a step of the loop adds at most
  two writes to the server, each the operator's own machine config or a consistent report, and the
  report is that of the key which the worker held; every other step of the operator writes nothing.
\<close>

theorem only_the_worker_writes:
  assumes "loop_reachable re rm l" and "loop_step re rm l l'"
  shows "\<exists>new. server_writes (lp_World l') = server_writes (lp_World l) @ new \<and> length new \<le> 2
    \<and> (\<forall>x\<in>set new. lp_Worker l' = None \<and> (case x of
          CreatedMachineConfig mc \<Rightarrow> lp_Worker l \<noteq> None \<and> own_machine_config mc
        | UpdatedStatus k st \<Rightarrow> lp_Worker l = Some k \<and> report_ok (st_Conditions st)))"
  using assms(2)
proof (cases rule: loop_step.cases)
  case (finish ticks now bucket)
  show ?thesis
  proof (cases "lp_Worker l")
    case (Some key)
    obtain new where "server_writes (lp_World l') = server_writes (lp_World l) @ new" "length new \<le> 2"
      "\<forall>x\<in>set new. write_ok x \<and> (case x of CreatedMachineConfig mc \<Rightarrow> True | UpdatedStatus k st \<Rightarrow> k = key)"
      using finish_writes [OF assms(1) Some finish(2), of now bucket] unfolding finish(1) by blast
    moreover have "lp_Worker l' = None" unfolding finish(1) by (simp add: finish_item_def Some split: prod.split)
    ultimately show ?thesis using Some by (intro exI [of _ new]) (auto simp: write_ok_def split: api_write.splits)
  qed (simp add: finish(1) finish_item_def)
qed (simp_all add: quiet_steps server_writes_def [of "_\<lparr>cc_Pools := _\<rparr>"], simp add: server_writes_def)

theorem only_the_worker_writes_witness:
  "\<exists>new. server_writes (lp_World (finish_item sample_renderer [] 0 0 bad_loop)) = server_writes (lp_World bad_loop) @ new
     \<and> length new \<le> 2"
  using only_the_worker_writes [OF bad_loop_reachable loop_step.finish [of "[]" sample_renderer sample_mapping bad_loop 0 0]]
  by auto

section \<open>The watches of the operator\<close>

text \<open>
  With the scheme that the command's \<open>init\<close> builds, \<open>SetupWithManager\<close> succeeds and leaves exactly
  three watches: \<open>NodeSwap\<close> and \<open>MachineConfigPool\<close> objects by their own key, \<open>MachineConfig\<close> objects by
  the key of their controlling owner of kind \<open>NodeSwap\<close>; with a scheme that does not know \<open>NodeSwap\<close> it
  returns an error.
\<close>

theorem operator_watches_set_up:
  assumes "clientgo NewScheme = Ok s0" and "foreign_scheme s0"
  shows "(\<exists>s. main_init clientgo = Ok s \<and> SetupWithManager s =
      Ok [\<lparr>wa_Object = nodeSwapType ''NodeSwap'', wa_Handler = ForObject\<rparr>,
          \<lparr>wa_Object = mcfgType ''MachineConfig'',
           wa_Handler = ForOwner \<lparr>gr_Group = ''node-swap.openshift.io'', gr_Kind = ''NodeSwap''\<rparr> True\<rparr>,
          \<lparr>wa_Object = mcfgType ''MachineConfigPool'', wa_Handler = ForObject\<rparr>])
    \<and> (\<exists>e. SetupWithManager s0 = Err e)"
proof -
  have none: "kinds_of s0 (nodeSwapType ''NodeSwap'') = []" using assms(2) by (simp add: foreign_scheme_def)
  obtain s where s: "main_init clientgo = Ok s"
    and known: "only_kind s (nodeSwapType ''NodeSwap'') (WithKind GroupVersion ''NodeSwap'')"
  proof (rule main_init_Ok [of clientgo s0, OF assms])
    fix s
    assume "main_init clientgo = Ok s"
      "\<And>t. t \<in> set [nodeSwapType ''NodeSwap'', nodeSwapType ''NodeSwapList''] \<Longrightarrow> only_kind s t (WithKind GroupVersion (snd t))"
    from that [OF this(1)] this(2) [of "nodeSwapType ''NodeSwap''"] show thesis by simp
  qed
  from SetupWithManager_known [OF known] s SetupWithManager_unknown [OF none] show ?thesis
    unfolding operator_watches_def nodeSwap_kind_def by (intro conjI exI [of _ s])
qed

theorem operator_watches_set_up_witness:
  "\<exists>s. main_init sample_clientgo = Ok s \<and> SetupWithManager s = Ok operator_watches"
proof -
  obtain s0 where s0: "sample_clientgo NewScheme = Ok s0" "foreign_scheme s0" using sample_clientgo_foreign by blast
  from operator_watches_set_up [of sample_clientgo s0, OF s0] show ?thesis
    unfolding operator_watches_def nodeSwap_kind_def by (rule conjunct1)
qed

end
