(* ===== verification/InfDec.thy ===== *)
theory InfDec
  imports Quantity
begin

text \<open>
  The decimals of \<open>src/vendor/gopkg.in/inf.v0\<close> as far as parsing a quantity uses them: an unbounded
  unscaled integer with a scale, the number of decimal places. A scale is an \<open>int32\<close>, whose
  arithmetic wraps; the powers of ten are read from a table by an index that is not checked for its
  sign, so a shift that wrapped to the least \<open>int32\<close> is a panic.
\<close>

section \<open>32-bit scales\<close>

definition wrap32 :: "int \<Rightarrow> int" where
  "wrap32 i = signed_take_bit 31 i"

lemma wrap32_id [simp]: "- (2 ^ 31) \<le> i \<Longrightarrow> i < 2 ^ 31 \<Longrightarrow> wrap32 i = i"
  by (simp add: wrap32_def signed_take_bit_int_eq_self)

lemma wrap32_range: "- (2 ^ 31) \<le> wrap32 i" "wrap32 i < 2 ^ 31"
  using signed_take_bit_int_greater_eq_minus_exp [of 31 i] signed_take_bit_int_less_exp [of 31 i]
  by (simp_all add: wrap32_def)

lemma wrap32_minus: "wrap32 (- wrap32 i) = wrap32 (- i)"
  by (simp add: wrap32_def signed_take_bit_minus)

lemma wrap32_add: "wrap32 (wrap32 i + j) = wrap32 (i + j)" "wrap32 (i + wrap32 j) = wrap32 (i + j)"
  by (simp_all add: wrap32_def)
     (metis signed_take_bit_add signed_take_bit_signed_take_bit min.idem)+

lemma wrap32_diff: "wrap32 (wrap32 i - j) = wrap32 (i - j)" "wrap32 (i - wrap32 j) = wrap32 (i - j)"
  using wrap32_add(1) [of i "- j"] wrap32_add(2) [of i "- j"] wrap32_minus [of j] wrap32_add(2) [of i "- wrap32 j"]
  by simp_all

lemma wrap32_period: "wrap32 (i + 2 ^ 32) = wrap32 i"
proof -
  have "wrap32 (2 ^ 32) = 0" by (simp add: wrap32_def)
  then show ?thesis using wrap32_add(2) [of i "2 ^ 32"] by simp
qed

section \<open>Decimals\<close>

record dec =
  dec_unscaled :: int
  dec_scale :: int

definition exp10 :: "int \<Rightarrow> int result" where
  "exp10 x =
     (if x < 0 then Panic (PanicText ''runtime error: index out of range'') else Ok (10 ^ nat x))"

definition dec_SetScale :: "int \<Rightarrow> dec \<Rightarrow> dec" where
  "dec_SetScale sc d = d\<lparr>dec_scale := sc\<rparr>"

definition dec_Sign :: "dec \<Rightarrow> int" where
  "dec_Sign d = sgn (dec_unscaled d)"

definition dec_Neg :: "dec \<Rightarrow> dec" where
  "dec_Neg d = d\<lparr>dec_unscaled := - dec_unscaled d\<rparr>"

text \<open>\<open>Unscaled\<close>: the low 64 bits, and whether they are the whole value.\<close>

definition dec_Unscaled :: "dec \<Rightarrow> int64 \<times> bool" where
  "dec_Unscaled d =
     (let u = word_of_int (dec_unscaled d) in (u, sint u = dec_unscaled d))"

definition dec_rescale :: "dec \<Rightarrow> int \<Rightarrow> dec result" where
  "dec_rescale x newScale =
     (let shift = wrap32 (newScale - dec_scale x) in
      if shift < 0 then
        rbind (exp10 (wrap32 (- shift))) (\<lambda>e. Ok \<lparr>dec_unscaled = dec_unscaled x sdiv e, dec_scale = newScale\<rparr>)
      else if shift > 0 then
        rbind (exp10 shift) (\<lambda>e. Ok \<lparr>dec_unscaled = dec_unscaled x * e, dec_scale = newScale\<rparr>)
      else Ok x)"

definition dec_upscale :: "dec \<Rightarrow> dec \<Rightarrow> (dec \<times> dec) result" where
  "dec_upscale a b =
     (if dec_scale a = dec_scale b then Ok (a, b)
      else if dec_scale a > dec_scale b then rbind (dec_rescale b (dec_scale a)) (\<lambda>bb. Ok (a, bb))
      else rbind (dec_rescale a (dec_scale b)) (\<lambda>aa. Ok (aa, b)))"

definition dec_Cmp :: "dec \<Rightarrow> dec \<Rightarrow> int result" where
  "dec_Cmp x y =
     rbind (dec_upscale x y) (\<lambda>(xx, yy). Ok (sgn (dec_unscaled xx - dec_unscaled yy)))"

text \<open>\<open>quoRem\<close> with the remainder, as \<open>quo\<close> calls it for a rounder that uses it.\<close>

definition dec_quoRem :: "dec \<Rightarrow> dec \<Rightarrow> int \<Rightarrow> (dec \<times> int \<times> int) result" where
  "dec_quoRem x y s =
     (let shift = wrap32 (s - wrap32 (dec_scale x - dec_scale y)) in
      rbind (if shift > 0 then rbind (exp10 shift) (\<lambda>e. Ok (dec_unscaled x * e, dec_unscaled y))
             else if shift < 0 then rbind (exp10 (wrap32 (- shift))) (\<lambda>e. Ok (dec_unscaled x, dec_unscaled y * e))
             else Ok (dec_unscaled x, dec_unscaled y))
      (\<lambda>(ix, iy).
         if iy = 0 then Panic (PanicText ''division by zero'')
         else Ok (\<lparr>dec_unscaled = ix sdiv iy, dec_scale = s\<rparr>, ix smod iy, iy)))"

text \<open>The rounder \<open>RoundUp\<close>: away from zero.\<close>

definition RoundUp :: "dec \<Rightarrow> int \<Rightarrow> int \<Rightarrow> dec" where
  "RoundUp q rA rB =
     (if sgn rA \<noteq> 0 then q\<lparr>dec_unscaled := dec_unscaled q + sgn rA * sgn rB\<rparr> else q)"

definition dec_Round :: "dec \<Rightarrow> int \<Rightarrow> (dec \<Rightarrow> int \<Rightarrow> int \<Rightarrow> dec) \<Rightarrow> dec result" where
  "dec_Round x s r =
     rbind (dec_quoRem x \<lparr>dec_unscaled = 1, dec_scale = 0\<rparr> s) (\<lambda>(zz, rA, rB). Ok (r zz rA rB))"

section \<open>Reading a decimal\<close>

text \<open>
  The loop of \<open>scan\<close> over the bytes (a rune that is not ASCII leaves it as any other byte does): the
  bytes of the unscaled number read so far, where the decimal point was, whether there was a digit.
\<close>

fun dec_scan_loop :: "string \<Rightarrow> nat option \<Rightarrow> bool \<Rightarrow> string \<Rightarrow> string \<times> nat option \<times> bool \<times> string" where
  "dec_scan_loop unscaled dp dg [] = (unscaled, dp, dg, [])"
| "dec_scan_loop unscaled dp dg (ch # r) =
     (if ch = CHR ''+'' \<or> ch = CHR ''-'' then
        (if length unscaled > 0 \<or> dp \<noteq> None then (unscaled, dp, dg, ch # r)
         else dec_scan_loop (unscaled @ [ch]) dp dg r)
      else if ch = CHR ''.'' then
        (if dp \<noteq> None then (unscaled, dp, dg, ch # r)
         else dec_scan_loop unscaled (Some (length unscaled)) dg r)
      else if is_digit ch then dec_scan_loop (unscaled @ [ch]) dp True r
      else (unscaled, dp, dg, ch # r))"

text \<open>\<open>big.Int.SetString(s, 10)\<close>.\<close>

definition big_SetString :: "string \<Rightarrow> int option" where
  "big_SetString s =
     (case s of
        [] \<Rightarrow> None
      | c # cs \<Rightarrow>
          let neg = (c = CHR ''-''); ds = (if neg \<or> c = CHR ''+'' then cs else s) in
          map_option (\<lambda>n. if neg then - int n else int n) (parse_nat ds))"

definition dec_scan :: "string \<Rightarrow> (dec \<times> string) option" where
  "dec_scan s =
     (case dec_scan_loop [] None False s of (unscaled, dp, dg, r) \<Rightarrow>
        if \<not> dg then None
        else
          let sc = (case dp of Some d \<Rightarrow> wrap32 (int (length unscaled) - int d) | None \<Rightarrow> 0) in
          (case big_SetString unscaled of
             None \<Rightarrow> None
           | Some i \<Rightarrow> Some (\<lparr>dec_unscaled = i, dec_scale = sc\<rparr>, r)))"

definition dec_SetString :: "string \<Rightarrow> dec option" where
  "dec_SetString s = (case dec_scan s of Some (d, []) \<Rightarrow> Some d | _ \<Rightarrow> None)"

end
