(* ===== verification/QuantityParse.thy ===== *)
theory QuantityParse
  imports InfDec
begin

text \<open>
  How the size in the text of a \<open>NodeSwap\<close> becomes a \<open>resource.Quantity\<close>: the suffix tables
  (\<open>suffix.go\<close>), the scanner \<open>parseQuantityString\<close>, \<open>ParseQuantity\<close> with its two ways (64-bit numbers
  where the digits fit, \<open>inf.Dec\<close> otherwise) and \<open>UnmarshalJSON\<close>, from the copy of
  \<open>k8s.io/apimachinery/pkg/api/resource\<close> under \<open>src/vendor\<close>. Positions in the text are kept as the
  code keeps them, as indices.
\<close>

section \<open>Suffixes\<close>

datatype format = DecimalExponent | BinarySI | DecimalSI

type_synonym bePair = "int \<times> int"

record listSuffixer =
  ls_suffixToBE :: "string \<rightharpoonup> bePair"
  ls_beToSuffix :: "bePair \<rightharpoonup> string"

definition addSuffix :: "string \<Rightarrow> bePair \<Rightarrow> listSuffixer \<Rightarrow> listSuffixer" where
  "addSuffix s pair ls =
     ls\<lparr>ls_suffixToBE := (ls_suffixToBE ls)(s \<mapsto> pair), ls_beToSuffix := (ls_beToSuffix ls)(pair \<mapsto> s)\<rparr>"

definition suffixer_lookup :: "listSuffixer \<Rightarrow> string \<Rightarrow> bePair option" where
  "suffixer_lookup ls s = ls_suffixToBE ls s"

definition no_suffixes :: listSuffixer where
  "no_suffixes = \<lparr>ls_suffixToBE = Map.empty, ls_beToSuffix = Map.empty\<rparr>"

definition binSuffixes :: listSuffixer where
  "binSuffixes =
     fold (\<lambda>(s, pair). addSuffix s pair)
       [(''Ki'', 2, 10), (''Mi'', 2, 20), (''Gi'', 2, 30), (''Ti'', 2, 40), (''Pi'', 2, 50), (''Ei'', 2, 60)]
       no_suffixes"

definition decSuffixes :: listSuffixer where
  "decSuffixes =
     fold (\<lambda>(s, pair). addSuffix s pair)
       [([], 2, 0), (''n'', 10, - 9), (''u'', 10, - 6), (''m'', 10, - 3), ([], 10, 0), (''k'', 10, 3),
        (''M'', 10, 6), (''G'', 10, 9), (''T'', 10, 12), (''P'', 10, 15), (''E'', 10, 18)]
       no_suffixes"

text \<open>\<open>suffixHandler.interpret\<close>: base, exponent and format of a suffix, \<open>None\<close> for one it refuses.\<close>

definition handler_interpret :: "string \<Rightarrow> (int \<times> int \<times> format) option" where
  "handler_interpret suf =
     (case suffixer_lookup decSuffixes suf of
        Some (b, e) \<Rightarrow> Some (b, e, DecimalSI)
      | None \<Rightarrow>
          (case suffixer_lookup binSuffixes suf of
             Some (b, e) \<Rightarrow> Some (b, e, BinarySI)
           | None \<Rightarrow>
               if length suf > 1 \<and> (hd suf = CHR ''E'' \<or> hd suf = CHR ''e'')
               then map_option (\<lambda>parsed. (10, wrap32 parsed, DecimalExponent)) (parse_int64 (tl suf))
               else None))"

definition interpret_suffix :: "string \<Rightarrow> (int \<times> int \<times> format) option" where
  "interpret_suffix s =
     (if s = [] then Some (10, 0, DecimalSI)
      else if s = ''n'' then Some (10, - 9, DecimalSI)
      else if s = ''u'' then Some (10, - 6, DecimalSI)
      else if s = ''m'' then Some (10, - 3, DecimalSI)
      else if s = ''k'' then Some (10, 3, DecimalSI)
      else if s = ''M'' then Some (10, 6, DecimalSI)
      else if s = ''G'' then Some (10, 9, DecimalSI)
      else handler_interpret s)"

section \<open>The scanner\<close>

text \<open>A loop that advances a position over the bytes with a property; a substr of a string.\<close>

definition scan_from :: "(char \<Rightarrow> bool) \<Rightarrow> string \<Rightarrow> nat \<Rightarrow> nat" where
  "scan_from P s i = i + length (takeWhile P (drop i s))"

definition substr :: "string \<Rightarrow> nat \<Rightarrow> nat \<Rightarrow> string" where
  "substr s i j = take (j - i) (drop i s)"

definition suffix_letter :: "char \<Rightarrow> bool" where
  "suffix_letter c \<longleftrightarrow> c \<in> set ''eEinumkKMGTP''"

record scanned =
  sc_positive :: bool
  sc_value :: string
  sc_num :: string
  sc_denom :: string
  sc_suffix :: string

definition ErrFormatWrong :: error where
  "ErrFormatWrong =
     ErrText (''quantities must match the regular expression '' @ [CHR 0x27]
       @ ''^([+-]?[0-9.]+)([eEinumkKMGTP]*[-+]?[0-9]*)$'' @ [CHR 0x27])"

definition ErrNumeric :: error where
  "ErrNumeric = ErrText ''unable to parse numeric part of quantity''"

definition ErrSuffix :: error where
  "ErrSuffix = ErrText ''unable to parse quantity's suffix''"

text \<open>The part of \<open>parseQuantityString\<close> after the number: \<open>pos\<close> is where the suffix starts.\<close>

definition scan_suffix :: "bool \<Rightarrow> string \<Rightarrow> string \<Rightarrow> string \<Rightarrow> nat \<Rightarrow> scanned result" where
  "scan_suffix positive num denom str suffixStart =
     (let end = length str;
          result = \<lparr>sc_positive = positive, sc_value = take suffixStart str, sc_num = num, sc_denom = denom,
                    sc_suffix = substr str suffixStart end\<rparr>;
          pos = scan_from suffix_letter str suffixStart
      in if pos \<ge> end then Ok result
         else
           let pos = (if str ! pos = CHR ''-'' \<or> str ! pos = CHR ''+'' then pos + 1 else pos);
               i = scan_from is_digit str pos
           in if i \<ge> end then Ok result else Err ErrFormatWrong)"

definition parseQuantityString :: "string \<Rightarrow> scanned result" where
  "parseQuantityString str =
     (let end = length str;
          positive = \<not> (0 < end \<and> str ! 0 = CHR ''-'');
          pos = (if 0 < end \<and> (str ! 0 = CHR ''-'' \<or> str ! 0 = CHR ''+'') then 1 else 0);
          pos = scan_from (\<lambda>c. c = CHR ''0'') str pos
      in if pos \<ge> end
         then Ok \<lparr>sc_positive = positive, sc_value = ''0'', sc_num = ''0'', sc_denom = [], sc_suffix = []\<rparr>
         else
           let i = scan_from is_digit str pos in
           if i \<ge> end
           then Ok \<lparr>sc_positive = positive, sc_value = str, sc_num = substr str pos end, sc_denom = [], sc_suffix = []\<rparr>
           else
             let num = substr str pos i; pos = i;
                 num = (if num = [] then ''0'' else num)
             in if pos < end \<and> str ! pos = CHR ''.''
                then
                  let pos = pos + 1; i = scan_from is_digit str pos in
                  if i \<ge> end
                  then Ok \<lparr>sc_positive = positive, sc_value = str, sc_num = num, sc_denom = substr str pos end, sc_suffix = []\<rparr>
                  else scan_suffix positive num (substr str pos i) str i
                else scan_suffix positive num [] str pos)"

section \<open>Parsing\<close>

text \<open>A quantity as the package keeps it: the amount, the format, and the text when it is canonical.\<close>

record parsed_quantity =
  pq_amount :: amount
  pq_format :: format
  pq_s :: string

definition int64Multiply :: "int64 \<Rightarrow> int64 \<Rightarrow> int64 \<times> bool" where
  "int64Multiply a b =
     (if a = 0 \<or> b = 0 \<or> a = 1 \<or> b = 1 then (a * b, True)
      else if a = mostNegative \<or> b = mostNegative then (0, False)
      else let c = a * b in (c, go_div c b = a))"

definition maxAllowed :: dec where
  "maxAllowed = \<lparr>dec_unscaled = 2 ^ 63 - 1, dec_scale = 0\<rparr>"

text \<open>
  Scale, precision and mantissa of the first way. \<open>int32(float32(exponent) * 3 / 10)\<close> is exact: the
  exponents of the binary suffixes are multiples of ten.
\<close>

definition fast_plan :: "format \<Rightarrow> int \<Rightarrow> string \<Rightarrow> string \<Rightarrow> int \<times> int \<times> int64" where
  "fast_plan fmt exponent num denom =
     (case fmt of
        BinarySI \<Rightarrow>
          if exponent \<ge> 0 \<and> length denom = 0
          then (wrap32 (wrap32 (15 - wrap32 (int (length num))) - exponent * 3 div 10 - 1), 0, push_bit (nat exponent) 1)
          else (- 1, 0, 1)
      | _ \<Rightarrow> (wrap32 (18 - wrap32 (int (length num + length denom))), exponent, 1))"

text \<open>The first way, after \<open>scale\<close> was lowered by the number of decimals; \<open>None\<close>: it overflows.\<close>

definition parse_fast :: "string \<Rightarrow> scanned \<Rightarrow> int \<Rightarrow> format \<Rightarrow> int \<Rightarrow> int64 \<Rightarrow> parsed_quantity result option" where
  "parse_fast str sc exponent fmt scale mantissa =
     (let shifted = sc_num sc @ sc_denom sc in
      (case parse_int64 shifted of
         None \<Rightarrow> Some (Err ErrNumeric)
       | Some i \<Rightarrow>
           let v = word_of_int i; (result, ok) = int64Multiply v mantissa in
           if \<not> ok then None
           else
             let result = (if \<not> sc_positive sc then - result else result);
                 canonical =
                   (case fmt of
                      BinarySI \<Rightarrow> exponent mod 10 = 0 \<and> and v 7 \<noteq> 0
                    | _ \<Rightarrow> scale mod 3 = 0 \<and> \<not> (length shifted \<ge> 3 \<and> drop (length shifted - 3) shifted = ''000'')
                             \<and> take 1 shifted \<noteq> ''0'')
             in Some (Ok \<lparr>pq_amount = Int64Amount result scale, pq_format = fmt,
                          pq_s = (if canonical then str else [])\<rparr>)))"

text \<open>The cap and the change of format of small binary quantities, on the amount without its sign.\<close>

definition parse_cap :: "format \<Rightarrow> dec \<Rightarrow> (dec \<times> format) result" where
  "parse_cap fmt amount =
     (if fmt \<noteq> BinarySI then Ok (amount, fmt)
      else
        rbind (dec_Cmp amount maxAllowed) (\<lambda>c.
          let amount = (if c > 0 then maxAllowed else amount) in
          rbind (dec_Cmp amount \<lparr>dec_unscaled = 1, dec_scale = 0\<rparr>) (\<lambda>one.
          if one \<ge> 0 then Ok (amount, fmt)
          else
            rbind (dec_Cmp amount \<lparr>dec_unscaled = 0, dec_scale = 0\<rparr>) (\<lambda>zero.
            Ok (amount, if zero > 0 then DecimalSI else fmt)))))"

definition parse_slow :: "scanned \<Rightarrow> int \<Rightarrow> int \<Rightarrow> format \<Rightarrow> parsed_quantity result" where
  "parse_slow sc base exponent fmt =
     (case dec_SetString (sc_value sc) of
        None \<Rightarrow> Err ErrNumeric
      | Some amount \<Rightarrow>
          let amount =
                (if base = 10 then dec_SetScale (wrap32 (dec_scale amount + wrap32 (- exponent))) amount
                 else if base = 2 then amount\<lparr>dec_unscaled := dec_unscaled amount * push_bit (nat exponent) 1\<rparr>
                 else amount);
              sign = dec_Sign amount;
              amount = (if sign = - 1 then dec_Neg amount else amount);
              (v, ok) = dec_Unscaled amount
          in rbind (if v \<noteq> 0 \<or> \<not> ok then dec_Round amount 9 RoundUp else Ok amount) (\<lambda>amount.
             rbind (parse_cap fmt amount) (\<lambda>(amount, fmt).
             let amount = (if sign = - 1 then dec_Neg amount else amount) in
             Ok \<lparr>pq_amount = InfDecAmount (dec_unscaled amount) (dec_scale amount), pq_format = fmt, pq_s = []\<rparr>)))"

definition ParseQuantity :: "string \<Rightarrow> parsed_quantity result" where
  "ParseQuantity str =
     (if length str = 0 then Err ErrFormatWrong
      else if str = ''0'' then Ok \<lparr>pq_amount = Int64Amount 0 0, pq_format = DecimalSI, pq_s = str\<rparr>
      else
        rbind (parseQuantityString str) (\<lambda>sc.
        case interpret_suffix (sc_suffix sc) of
          None \<Rightarrow> Err ErrSuffix
        | Some (base, exponent, fmt) \<Rightarrow>
            (case fast_plan fmt exponent (sc_num sc) (sc_denom sc) of
               (precision, scale, mantissa) \<Rightarrow>
                 let scale = wrap32 (scale - wrap32 (int (length (sc_denom sc)))) in
                 if precision \<ge> 0 \<and> scale \<ge> - 9
                 then
                   (case parse_fast str sc exponent fmt scale mantissa of
                      Some r \<Rightarrow> r
                    | None \<Rightarrow> parse_slow sc base exponent fmt)
                 else parse_slow sc base exponent fmt)))"

text \<open>\<open>UnmarshalJSON\<close>: what the field holds afterwards, given what it held before.\<close>

definition UnmarshalJSON :: "string \<Rightarrow> parsed_quantity \<Rightarrow> parsed_quantity result" where
  "UnmarshalJSON bytes q =
     (if bytes = ''null'' then Ok (q\<lparr>pq_amount := Int64Amount 0 0\<rparr>)
      else
        let l = length bytes; quo = CHR 0x22;
            body = (if l \<ge> 2 \<and> bytes ! 0 = quo \<and> bytes ! (l - 1) = quo then substr bytes 1 (l - 1) else bytes)
        in ParseQuantity (trim_space body))"

end
