(* ===== verification/QuantityScan.thy ===== *)
theory QuantityScan
  imports QuantityParse
begin

text \<open>
  The syntax of a quantity as an inductive definition, and the lemmas that the scanner
  \<open>parseQuantityString\<close> accepts exactly this syntax and takes a text apart as its rules say.
\<close>

section \<open>The syntax\<close>

definition digits :: "string \<Rightarrow> bool" where
  "digits s \<longleftrightarrow> (\<forall>c\<in>set s. is_digit c)"

definition sign_text :: "string \<Rightarrow> bool" where
  "sign_text s \<longleftrightarrow> s = [] \<or> s = ''+'' \<or> s = ''-''"

definition starts_with :: "(char \<Rightarrow> bool) \<Rightarrow> string \<Rightarrow> bool" where
  "starts_with P s \<longleftrightarrow> (case s of [] \<Rightarrow> False | c # _ \<Rightarrow> P c)"

definition sign_char :: "char \<Rightarrow> bool" where
  "sign_char c \<longleftrightarrow> c = CHR ''+'' \<or> c = CHR ''-''"

definition suffix_form :: "string \<Rightarrow> bool" where
  "suffix_form r \<longleftrightarrow>
     (let r' = dropWhile suffix_letter r
      in digits (if starts_with sign_char r' then tl r' else r'))"

definition num_part :: "string \<Rightarrow> string" where
  "num_part ds = (let n = dropWhile (\<lambda>c. c = CHR ''0'') ds in if n = [] then ''0'' else n)"

definition blank_scan :: "string \<Rightarrow> scanned" where
  "blank_scan sg =
     \<lparr>sc_positive = (sg \<noteq> ''-''), sc_value = ''0'', sc_num = ''0'', sc_denom = [], sc_suffix = []\<rparr>"

definition full_scan :: "string \<Rightarrow> string \<Rightarrow> string \<Rightarrow> string \<Rightarrow> string \<Rightarrow> scanned" where
  "full_scan sg ds point fs suf =
     \<lparr>sc_positive = (sg \<noteq> ''-''), sc_value = sg @ ds @ point @ fs, sc_num = num_part ds, sc_denom = fs,
      sc_suffix = suf\<rparr>"

text \<open>
  A sign, digits and a suffix, or a sign, digits, a point, digits and a suffix. The suffix begins with
  the first byte that is no digit, and a sign in front of it is the sign of the number.
\<close>

inductive quantity_form :: "string \<Rightarrow> scanned \<Rightarrow> bool" where
  Blank: "sign_text sg \<Longrightarrow> set ds \<subseteq> {CHR ''0''} \<Longrightarrow> quantity_form (sg @ ds) (blank_scan sg)"
| Whole: "sign_text sg \<Longrightarrow> digits ds \<Longrightarrow> suf = [] \<longrightarrow> \<not> set ds \<subseteq> {CHR ''0''} \<Longrightarrow>
    \<not> starts_with (\<lambda>c. is_digit c \<or> c = CHR ''.'') suf \<Longrightarrow>
    sg = [] \<and> ds = [] \<longrightarrow> \<not> starts_with sign_char suf \<Longrightarrow> suffix_form suf \<Longrightarrow>
    quantity_form (sg @ ds @ suf) (full_scan sg ds [] [] suf)"
| Fraction: "sign_text sg \<Longrightarrow> digits ds \<Longrightarrow> digits fs \<Longrightarrow> \<not> starts_with is_digit suf \<Longrightarrow> suffix_form suf \<Longrightarrow>
    quantity_form (sg @ ds @ ''.'' @ fs @ suf) (full_scan sg ds ''.'' fs suf)"

section \<open>Lemmas\<close>

lemma digits_simps [simp]: "digits []" "digits (c # s) \<longleftrightarrow> is_digit c \<and> digits s"
  "digits (s @ t) \<longleftrightarrow> digits s \<and> digits t"
  by (auto simp: digits_def)

lemma starts_with_simps [simp]: "\<not> starts_with P []" "starts_with P (c # s) \<longleftrightarrow> P c"
  by (simp_all add: starts_with_def)

lemma zero_is_digit [simp]: "is_digit CHR ''0''"
  by (simp add: is_digit_def byte_def)

lemma digit_not_sign: "is_digit c \<Longrightarrow> \<not> sign_char c"
  by (auto simp: sign_char_def)

lemma digit_not_point: "is_digit c \<Longrightarrow> c \<noteq> CHR ''.''"
  by auto

lemma is_digit_cases: "is_digit c \<longleftrightarrow> c \<in> set ''0123456789''"
proof -
  have "is_digit c \<longleftrightarrow> byte c \<in> byte ` set ''0123456789''"
  proof -
    have "48 \<le> n \<and> n \<le> 57 \<longleftrightarrow> n \<in> {48, 49, 50, 51, 52, 53, 54, 55, 56, 57}" for n :: nat
      by (simp, presburger)
    then show ?thesis by (simp add: is_digit_def byte_def)
  qed
  also have "\<dots> \<longleftrightarrow> c \<in> set ''0123456789''"
    using inj_image_mem_iff [of byte c "set ''0123456789''"] by (simp add: byte_def inj_def)
  finally show ?thesis .
qed

lemma letter_not_digit: "suffix_letter c \<Longrightarrow> \<not> is_digit c" "suffix_letter c \<Longrightarrow> c \<noteq> CHR ''.''"
  "suffix_letter c \<Longrightarrow> \<not> sign_char c"
  by (auto simp: suffix_letter_def is_digit_cases sign_char_def)

lemma zeros_digits: "set ds \<subseteq> {CHR ''0''} \<Longrightarrow> digits ds"
  by (auto simp: digits_def)

lemma scan_from_append:
  assumes "\<forall>c\<in>set b. P c" and "\<not> starts_with P r"
  shows "scan_from P (a @ b @ r) (length a) = length a + length b"
proof -
  have "takeWhile P (b @ r) = b"
    using assms by (cases r) (auto simp: takeWhile_append2)
  then show ?thesis by (simp add: scan_from_def)
qed

lemma substr_append: "substr (a @ b @ r) (length a) (length a + length b) = b"
  by (simp add: substr_def)

lemma span_exists: "\<exists>b r. s = b @ r \<and> (\<forall>c\<in>set b. P c) \<and> \<not> starts_with P r"
proof -
  have "\<not> starts_with P (dropWhile P s)"
    by (induction s) auto
  moreover have "\<forall>c\<in>set (takeWhile P s). P c" by (auto dest: set_takeWhileD)
  ultimately show ?thesis by (metis takeWhile_dropWhile_id)
qed

lemma dropWhile_not_starts: "\<not> starts_with P (dropWhile P s)"
  by (induction s) auto

text \<open>The suffix.\<close>

lemma scan_suffix_eq:
  "scan_suffix positive num denom (a @ r) (length a) =
     (if suffix_form r
      then Ok \<lparr>sc_positive = positive, sc_value = a, sc_num = num, sc_denom = denom, sc_suffix = r\<rparr>
      else Err ErrFormatWrong)"
proof -
  obtain b r1 where r: "r = b @ r1" and b: "\<forall>c\<in>set b. suffix_letter c" and r1: "\<not> starts_with suffix_letter r1"
    using span_exists by blast
  have drp: "dropWhile suffix_letter r = r1"
    using b r1 by (cases r1) (auto simp: r dropWhile_append2)
  have pos: "scan_from suffix_letter (a @ r) (length a) = length (a @ b)"
    using scan_from_append [OF b r1, of a] by (simp add: r)
  have substr_all: "substr (a @ r) (length a) (length (a @ r)) = r"
    by (simp add: substr_def)
  have scan: "scan_from is_digit (p @ q) (length p) \<ge> length (p @ q) \<longleftrightarrow> digits q" for p q
  proof -
    have "length (takeWhile is_digit q) \<ge> length q \<longleftrightarrow> takeWhile is_digit q = q"
      by (metis length_takeWhile_le le_antisym order_refl takeWhile_eq_take take_all_iff)
    then show ?thesis by (auto simp: scan_from_def digits_def takeWhile_eq_all_conv)
  qed
  show ?thesis
  proof (cases r1)
    case Nil
    then have "length (a @ b) \<ge> length (a @ r)" by (simp add: r)
    then show ?thesis
      using substr_all by (simp add: scan_suffix_def suffix_form_def drp Let_def pos Nil)
  next
    case (Cons c r2)
    have at: "(a @ r) ! length (a @ b) = c" by (simp add: r Cons nth_append)
    have lt: "\<not> length (a @ b) \<ge> length (a @ r)" by (simp add: r Cons)
    have split1: "a @ r = (a @ b @ [c]) @ r2" and split0: "a @ r = (a @ b) @ r1"
      by (simp_all add: r Cons)
    have s1: "scan_from is_digit (a @ r) (length (a @ b) + 1) \<ge> length (a @ r) \<longleftrightarrow> digits r2"
      using scan [of "a @ b @ [c]" r2] split1 by simp
    have s0: "scan_from is_digit (a @ r) (length (a @ b)) \<ge> length (a @ r) \<longleftrightarrow> digits r1"
      using scan [of "a @ b" r1] split0 by simp
    show ?thesis
      using s1 s0 lt at substr_all
      by (simp add: scan_suffix_def pos suffix_form_def drp Let_def Cons sign_char_def disj_commute)
  qed
qed

lemma sign_pos:
  assumes "sign_text sg" and "sg = [] \<longrightarrow> \<not> starts_with sign_char r"
  shows "(if 0 < length (sg @ r) \<and> ((sg @ r) ! 0 = CHR ''-'' \<or> (sg @ r) ! 0 = CHR ''+'') then 1 else 0) = length sg"
    and "(\<not> (0 < length (sg @ r) \<and> (sg @ r) ! 0 = CHR ''-'')) \<longleftrightarrow> sg \<noteq> ''-''"
  using assms by (cases r; auto simp: sign_text_def sign_char_def)+

text \<open>The whole scanner, on a text taken apart.\<close>

lemma all_zero_iff: "dropWhile (\<lambda>c. c = CHR ''0'') ds = [] \<longleftrightarrow> set ds \<subseteq> {CHR ''0''}"
  by (auto simp: dropWhile_eq_Nil_conv)

lemma let_step: "a = b \<Longrightarrow> f b = c \<Longrightarrow> Let a f = c"
  by simp

lemma scan_number:
  assumes "digits ds" and "\<not> starts_with is_digit r"
  obtains zs ns where "scan_from (\<lambda>c. c = CHR ''0'') (sg @ ds @ r) (length sg) = length (sg @ zs)"
    and "scan_from is_digit (sg @ ds @ r) (length (sg @ zs)) = length (sg @ ds)"
    and "substr (sg @ ds @ r) (length (sg @ zs)) (length (sg @ ds)) = ns"
    and "(if ns = [] then ''0'' else ns) = num_part ds" and "ns = [] \<longleftrightarrow> set ds \<subseteq> {CHR ''0''}"
    and "length (sg @ ds @ r) \<le> length (sg @ zs) \<longleftrightarrow> r = [] \<and> set ds \<subseteq> {CHR ''0''}"
proof -
  let ?s = "sg @ ds @ r" and ?z = "\<lambda>c. c = CHR ''0''"
  define zs where "zs = takeWhile ?z ds"
  define ns where "ns = dropWhile ?z ds"
  have ds: "ds = zs @ ns" by (simp add: zs_def ns_def)
  have zs: "\<forall>c\<in>set zs. c = CHR ''0''" by (auto simp: zs_def dest: set_takeWhileD)
  have ns0: "\<not> starts_with ?z (ns @ r)"
    using assms(2) dropWhile_not_starts [of ?z ds, folded ns_def] by (cases ns; cases r) auto
  have nsd: "\<forall>c\<in>set ns. is_digit c" using assms(1) by (auto simp: ds digits_def)
  have ns_nil: "ns = [] \<longleftrightarrow> set ds \<subseteq> {CHR ''0''}" using all_zero_iff [of ds] by (simp only: ns_def)
  have "scan_from ?z ?s (length sg) = length (sg @ zs)"
    using scan_from_append [of zs ?z "ns @ r" sg] zs ns0 by (simp add: ds)
  moreover have "scan_from is_digit ?s (length (sg @ zs)) = length (sg @ ds)"
    using scan_from_append [OF nsd assms(2), of "sg @ zs"] by (simp add: ds)
  moreover have "substr ?s (length (sg @ zs)) (length (sg @ ds)) = ns"
    using substr_append [of "sg @ zs" ns r] by (simp add: ds add.assoc)
  moreover have "(if ns = [] then ''0'' else ns) = num_part ds" by (simp add: num_part_def ns_def Let_def)
  moreover have "length ?s \<le> length (sg @ zs) \<longleftrightarrow> r = [] \<and> ns = []" unfolding ds by auto
  ultimately show thesis using that [of zs ns] ns_nil by blast
qed

lemma scan_head:
  assumes "sign_text sg" and "sg = [] \<longrightarrow> \<not> starts_with sign_char (ds @ r)" and "digits ds"
    and "\<not> starts_with is_digit r"
  shows "parseQuantityString (sg @ ds @ r) =
    (if r = [] \<and> set ds \<subseteq> {CHR ''0''} then Ok (blank_scan sg)
     else if r = [] then Ok (full_scan sg ds [] [] [])
     else if starts_with (\<lambda>c. c = CHR ''.'') r then
       (let s = sg @ ds @ r; k = length (sg @ ds) + 1; i = scan_from is_digit s k in
        if length s \<le> i
        then Ok \<lparr>sc_positive = (sg \<noteq> ''-''), sc_value = s, sc_num = num_part ds, sc_denom = substr s k (length s), sc_suffix = []\<rparr>
        else scan_suffix (sg \<noteq> ''-'') (num_part ds) (substr s k i) s i)
     else scan_suffix (sg \<noteq> ''-'') (num_part ds) [] (sg @ ds @ r) (length (sg @ ds)))"
proof -
  let ?s = "sg @ ds @ r"
  obtain zs ns where n: "scan_from (\<lambda>c. c = CHR ''0'') ?s (length sg) = length (sg @ zs)"
    "scan_from is_digit ?s (length (sg @ zs)) = length (sg @ ds)"
    "substr ?s (length (sg @ zs)) (length (sg @ ds)) = ns" "(if ns = [] then ''0'' else ns) = num_part ds"
    and nil: "ns = [] \<longleftrightarrow> set ds \<subseteq> {CHR ''0''}"
    and ze: "length ?s \<le> length (sg @ zs) \<longleftrightarrow> r = [] \<and> set ds \<subseteq> {CHR ''0''}"
    by (rule scan_number [OF assms(3,4)])
  note sign = sign_pos [OF assms(1,2)]
  have ne: "length ?s \<le> length (sg @ ds) \<longleftrightarrow> r = []" by simp
  have point: "length (sg @ ds) < length ?s \<and> ?s ! length (sg @ ds) = CHR ''.'' \<longleftrightarrow> starts_with (\<lambda>c. c = CHR ''.'') r"
    by (cases r) (simp_all add: nth_append)
  have whole: "Ok \<lparr>sc_positive = (sg \<noteq> ''-''), sc_value = ?s, sc_num = substr ?s (length (sg @ zs)) (length ?s), sc_denom = [], sc_suffix = []\<rparr>
      = Ok (full_scan sg ds [] [] [])" if "r = []" "\<not> set ds \<subseteq> {CHR ''0''}"
    using that n(3,4) nil by (simp add: full_scan_def split: if_splits)
  have eq: "parseQuantityString ?s =
    (if r = [] \<and> set ds \<subseteq> {CHR ''0''} then Ok (blank_scan sg)
     else if r = []
       then Ok \<lparr>sc_positive = (sg \<noteq> ''-''), sc_value = ?s, sc_num = substr ?s (length (sg @ zs)) (length ?s), sc_denom = [], sc_suffix = []\<rparr>
     else if starts_with (\<lambda>c. c = CHR ''.'') r then
       (let s = ?s; k = length (sg @ ds) + 1; i = scan_from is_digit s k in
        if length s \<le> i
        then Ok \<lparr>sc_positive = (sg \<noteq> ''-''), sc_value = s, sc_num = num_part ds, sc_denom = substr s k (length s), sc_suffix = []\<rparr>
        else scan_suffix (sg \<noteq> ''-'') (num_part ds) (substr s k i) s i)
     else scan_suffix (sg \<noteq> ''-'') (num_part ds) [] ?s (length (sg @ ds)))"
    unfolding parseQuantityString_def
    by (rule let_step [OF refl], rule let_step [OF sign(2)], rule let_step [OF sign(1)], rule let_step [OF n(1)])
      (simp only: Let_def n ze ne blank_scan_def point)
  show ?thesis
  proof (cases "r = [] \<and> \<not> set ds \<subseteq> {CHR ''0''}")
    case True
    then show ?thesis using eq whole by simp
  qed (simp add: eq)
qed

lemma scan_decimals:
  assumes "digits fs" and "\<not> starts_with is_digit suf"
  shows "scan_from is_digit (p @ ''.'' @ fs @ suf) (length p + 1) = length (p @ ''.'' @ fs)"
    and "substr (p @ ''.'' @ fs @ suf) (length p + 1) (length (p @ ''.'' @ fs)) = fs"
  using scan_from_append [of fs is_digit suf "p @ ''.''"] substr_append [of "p @ ''.''" fs suf] assms
  by (simp_all add: digits_def)

lemma scan_digits:
  assumes "sign_text sg" and "sg = [] \<longrightarrow> \<not> starts_with sign_char (ds @ r)" and "digits ds"
    and "\<not> starts_with is_digit r"
  shows "parseQuantityString (sg @ ds @ r) =
    (if r = [] \<and> set ds \<subseteq> {CHR ''0''} then Ok (blank_scan sg)
     else if r = [] then Ok (full_scan sg ds [] [] [])
     else if starts_with (\<lambda>c. c = CHR ''.'') r then
       (let fs = takeWhile is_digit (tl r); suf = dropWhile is_digit (tl r) in
        if suf = [] then Ok (full_scan sg ds ''.'' fs [])
        else scan_suffix (sg \<noteq> ''-'') (num_part ds) fs (sg @ ds @ r) (length (sg @ ds @ ''.'' @ fs)))
     else scan_suffix (sg \<noteq> ''-'') (num_part ds) [] (sg @ ds @ r) (length (sg @ ds)))"
proof (cases "starts_with (\<lambda>c. c = CHR ''.'') r")
  case True
  define fs where "fs = takeWhile is_digit (tl r)"
  define suf where "suf = dropWhile is_digit (tl r)"
  have r: "r = ''.'' @ fs @ suf" using True by (cases r) (simp_all add: fs_def suf_def)
  have fs: "digits fs" by (auto simp: fs_def digits_def dest: set_takeWhileD)
  have suf: "\<not> starts_with is_digit suf" unfolding suf_def by (rule dropWhile_not_starts)
  have head: "parseQuantityString (sg @ ds @ r) =
      (let s = sg @ ds @ r; k = length (sg @ ds) + 1; i = scan_from is_digit s k in
        if length s \<le> i
        then Ok \<lparr>sc_positive = (sg \<noteq> ''-''), sc_value = s, sc_num = num_part ds, sc_denom = substr s k (length s), sc_suffix = []\<rparr>
        else scan_suffix (sg \<noteq> ''-'') (num_part ds) (substr s k i) s i)"
    using scan_head [OF assms] True by auto
  have "parseQuantityString (sg @ ds @ r) =
      (if suf = [] then Ok (full_scan sg ds ''.'' fs [])
       else scan_suffix (sg \<noteq> ''-'') (num_part ds) fs (sg @ ds @ r) (length (sg @ ds @ ''.'' @ fs)))"
    using scan_decimals [OF fs suf, of "sg @ ds"] head
    by (cases "suf = []") (simp_all add: full_scan_def Let_def r)
  then show ?thesis using True by (auto simp: fs_def suf_def Let_def)
next
  case False
  then show ?thesis using scan_head [OF assms] by simp
qed

text \<open>The scanner and the syntax agree.\<close>

lemma sign_split:
  obtains sg t where "s = sg @ t" and "sign_text sg" and "sg = [] \<longrightarrow> \<not> starts_with sign_char t"
proof (cases s)
  case Nil
  then show thesis using that [of "[]" "[]"] by (simp add: sign_text_def)
next
  case (Cons c t)
  show thesis
  proof (cases "sign_char c")
    case True
    then show thesis using that [of "[c]" t] Cons by (auto simp: sign_text_def sign_char_def)
  next
    case False
    then show thesis using that [of "[]" s] Cons by (simp add: sign_text_def)
  qed
qed

lemma scanned_fraction:
  assumes "parseQuantityString (sg @ ds @ ''.'' @ r) = Ok sc"
    and sg: "sign_text sg" and nosg: "sg = [] \<longrightarrow> \<not> starts_with sign_char (ds @ ''.'' @ r)" and ds: "digits ds"
  shows "quantity_form (sg @ ds @ ''.'' @ r) sc"
proof -
  define fs where "fs = takeWhile is_digit r"
  define suf where "suf = dropWhile is_digit r"
  have fs: "digits fs" by (auto simp: fs_def digits_def dest: set_takeWhileD)
  have nsuf: "\<not> starts_with is_digit suf" unfolding suf_def by (rule dropWhile_not_starts)
  have r: "r = fs @ suf" by (simp add: fs_def suf_def)
  have "\<not> starts_with is_digit (''.'' @ r)" by simp
  note scan = assms(1) [unfolded scan_digits [OF sg nosg ds this]]
  have "suffix_form suf \<and> sc = full_scan sg ds ''.'' fs suf"
  proof (cases "suf = []")
    case True
    moreover from this have "sc = full_scan sg ds ''.'' fs []"
      using scan unfolding fs_def suf_def by (simp add: Let_def del: dropWhile_eq_Nil_conv)
    ultimately show ?thesis by (simp add: suffix_form_def)
  next
    case False
    then have "scan_suffix (sg \<noteq> ''-'') (num_part ds) fs ((sg @ ds @ ''.'' @ fs) @ suf) (length (sg @ ds @ ''.'' @ fs)) = Ok sc"
      using scan by (simp add: fs_def suf_def Let_def del: dropWhile_eq_Nil_conv)
    then show ?thesis
      unfolding scan_suffix_eq by (auto simp: full_scan_def split: if_splits)
  qed
  then show ?thesis using Fraction [OF sg ds fs nsuf] by (simp add: r)
qed

lemma scanned_whole:
  assumes "parseQuantityString (sg @ ds @ r) = Ok sc"
    and sg: "sign_text sg" and nosg: "sg = [] \<longrightarrow> \<not> starts_with sign_char (ds @ r)" and ds: "digits ds"
    and r: "\<not> starts_with is_digit r" "\<not> starts_with (\<lambda>c. c = CHR ''.'') r"
  shows "quantity_form (sg @ ds @ r) sc"
proof (cases "r = []")
  case True
  then show ?thesis
    using assms(1) scan_digits [OF sg nosg ds r(1)] Blank [OF sg, of ds] Whole [OF sg ds, of "[]"]
    by (auto simp: suffix_form_def split: if_splits)
next
  case False
  have pre: "suf = r \<Longrightarrow> \<not> starts_with (\<lambda>c. is_digit c \<or> c = CHR ''.'') suf" for suf
    using r by (cases r) auto
  have "scan_suffix (sg \<noteq> ''-'') (num_part ds) [] (sg @ ds @ r) (length (sg @ ds)) = Ok sc"
    using assms(1) scan_digits [OF sg nosg ds r(1)] False r(2) by simp
  then have "suffix_form r" and "sc = full_scan sg ds [] [] r"
    using scan_suffix_eq [of "sg \<noteq> ''-''" "num_part ds" "[]" "sg @ ds" r]
    by (auto simp: full_scan_def split: if_splits)
  then show ?thesis
    using Whole [OF sg ds _ pre [OF refl]] False nosg by (cases "ds = []") simp_all
qed

lemma scanned_form:
  assumes "parseQuantityString s = Ok sc"
  shows "quantity_form s sc"
proof -
  obtain sg t where s: "s = sg @ t" and sg: "sign_text sg" and nosg: "sg = [] \<longrightarrow> \<not> starts_with sign_char t"
    by (rule sign_split)
  define ds where "ds = takeWhile is_digit t"
  define r where "r = dropWhile is_digit t"
  have t: "t = ds @ r" by (simp add: ds_def r_def)
  have ds: "digits ds" by (auto simp: ds_def digits_def dest: set_takeWhileD)
  have r: "\<not> starts_with is_digit r" unfolding r_def by (rule dropWhile_not_starts)
  show ?thesis
  proof (cases "starts_with (\<lambda>c. c = CHR ''.'') r")
    case True
    then obtain r' where "r = ''.'' @ r'" by (cases r) auto
    then show ?thesis using scanned_fraction [of sg ds r' sc] assms sg nosg ds by (simp add: s t)
  next
    case False
    then show ?thesis using scanned_whole [OF _ sg _ ds r] assms nosg by (simp add: s t)
  qed
qed

lemma sign_text_digits: "sign_text sg \<Longrightarrow> digits ds \<Longrightarrow> ds \<noteq> [] \<Longrightarrow> \<not> starts_with sign_char (ds @ r)"
  by (cases ds) (auto simp: digit_not_sign)

lemma form_scanned:
  assumes "quantity_form s sc"
  shows "parseQuantityString s = Ok sc"
  using assms
proof cases
  case (Blank sg ds)
  have "sg = [] \<longrightarrow> \<not> starts_with sign_char (ds @ [])"
    using sign_text_digits [OF Blank(3) zeros_digits [OF Blank(4)], of "[]"] by (cases "ds = []") simp_all
  from scan_digits [OF Blank(3) this zeros_digits [OF Blank(4)]] show ?thesis
    using Blank by simp
next
  case (Whole sg ds suf)
  have 1: "sg = [] \<longrightarrow> \<not> starts_with sign_char (ds @ suf)"
    using Whole sign_text_digits by (cases "ds = []") auto
  have 2: "\<not> starts_with is_digit suf" "\<not> starts_with (\<lambda>c. c = CHR ''.'') suf"
    using Whole(6) by (cases suf; auto)+
  have "scan_suffix (sg \<noteq> ''-'') (num_part ds) [] ((sg @ ds) @ suf) (length (sg @ ds)) = Ok (full_scan sg ds [] [] suf)"
    unfolding scan_suffix_eq using Whole(8) by (simp add: full_scan_def)
  then show ?thesis
    using Whole(5) 2 unfolding Whole(1,2) scan_digits [OF Whole(3) 1 Whole(4) 2(1)] by auto
next
  case (Fraction sg ds fs suf)
  have 1: "sg = [] \<longrightarrow> \<not> starts_with sign_char (ds @ ''.'' @ fs @ suf)"
    using Fraction sign_text_digits by (cases "ds = []") (auto simp: sign_char_def)
  have 2: "\<not> starts_with is_digit (''.'' @ fs @ suf)" by simp
  have 3: "takeWhile is_digit (fs @ suf) = fs" "dropWhile is_digit (fs @ suf) = suf"
    using Fraction(5,6) by (cases suf; auto simp: digits_def takeWhile_append2 dropWhile_append2)+
  have "scan_suffix (sg \<noteq> ''-'') (num_part ds) fs ((sg @ ds @ ''.'' @ fs) @ suf) (length (sg @ ds @ ''.'' @ fs))
      = Ok (full_scan sg ds ''.'' fs suf)"
    unfolding scan_suffix_eq using Fraction(7) by (simp add: full_scan_def)
  then show ?thesis
    unfolding Fraction(1,2) scan_digits [OF Fraction(3) 1 Fraction(4) 2] by (simp add: 3 Let_def)
qed

end
