(* ===== verification/QuantityValue.thy ===== *)
theory QuantityValue
  imports QuantityScan
begin

text \<open>
  What \<open>ParseQuantity\<close> computes: the number that is written is read exactly, both ways of the parser
  give an amount whose \<open>Value\<close> is that number times its unit, rounded up, and the only panic is the
  table of powers of ten indexed with a shift that wrapped around.
\<close>

section \<open>Digits as numbers\<close>

definition dec_value :: "string \<Rightarrow> nat" where
  "dec_value s = foldl (\<lambda>a c. 10 * a + (byte c - 48)) 0 s"

lemma foldl_digits:
  "foldl (\<lambda>a c. 10 * a + (byte c - 48)) k s = k * 10 ^ length s + dec_value s"
proof (induction s arbitrary: k)
  case (Cons c s)
  show ?case
    using Cons.IH [of "10 * k + (byte c - 48)"] Cons.IH [of "byte c - 48"]
    by (simp add: dec_value_def algebra_simps)
qed (simp add: dec_value_def)

lemma dec_value_simps [simp]: "dec_value [] = 0" "dec_value (c # s) = (byte c - 48) * 10 ^ length s + dec_value s"
  using foldl_digits [of "byte c - 48" s] by (simp_all add: dec_value_def)

lemma dec_value_append [simp]: "dec_value (s @ t) = dec_value s * 10 ^ length t + dec_value t"
  by (induction s) (simp_all add: algebra_simps power_add)

lemma dec_value_less: "digits s \<Longrightarrow> dec_value s < 10 ^ length s"
proof (induction s)
  case (Cons c s)
  then have "is_digit c" by simp
  then have "byte c - 48 \<le> 9" unfolding is_digit_def by linarith
  then have "(byte c - 48) * 10 ^ length s \<le> 9 * 10 ^ length s" by (rule mult_right_mono) simp
  moreover have "dec_value s < 10 ^ length s" using Cons by simp
  ultimately show ?case unfolding dec_value_simps length_Cons power_Suc by linarith
qed simp

lemma byte_zero [simp]: "byte CHR ''0'' = 48"
  by (simp add: byte_def)

lemma parse_digits_value: "digits s \<Longrightarrow> parse_digits k s = Some (k * 10 ^ length s + dec_value s)"
  by (induction s arbitrary: k) (simp_all add: algebra_simps)

lemma parse_nat_value: "digits s \<Longrightarrow> s \<noteq> [] \<Longrightarrow> parse_nat s = Some (dec_value s)"
  by (simp add: parse_nat_def parse_digits_value)

lemma digits_fmt_nat [simp]: "digits (fmt_nat n)"
  by (auto simp: digits_def dest: fmt_nat_digits)

lemma dec_value_fmt_nat [simp]: "dec_value (fmt_nat n) = n"
  using parse_nat_value [of "fmt_nat n"] by simp

lemma dec_value_drop_zeros: "dec_value (dropWhile (\<lambda>c. c = CHR ''0'') s) = dec_value s"
  by (induction s) auto

lemma digits_dropWhile: "digits s \<Longrightarrow> digits (dropWhile P s)"
  by (auto simp: digits_def dest: set_dropWhileD)

lemma num_part [simp]: "digits s \<Longrightarrow> digits (num_part s)" "num_part s \<noteq> []" "dec_value (num_part s) = dec_value s"
proof -
  let ?n = "dropWhile (\<lambda>c. c = CHR ''0'') s"
  have "dec_value (if ?n = [] then ''0'' else ?n) = dec_value s"
    using dec_value_drop_zeros [of s] by (cases "?n = []") (simp_all del: dropWhile_eq_Nil_conv)
  then show "num_part s \<noteq> []" "dec_value (num_part s) = dec_value s" by (simp_all only: num_part_def Let_def) simp
  show "digits s \<Longrightarrow> digits (num_part s)" using digits_dropWhile [of s] by (simp add: num_part_def Let_def)
qed

lemma parse_int64_digits:
  assumes "digits s" and "s \<noteq> []" and "length s \<le> 18"
  shows "parse_int64 s = Some (int (dec_value s))"
proof -
  obtain c t where s: "s = c # t" using assms(2) by (cases s) auto
  have "is_digit c" using assms(1) s by simp
  then have c: "c \<noteq> CHR ''-''" "c \<noteq> CHR ''+''" by auto
  have "dec_value s < 10 ^ length s" by (rule dec_value_less [OF assms(1)])
  also have "(10 :: nat) ^ length s \<le> 10 ^ 18" using assms(3) by (intro power_increasing) simp_all
  finally have "dec_value s < 2 ^ 63" by simp
  moreover have "parse_int64 s = (case parse_nat s of None \<Rightarrow> None | Some n \<Rightarrow> if n < 2 ^ 63 then Some (int n) else None)"
    using c by (simp add: parse_int64_def s Let_def cong: option.case_cong)
  ultimately show ?thesis by (simp only: parse_nat_value [OF assms(1,2)] option.case if_True)
qed

section \<open>Reading a decimal\<close>

lemma scan_loop_digits:
  "digits ds \<Longrightarrow> dec_scan_loop u dp dg (ds @ r) = dec_scan_loop (u @ ds) dp (dg \<or> ds \<noteq> []) r"
proof (induction ds arbitrary: u dg)
  case (Cons c ds)
  then have "is_digit c" by simp
  then have "c \<noteq> CHR ''-''" "c \<noteq> CHR ''+''" "c \<noteq> CHR ''.''" by auto
  with Cons show ?case by simp
qed simp

lemma scan_loop_sign: "sign_text sg \<Longrightarrow> dec_scan_loop [] None False (sg @ r) = dec_scan_loop sg None False r"
  by (auto simp: sign_text_def)

lemma big_SetString_signed:
  assumes "sign_text sg" and "digits ds" and "ds \<noteq> []"
  shows "big_SetString (sg @ ds) = Some ((if sg = ''-'' then - 1 else 1) * int (dec_value ds))"
proof -
  obtain c t where ds: "ds = c # t" using assms(3) by (cases ds) auto
  have "is_digit c" using assms(2) ds by simp
  then have "c \<noteq> CHR ''-''" "c \<noteq> CHR ''+''" by auto
  then show ?thesis
    using assms(1) parse_nat_value [OF assms(2,3)] by (auto simp: sign_text_def big_SetString_def ds Let_def)
qed

lemma dec_SetString_number:
  assumes "sign_text sg" and "digits ds" and "digits fs" and "point = [] \<and> fs = [] \<or> point = ''.''"
  shows "dec_SetString (sg @ ds @ point @ fs) =
    (if ds @ fs = [] then None
     else Some \<lparr>dec_unscaled = (if sg = ''-'' then - 1 else 1) * int (dec_value (ds @ fs)),
                dec_scale = wrap32 (int (length fs))\<rparr>)"
proof -
  have loop: "dec_scan_loop [] None False (sg @ ds @ point @ fs) =
      (sg @ ds @ fs, if point = [] then None else Some (length (sg @ ds)), ds @ fs \<noteq> [], [])"
    using assms(4) scan_loop_digits [OF assms(3), of _ _ _ "[]"]
    by (auto simp: scan_loop_sign [OF assms(1)] scan_loop_digits [OF assms(2)])
  have sc: "(case (if point = [] then None else Some (length (sg @ ds))) of Some d \<Rightarrow> wrap32 (int (length (sg @ ds @ fs)) - int d) | None \<Rightarrow> 0)
      = wrap32 (int (length fs))"
    using assms(4) by auto
  show ?thesis
  proof (cases "ds @ fs = []")
    case False
    then have "big_SetString (sg @ ds @ fs) = Some ((if sg = ''-'' then - 1 else 1) * int (dec_value (ds @ fs)))"
      using big_SetString_signed [OF assms(1), of "ds @ fs"] assms(2,3) by simp
    then show ?thesis
      using False unfolding dec_SetString_def dec_scan_def loop prod.case Let_def sc by simp
  next
    case True
    then show ?thesis unfolding dec_SetString_def dec_scan_def loop by simp
  qed
qed

text \<open>What the scanner found, as the number it stands for.\<close>

definition scanned_sign :: "scanned \<Rightarrow> int" where
  "scanned_sign sc = (if sc_positive sc then 1 else - 1)"

definition scanned_number :: "scanned \<Rightarrow> nat" where
  "scanned_number sc = dec_value (sc_num sc @ sc_denom sc)"

definition has_digit :: "string \<Rightarrow> bool" where
  "has_digit s \<longleftrightarrow> (\<exists>c\<in>set s. is_digit c)"

lemma has_digit_parts:
  assumes "sign_text sg" and "digits ds" and "digits fs" and "point = [] \<and> fs = [] \<or> point = ''.''"
  shows "has_digit (sg @ ds @ point @ fs) \<longleftrightarrow> ds @ fs \<noteq> []"
  using assms by (cases ds; cases fs) (auto simp: has_digit_def sign_text_def)

lemma quantity_form_scanned:
  assumes "quantity_form s sc"
  shows "digits (sc_num sc)" "digits (sc_denom sc)" "sc_num sc \<noteq> []"
    and "dec_SetString (sc_value sc) =
      (if has_digit (sc_value sc)
       then Some \<lparr>dec_unscaled = scanned_sign sc * int (scanned_number sc), dec_scale = wrap32 (int (length (sc_denom sc)))\<rparr>
       else None)"
    and "length (sc_denom sc) \<le> length s" "length (sc_num sc) \<le> length s + 1" "length (sc_suffix sc) \<le> length s"
proof -
  have num_le: "length (num_part ds) \<le> length ds + 1" for ds
    using length_dropWhile_le [of "\<lambda>c. c = CHR ''0''" ds] by (auto simp: num_part_def Let_def)
  have "digits (sc_num sc) \<and> digits (sc_denom sc) \<and> sc_num sc \<noteq> [] \<and>
    dec_SetString (sc_value sc) =
      (if has_digit (sc_value sc)
       then Some \<lparr>dec_unscaled = scanned_sign sc * int (scanned_number sc), dec_scale = wrap32 (int (length (sc_denom sc)))\<rparr>
       else None) \<and> length (sc_denom sc) \<le> length s \<and> length (sc_num sc) \<le> length s + 1 \<and> length (sc_suffix sc) \<le> length s"
    using assms
  proof cases
    case (Blank sg ds)
    have "dec_SetString ''0'' = Some \<lparr>dec_unscaled = 0, dec_scale = 0\<rparr>"
      using dec_SetString_number [of "[]" "''0''" "[]" "[]"] by (simp add: sign_text_def)
    then show ?thesis by (simp add: Blank blank_scan_def has_digit_def scanned_sign_def scanned_number_def)
  next
    case (Whole sg ds suf)
    have "dec_SetString (sg @ ds) = (if ds = [] then None
        else Some \<lparr>dec_unscaled = (if sg = ''-'' then - 1 else 1) * int (dec_value ds), dec_scale = 0\<rparr>)"
      using dec_SetString_number [OF Whole(3,4), of "[]" "[]"] by simp
    moreover have "has_digit (sg @ ds) \<longleftrightarrow> ds \<noteq> []"
      using has_digit_parts [OF Whole(3,4), of "[]" "[]"] by simp
    ultimately show ?thesis
      using Whole(4) num_le [of ds] by (simp add: Whole(1,2) full_scan_def scanned_sign_def scanned_number_def)
  next
    case (Fraction sg ds fs suf)
    have "dec_SetString (sg @ ds @ ''.'' @ fs) = (if ds @ fs = [] then None
        else Some \<lparr>dec_unscaled = (if sg = ''-'' then - 1 else 1) * int (dec_value (ds @ fs)), dec_scale = wrap32 (int (length fs))\<rparr>)"
      by (rule dec_SetString_number [OF Fraction(3,4,5)]) simp
    moreover have "has_digit (sg @ ds @ ''.'' @ fs) \<longleftrightarrow> ds @ fs \<noteq> []"
      by (rule has_digit_parts [OF Fraction(3,4,5)]) simp
    ultimately show ?thesis
      using Fraction(4,5) num_le [of ds] by (simp add: Fraction(1,2) full_scan_def scanned_sign_def scanned_number_def)
  qed
  then show "digits (sc_num sc)" "digits (sc_denom sc)" "sc_num sc \<noteq> []"
    and "dec_SetString (sc_value sc) =
      (if has_digit (sc_value sc)
       then Some \<lparr>dec_unscaled = scanned_sign sc * int (scanned_number sc), dec_scale = wrap32 (int (length (sc_denom sc)))\<rparr>
       else None)"
    and "length (sc_denom sc) \<le> length s" "length (sc_num sc) \<le> length s + 1" "length (sc_suffix sc) \<le> length s"
    by blast+
qed

section \<open>Rounding up\<close>

definition ceil_div :: "int \<Rightarrow> int \<Rightarrow> int" where
  "ceil_div a b = - (- a div b)"

lemma ceil_div_eq: "0 < b \<Longrightarrow> ceil_div a b = a div b + (if a mod b = 0 then 0 else 1)"
  by (simp add: ceil_div_def zdiv_zminus1_eq_if)

lemma ceil_div_simps [simp]: "ceil_div 0 b = 0" "ceil_div a 1 = a" "b \<noteq> 0 \<Longrightarrow> ceil_div (a * b) b = a"
  by (simp_all add: ceil_div_def flip: mult_minus_left)

lemma ceil_div_le_iff: "0 < b \<Longrightarrow> ceil_div a b \<le> k \<longleftrightarrow> a \<le> k * b"
proof -
  assume b: "0 < b"
  have "ceil_div a b \<le> k \<longleftrightarrow> - k \<le> - a div b" by (simp add: ceil_div_def minus_le_iff)
  also have "\<dots> \<longleftrightarrow> - k * b \<le> - a"
  proof
    assume "- k \<le> - a div b"
    then have "- k * b \<le> (- a div b) * b" using b by (intro mult_right_mono) simp_all
    also have "(- a div b) * b \<le> - a"
      using b pos_mod_sign [OF b, of "- a"] div_mult_mod_eq [of "- a" b] by linarith
    finally show "- k * b \<le> - a" .
  next
    assume "- k * b \<le> - a"
    then have "(- k * b) div b \<le> - a div b" using b by (rule zdiv_mono1)
    then show "- k \<le> - a div b" using b by (simp only: nonzero_mult_div_cancel_right less_imp_neq [symmetric] simp_thms)
  qed
  finally show ?thesis by simp
qed

lemma ceil_div_nonneg: "0 \<le> a \<Longrightarrow> 0 < b \<Longrightarrow> 0 \<le> ceil_div a b"
  by (simp add: ceil_div_eq pos_imp_zdiv_nonneg_iff)

lemma ceil_div_eqI: "(\<And>k. x \<le> k \<longleftrightarrow> y \<le> k) \<Longrightarrow> x = (y :: int)"
  by (metis order_refl order_antisym)

lemma ceil_div_twice: "0 < b \<Longrightarrow> 0 < c \<Longrightarrow> ceil_div (ceil_div a b) c = ceil_div a (b * c)"
  by (rule ceil_div_eqI) (simp add: ceil_div_le_iff mult.assoc mult.commute [of c b] mult.left_commute)

lemma ceil_div_cancel: "0 < b \<Longrightarrow> 0 < c \<Longrightarrow> ceil_div (a * c) (b * c) = ceil_div a b"
  by (rule ceil_div_eqI) (simp add: ceil_div_le_iff flip: mult.assoc)

text \<open>Division and remainder of non-negative machine integers.\<close>

lemma go_div_nonneg:
  assumes "0 \<le> sint a" and "0 < sint b"
  shows "sint (go_div a b) = sint a div sint b"
proof -
  have eq: "sint a sdiv sint b = sint a div sint b"
    using assms by (cases "sint a = 0") (simp_all add: signed_divide_int_def)
  have "0 \<le> sint a div sint b" using assms by (simp add: pos_imp_zdiv_nonneg_iff)
  moreover have "sint a div sint b \<le> sint a"
    using assms int_div_less_self [of "sint a" "sint b"]
    by (cases "sint b = 1"; cases "sint a = 0") (auto simp: order_less_imp_le)
  ultimately show ?thesis
    unfolding go_div_def eq using sint_int64_range(2) [of a] by (intro sint_of_range) linarith+
qed

lemma go_mod_nonneg:
  assumes "0 \<le> sint a" and "0 < sint b"
  shows "sint (go_mod a b) = sint a mod sint b"
proof -
  have eq: "sint a smod sint b = sint a mod sint b"
    using assms by (cases "sint a = 0") (simp_all add: signed_modulo_int_def)
  have "0 \<le> sint a mod sint b" "sint a mod sint b < sint b" using assms by simp_all
  then show ?thesis
    unfolding go_mod_def eq using sint_int64_range(2) [of b] by (intro sint_of_range) linarith+
qed

lemma sint_zero_iff: "(w :: int64) = 0 \<longleftrightarrow> sint w = 0"
  by (metis of_int_0 signed_0 word_of_sint)

lemma sint_plus_one: "0 \<le> sint w \<Longrightarrow> sint w < 2 ^ 63 - 1 \<Longrightarrow> sint ((w :: int64) + 1) = sint w + 1"
proof -
  assume w: "0 \<le> sint w" "sint w < 2 ^ 63 - 1"
  have "w + 1 = word_of_int (sint w + 1)" by simp
  also have "sint (word_of_int (sint w + 1) :: int64) = sint w + 1" using w by (intro sint_of_range) linarith+
  finally show ?thesis .
qed

text \<open>One step of the loop that divides by ten and remembers whether it lost a fraction.\<close>

lemma div_ten_step: "v div 10 div 10 ^ n = (v :: int) div 10 ^ Suc n"
  by (simp add: div_mult2_eq zdiv_zmult2_eq)

lemma ceil_div_ten_step:
  "ceil_div v (10 ^ Suc n) = (if v mod 10 \<noteq> 0 then v div 10 ^ Suc n + 1 else ceil_div (v div 10) (10 ^ n))"
proof (cases "v mod 10 = 0")
  case True
  have "ceil_div v (10 ^ Suc n) = ceil_div (ceil_div v 10) (10 ^ n)" by (simp add: ceil_div_twice)
  then show ?thesis using True by (simp add: ceil_div_eq [of 10])
next
  case False
  moreover have "v mod 10 ^ Suc n mod 10 = v mod 10" by (rule mod_mod_cancel) simp
  ultimately have "v mod 10 ^ Suc n \<noteq> 0" by (metis mod_0)
  moreover have "ceil_div v (10 ^ Suc n) = v div 10 ^ Suc n + (if v mod 10 ^ Suc n = 0 then 0 else 1)"
    by (rule ceil_div_eq) simp
  ultimately show ?thesis using False by presburger
qed

lemma negativeScale_loop_up:
  assumes "0 \<le> sint v" and "sint v \<le> sint base" and "0 < sint base" and "fraction \<longrightarrow> sint v < sint base"
  shows "sint (fst (negativeScale_loop n base v fraction)) =
    (if fraction then sint v div 10 ^ n + 1 else ceil_div (sint v) (10 ^ n))"
  using assms(1,2,4)
proof (induction n arbitrary: v fraction)
  case 0
  then show ?case
    using sint_int64_range(2) [of base] assms(3) sint_plus_one [of v] by (auto simp: word_sless_alt)
next
  case (Suc n)
  have v': "sint (go_div v 10) = sint v div 10" and m: "sint (go_mod v 10) = sint v mod 10"
    using Suc.prems by (simp_all add: go_div_nonneg go_mod_nonneg)
  define fr where "fr \<longleftrightarrow> fraction \<or> go_mod v 10 \<noteq> 0"
  have fr: "fr \<longleftrightarrow> fraction \<or> sint v mod 10 \<noteq> 0" by (simp add: fr_def sint_zero_iff m)
  have goal: "(if fraction then sint v div 10 ^ Suc n + 1 else ceil_div (sint v) (10 ^ Suc n)) =
      (if fr then sint v div 10 ^ Suc n + 1 else ceil_div (sint v div 10) (10 ^ n))"
    unfolding ceil_div_ten_step fr by simp
  have step: "negativeScale_loop (Suc n) base v fraction =
      (if go_div v 10 = 0 then (if fr then (if 0 <s base then 1 else - 1, False) else (0, True))
       else negativeScale_loop n base (go_div v 10) fr)"
    by (simp add: fr_def Let_def)
  show ?case
  proof (cases "go_div v 10 = 0")
    case True
    then have z: "sint v div 10 = 0" by (simp add: sint_zero_iff v')
    then have "sint v div 10 ^ Suc n = 0" by (metis div_ten_step div_0)
    then show ?thesis
      unfolding step goal z using True assms(3) by (simp add: word_sless_alt)
  next
    case False
    have "sint v div 10 < sint base"
      using Suc.prems assms(3) by (cases "sint v = 0") (simp_all add: less_le_trans [OF int_div_less_self])
    then have "sint (fst (negativeScale_loop n base (go_div v 10) fr)) =
        (if fr then sint v div 10 ^ Suc n + 1 else ceil_div (sint v div 10) (10 ^ n))"
      using Suc.IH [of "go_div v 10" fr] Suc.prems(1) unfolding v' div_ten_step by (simp add: pos_imp_zdiv_nonneg_iff)
    then show ?thesis
      unfolding step goal using False by simp
  qed
qed

lemma negativeScaleInt64_up:
  assumes "0 \<le> sint v"
  shows "sint (fst (negativeScaleInt64 v n)) = ceil_div (sint v) (10 ^ nat n)"
proof (cases "sint v = 0")
  case True
  then have "v = 0" by (simp add: sint_zero_iff)
  moreover have "fst (negativeScale_loop k 0 0 False) = 0" for k
    by (cases k) (simp_all add: go_div_def go_mod_def signed_divide_int_def signed_modulo_int_def)
  ultimately show ?thesis by (simp add: negativeScaleInt64_def)
next
  case False
  with assms negativeScale_loop_up [of v v False "nat n"] show ?thesis
    by (simp add: negativeScaleInt64_def)
qed

section \<open>The suffixes\<close>

lemma decSuffixes_lookup:
  "suffixer_lookup decSuffixes s = map_of
     [([], 10, 0), (''n'', 10, - 9), (''u'', 10, - 6), (''m'', 10, - 3), (''k'', 10, 3), (''M'', 10, 6),
      (''G'', 10, 9), (''T'', 10, 12), (''P'', 10, 15), (''E'', 10, 18)] s"
  by (simp add: suffixer_lookup_def decSuffixes_def addSuffix_def no_suffixes_def)

lemma binSuffixes_lookup:
  "suffixer_lookup binSuffixes s = map_of
     [(''Ki'', 2, 10), (''Mi'', 2, 20), (''Gi'', 2, 30), (''Ti'', 2, 40), (''Pi'', 2, 50), (''Ei'', 2, 60)] s"
  by (simp add: suffixer_lookup_def binSuffixes_def addSuffix_def no_suffixes_def)

text \<open>The table of the suffixes, with the exponent of an \<open>e\<close> read as an \<open>int32\<close>.\<close>

lemma interpret_suffix_eq:
  "interpret_suffix s =
     (case map_of
         [([], 10, 0, DecimalSI), (''n'', 10, - 9, DecimalSI), (''u'', 10, - 6, DecimalSI), (''m'', 10, - 3, DecimalSI),
          (''k'', 10, 3, DecimalSI), (''M'', 10, 6, DecimalSI), (''G'', 10, 9, DecimalSI), (''T'', 10, 12, DecimalSI),
          (''P'', 10, 15, DecimalSI), (''E'', 10, 18, DecimalSI), (''Ki'', 2, 10, BinarySI), (''Mi'', 2, 20, BinarySI),
          (''Gi'', 2, 30, BinarySI), (''Ti'', 2, 40, BinarySI), (''Pi'', 2, 50, BinarySI), (''Ei'', 2, 60, BinarySI)] s of
        Some r \<Rightarrow> Some r
      | None \<Rightarrow>
          if length s > 1 \<and> (hd s = CHR ''E'' \<or> hd s = CHR ''e'')
          then map_option (\<lambda>parsed. (10, wrap32 parsed, DecimalExponent)) (parse_int64 (tl s))
          else None)"
  by (simp add: interpret_suffix_def handler_interpret_def decSuffixes_lookup binSuffixes_lookup)

lemma interpret_suffix_cases:
  assumes "interpret_suffix s = Some (b, e, f)"
  obtains (dec) "b = 10" "f = DecimalSI" "- 9 \<le> e" "e \<le> 18"
    | (bin) k where "b = 2" "f = BinarySI" "e = 10 * k" "1 \<le> k" "k \<le> 6"
    | (exp) "b = 10" "f = DecimalExponent" "- (2 ^ 31) \<le> e" "e < 2 ^ 31"
  using assms wrap32_range
  by (auto simp: interpret_suffix_eq split: if_splits option.splits)

section \<open>The first way\<close>

definition unit_mult :: "format \<Rightarrow> int \<Rightarrow> int" where
  "unit_mult f e = (if f = BinarySI then 2 ^ nat e else 1)"

lemma int64Multiply_exact:
  assumes "0 \<le> sint a" and "1 \<le> sint b" and "sint a * sint b < 2 ^ 63"
  shows "int64Multiply a b = (a * b, True)" "sint (a * b) = sint a * sint b"
proof -
  show ab: "sint (a * b) = sint a * sint b"
    using assms by (intro sint_mult_exact) (simp_all add: order_trans [of _ 0])
  have "go_div (a * b) b = a"
    using assms(2) by (simp add: go_div_def ab sdiv_mult_self)
  moreover have "a \<noteq> mostNegative" "b \<noteq> mostNegative"
    using assms(1,2) by (auto simp: mostNegative_def sint_of_range)
  ultimately show "int64Multiply a b = (a * b, True)" by (simp add: int64Multiply_def Let_def)
qed

lemma fast_plan_cases:
  assumes "interpret_suffix suf = Some (b, e, f)" and "digits num" and "digits denom" and "num \<noteq> []"
    and "int (length num + length denom) < 2 ^ 30" and "fast_plan f e num denom = (precision, scale, mantissa)"
    and "precision \<ge> 0"
  shows "length (num @ denom) \<le> 18" "scale = (if f = BinarySI then 0 else e)" "f = BinarySI \<longrightarrow> denom = []"
    and "sint mantissa = unit_mult f e" "1 \<le> unit_mult f e" "int (dec_value (num @ denom)) * unit_mult f e < 2 ^ 63"
proof -
  have "length (num @ denom) \<le> 18 \<and> scale = (if f = BinarySI then 0 else e) \<and> (f = BinarySI \<longrightarrow> denom = []) \<and>
    sint mantissa = unit_mult f e \<and> 1 \<le> unit_mult f e \<and> int (dec_value (num @ denom)) * unit_mult f e < 2 ^ 63"
  proof (cases "f = BinarySI")
    case False
    then have len: "length (num @ denom) \<le> 18" and rest: "scale = e" "mantissa = 1"
      using assms(5-7) by (auto simp: fast_plan_def split: format.splits)
    have "dec_value (num @ denom) < 10 ^ length (num @ denom)" using assms(2,3) by (intro dec_value_less) simp
    also have "(10 :: nat) ^ length (num @ denom) \<le> 10 ^ 18" using len by (intro power_increasing) simp_all
    finally have "int (dec_value (num @ denom)) < int (10 ^ 18)" by (simp only: of_nat_less_iff)
    also have "int (10 ^ 18) < 2 ^ 63" by simp
    finally have "int (dec_value (num @ denom)) < 2 ^ 63" .
    then show ?thesis using False len rest by (simp add: unit_mult_def)
  next
    case True
    with assms(1) obtain k where e: "e = 10 * k" "1 \<le> k" "k \<le> 6"
      by (auto elim: interpret_suffix_cases)
    have denom: "denom = []" and rest: "scale = 0" "mantissa = push_bit (nat e) 1"
      and len: "0 \<le> 15 - int (length num) - e * 3 div 10 - 1"
      using assms(5-7) True e by (auto simp: fast_plan_def split: if_splits)
    have k: "k = 1 \<or> k = 2 \<or> k = 3 \<or> k = 4 \<or> k = 5 \<or> k = 6" using e by auto
    have lk: "int (length num) \<le> 14 - 3 * k" using len e(1) by simp
    have mant: "sint (push_bit (nat e) 1 :: int64) = 2 ^ nat e"
      using k e(1) by auto
    have "dec_value num < 10 ^ length num" using assms(2) by (rule dec_value_less)
    also have "(10 :: nat) ^ length num \<le> 10 ^ nat (14 - 3 * k)" using lk by (intro power_increasing) simp_all
    finally have "int (dec_value num) < 10 ^ nat (14 - 3 * k)" by (metis of_nat_less_iff of_nat_numeral of_nat_power)
    then have "int (dec_value num) * 2 ^ nat e < 10 ^ nat (14 - 3 * k) * 2 ^ nat e" by simp
    also have "(10 :: int) ^ nat (14 - 3 * k) * 2 ^ nat e < 2 ^ 63" using k e(1) by auto
    finally show ?thesis using True denom rest mant lk e by (simp add: unit_mult_def)
  qed
  then show "length (num @ denom) \<le> 18" "scale = (if f = BinarySI then 0 else e)" "f = BinarySI \<longrightarrow> denom = []"
    and "sint mantissa = unit_mult f e" "1 \<le> unit_mult f e" "int (dec_value (num @ denom)) * unit_mult f e < 2 ^ 63"
    by blast+
qed

lemma parse_fast_eq:
  assumes "digits (sc_num sc)" and "digits (sc_denom sc)" and "sc_num sc \<noteq> []"
    and "length (sc_num sc @ sc_denom sc) \<le> 18" and "sint mantissa = m" and "1 \<le> m"
    and "int (scanned_number sc) * m < 2 ^ 63"
  obtains t where "parse_fast str sc e f scale mantissa =
    Some (Ok \<lparr>pq_amount = Int64Amount (word_of_int (scanned_sign sc * (int (scanned_number sc) * m))) scale,
              pq_format = f, pq_s = t\<rparr>)"
proof -
  let ?n = "int (scanned_number sc)"
  have pi: "parse_int64 (sc_num sc @ sc_denom sc) = Some ?n"
    unfolding scanned_number_def using assms(1-4) by (intro parse_int64_digits) simp_all
  have n: "sint (word_of_int ?n :: int64) = ?n"
    using parse_int64_range [OF pi] by (intro sint_of_range) simp_all
  have mw: "mantissa = word_of_int m" by (metis assms(5) word_of_sint)
  have mult: "int64Multiply (word_of_int ?n) mantissa = (word_of_int (?n * m), True)"
    using int64Multiply_exact(1) [of "word_of_int ?n" mantissa] assms(5-7) n mw by simp
  have neg: "(if \<not> sc_positive sc then - word_of_int (?n * m) else word_of_int (?n * m)) =
      (word_of_int (scanned_sign sc * (?n * m)) :: int64)"
    by (simp add: scanned_sign_def)
  show ?thesis
    using that unfolding parse_fast_def Let_def pi option.case mult prod.case neg simp_thms if_False by blast
qed

section \<open>The second way\<close>

text \<open>A non-negative number of scale \<open>S\<close> in units of \<open>10 ^ -9\<close>, rounded up.\<close>

definition nano :: "int \<Rightarrow> int \<Rightarrow> int" where
  "nano u S = (if S \<le> 9 then u * 10 ^ nat (9 - S) else ceil_div u (10 ^ nat (S - 9)))"

lemma nano_nonneg: "0 \<le> u \<Longrightarrow> 0 \<le> nano u S"
  by (simp add: nano_def ceil_div_nonneg)

lemma nano_pos: "0 < u \<Longrightarrow> 0 < nano u S"
  using ceil_div_le_iff [of "10 ^ nat (S - 9)" u 0] by (simp add: nano_def)

lemma exp10_nonneg: "0 \<le> x \<Longrightarrow> exp10 x = Ok (10 ^ nat x)"
  by (simp add: exp10_def)

lemma round_up_quotient:
  assumes "0 \<le> a" and "0 < b"
  shows "RoundUp \<lparr>dec_unscaled = a sdiv b, dec_scale = s\<rparr> (a smod b) b = \<lparr>dec_unscaled = ceil_div a b, dec_scale = s\<rparr>"
proof -
  have "a sdiv b = a div b" "a smod b = a mod b"
    using assms by (cases "a = 0"; simp add: signed_divide_int_def signed_modulo_int_def)+
  moreover have "a mod b \<noteq> 0 \<Longrightarrow> 0 < a mod b" using assms pos_mod_sign [of b a] by linarith
  ultimately show ?thesis using assms by (cases "a mod b = 0") (simp_all add: RoundUp_def ceil_div_eq)
qed

text \<open>Rounding to \<open>10 ^ -9\<close>, and the only scale for which it indexes outside the table.\<close>

lemma dec_Round_nano:
  assumes "0 \<le> u" and "9 - 2 ^ 31 < S" and "S < 2 ^ 31"
  shows "dec_Round \<lparr>dec_unscaled = u, dec_scale = S\<rparr> 9 RoundUp = Ok \<lparr>dec_unscaled = nano u S, dec_scale = 9\<rparr>"
proof -
  have sh: "wrap32 (9 - wrap32 S) = 9 - S" "wrap32 (S - 9) = S - 9" using assms by simp_all
  consider "S < 9" | "S = 9" | "9 < S" by linarith
  then show ?thesis
  proof cases
    case 1
    then show ?thesis
      using round_up_quotient [of "u * 10 ^ nat (9 - S)" 1 9] assms(1)
      by (simp add: dec_Round_def dec_quoRem_def sh exp10_nonneg nano_def Let_def)
  next
    case 2
    then show ?thesis
      using round_up_quotient [of u 1 9] assms(1) by (simp add: dec_Round_def dec_quoRem_def nano_def)
  next
    case 3
    then show ?thesis
      using round_up_quotient [of u "10 ^ nat (S - 9)" 9] assms(1)
      by (simp add: dec_Round_def dec_quoRem_def sh exp10_nonneg nano_def Let_def)
  qed
qed

lemma dec_Round_panics:
  "dec_Round \<lparr>dec_unscaled = u, dec_scale = 9 - 2 ^ 31\<rparr> 9 RoundUp = Panic (PanicText ''runtime error: index out of range'')"
proof -
  have "wrap32 (2 ^ 31) = - (2 ^ 31)" by (simp add: wrap32_def)
  then show ?thesis by (simp add: dec_Round_def dec_quoRem_def exp10_def)
qed

lemma dec_Round_wrapped:
  assumes "S < 9 - 2 ^ 31" and "- (2 ^ 31) \<le> S"
  shows "\<exists>d. dec_Round \<lparr>dec_unscaled = u, dec_scale = S\<rparr> 9 r = Ok d"
proof -
  have "wrap32 (9 - S) = wrap32 (9 - S - 2 ^ 32)" using wrap32_period [of "9 - S - 2 ^ 32"] by simp
  then have "wrap32 (9 - S) = 9 - S - 2 ^ 32" using assms by simp
  then show ?thesis
    using assms by (auto simp: dec_Round_def dec_quoRem_def exp10_nonneg split: prod.splits)
qed

lemma dec_Cmp_int:
  assumes "0 \<le> S" and "S < 2 ^ 31"
  shows "dec_Cmp \<lparr>dec_unscaled = u, dec_scale = S\<rparr> \<lparr>dec_unscaled = k, dec_scale = 0\<rparr> = Ok (sgn (u - k * 10 ^ nat S))"
  using assms by (simp add: dec_Cmp_def dec_upscale_def dec_rescale_def exp10_nonneg)

lemma parse_cap_Ok:
  assumes "f = BinarySI \<longrightarrow> 0 \<le> S \<and> S < 2 ^ 31"
  obtains f' where "parse_cap f \<lparr>dec_unscaled = u, dec_scale = S\<rparr> =
    Ok (if f = BinarySI \<and> u > (2 ^ 63 - 1) * 10 ^ nat S then maxAllowed else \<lparr>dec_unscaled = u, dec_scale = S\<rparr>, f')"
proof (cases "f = BinarySI")
  case False
  then show thesis using that by (simp add: parse_cap_def)
next
  case True
  with assms have S: "0 \<le> S" "S < 2 ^ 31" by simp_all
  note cmp = dec_Cmp_int [OF S] dec_Cmp_int [of 0]
  show thesis
  proof (cases "u > (2 ^ 63 - 1) * 10 ^ nat S")
    case big: True
    then have "0 < u - (2 ^ 63 - 1) * 10 ^ nat S" by simp
    then have "sgn (u - (2 ^ 63 - 1) * 10 ^ nat S) = 1" by (simp only: sgn_pos)
    then have "parse_cap f \<lparr>dec_unscaled = u, dec_scale = S\<rparr> = Ok (maxAllowed, f)"
      using True by (simp add: parse_cap_def maxAllowed_def cmp Let_def)
    then show thesis using that big True by simp
  next
    case small: False
    then have "sgn (u - (2 ^ 63 - 1) * 10 ^ nat S) \<le> 0" by (simp only: sgn_if) simp
    then have c: "\<not> 0 < sgn (u - (2 ^ 63 - 1) * 10 ^ nat S)" by linarith
    have "parse_cap f \<lparr>dec_unscaled = u, dec_scale = S\<rparr> = Ok (\<lparr>dec_unscaled = u, dec_scale = S\<rparr>,
        if 0 \<le> sgn (u - 1 * 10 ^ nat S) then f else if 0 < sgn (u - 0 * 10 ^ nat S) then DecimalSI else f)"
      using True unfolding parse_cap_def maxAllowed_def cmp Let_def rbind.simps if_not_P [OF c] by simp
    then show thesis using that small by simp
  qed
qed

text \<open>The scale and the unscaled amount, without its sign, that the second way starts from.\<close>

definition slow_scale :: "scanned \<Rightarrow> int \<Rightarrow> int \<Rightarrow> int" where
  "slow_scale sc b e = (if b = 10 then wrap32 (int (length (sc_denom sc)) - e) else int (length (sc_denom sc)))"

definition slow_amount :: "scanned \<Rightarrow> int \<Rightarrow> format \<Rightarrow> int" where
  "slow_amount sc e f = int (scanned_number sc) * unit_mult f e"

lemma unscaled_not_zero: "(case dec_Unscaled d of (v, ok) \<Rightarrow> v \<noteq> 0 \<or> \<not> ok) \<longleftrightarrow> dec_unscaled d \<noteq> 0"
  by (auto simp: dec_Unscaled_def Let_def sint_zero_iff)

lemma slow_amount_nonneg: "0 \<le> slow_amount sc e f"
  by (simp add: slow_amount_def unit_mult_def)

lemma parse_slow_eq:
  assumes form: "quantity_form s sc" and len: "length s < 2 ^ 30"
    and suf: "interpret_suffix (sc_suffix sc) = Some (b, e, f)"
  shows "parse_slow sc b e f =
    (if \<not> has_digit (sc_value sc) then Err ErrNumeric
     else
       let u = slow_amount sc e f; S = slow_scale sc b e; neg = (scanned_sign sc = - 1 \<and> u \<noteq> 0) in
       rbind (if u \<noteq> 0 then dec_Round \<lparr>dec_unscaled = u, dec_scale = S\<rparr> 9 RoundUp
              else Ok \<lparr>dec_unscaled = u, dec_scale = S\<rparr>) (\<lambda>amount.
       rbind (parse_cap f amount) (\<lambda>(amount, f').
       let amount = (if neg then dec_Neg amount else amount) in
       Ok \<lparr>pq_amount = InfDecAmount (dec_unscaled amount) (dec_scale amount), pq_format = f', pq_s = []\<rparr>)))"
proof (cases "has_digit (sc_value sc)")
  case False
  then show ?thesis using quantity_form_scanned(4) [OF form] by (simp add: parse_slow_def)
next
  case True
  let ?u = "slow_amount sc e f" and ?S = "slow_scale sc b e" and ?sg = "scanned_sign sc"
  have lend: "int (length (sc_denom sc)) < 2 ^ 30" using quantity_form_scanned(5) [OF form] len by simp
  then have wl: "wrap32 (int (length (sc_denom sc))) = int (length (sc_denom sc))" by simp
  have sg: "?sg = 1 \<or> ?sg = - 1" by (simp add: scanned_sign_def)
  have u: "0 \<le> ?u" by (rule slow_amount_nonneg)
  define am where "am = \<lparr>dec_unscaled = ?sg * ?u, dec_scale = ?S\<rparr>"
  have start: "(if b = 10 then dec_SetScale (wrap32 (dec_scale d + wrap32 (- e))) d
      else if b = 2 then d\<lparr>dec_unscaled := dec_unscaled d * push_bit (nat e) 1\<rparr> else d) = am"
    if "d = \<lparr>dec_unscaled = ?sg * int (scanned_number sc), dec_scale = int (length (sc_denom sc))\<rparr>" for d
    using suf
  proof (cases rule: interpret_suffix_cases)
    case dec
    then show ?thesis
      by (simp add: that am_def slow_scale_def slow_amount_def unit_mult_def dec_SetScale_def wrap32_add)
  next
    case (bin k)
    then show ?thesis
      by (simp add: that am_def slow_scale_def slow_amount_def unit_mult_def push_bit_eq_mult mult.assoc)
  next
    case exp
    then show ?thesis
      by (simp add: that am_def slow_scale_def slow_amount_def unit_mult_def dec_SetScale_def wrap32_add)
  qed
  have sign: "dec_Sign am = - 1 \<longleftrightarrow> ?sg = - 1 \<and> ?u \<noteq> 0"
    using sg u by (auto simp: am_def dec_Sign_def sgn_if)
  have pos: "(if ?sg = - 1 \<and> ?u \<noteq> 0 then dec_Neg am else am) = \<lparr>dec_unscaled = ?u, dec_scale = ?S\<rparr>"
    using sg u by (auto simp: am_def dec_Neg_def)
  note num = quantity_form_scanned(4) [OF form, unfolded wl if_P [OF True]]
  have nz: "(case dec_Unscaled \<lparr>dec_unscaled = ?u, dec_scale = ?S\<rparr> of (v, ok) \<Rightarrow>
      rbind (if v \<noteq> 0 \<or> \<not> ok then A else B) F) = rbind (if ?u \<noteq> 0 then A else B) F" for A B :: "dec result" and F :: "dec \<Rightarrow> 'z result"
    using unscaled_not_zero [of "\<lparr>dec_unscaled = ?u, dec_scale = ?S\<rparr>"] by (cases "dec_Unscaled \<lparr>dec_unscaled = ?u, dec_scale = ?S\<rparr>") simp
  show ?thesis
    using True unfolding parse_slow_def num option.case Let_def start [OF refl] pos sign nz by simp
qed

lemma parse_slow_zero:
  assumes form: "quantity_form s sc" and len: "length s < 2 ^ 30"
    and suf: "interpret_suffix (sc_suffix sc) = Some (b, e, f)" and dig: "has_digit (sc_value sc)"
    and zero: "scanned_number sc = 0"
  obtains f' where "parse_slow sc b e f = Ok \<lparr>pq_amount = InfDecAmount 0 (slow_scale sc b e), pq_format = f', pq_s = []\<rparr>"
proof -
  have u: "slow_amount sc e f = 0" by (simp add: slow_amount_def zero)
  have lend: "int (length (sc_denom sc)) < 2 ^ 31" using quantity_form_scanned(5) [OF form] len by simp
  have "f = BinarySI \<longrightarrow> 0 \<le> slow_scale sc b e \<and> slow_scale sc b e < 2 ^ 31"
    using suf lend by (cases rule: interpret_suffix_cases) (auto simp: slow_scale_def)
  from parse_cap_Ok [OF this, of 0] obtain f' where
    "parse_cap f \<lparr>dec_unscaled = 0, dec_scale = slow_scale sc b e\<rparr> = Ok (\<lparr>dec_unscaled = 0, dec_scale = slow_scale sc b e\<rparr>, f')"
    by (auto split: if_splits simp: not_less [symmetric])
  then show thesis
    using that dig by (simp add: parse_slow_eq [OF form len suf] u Let_def)
qed

lemma capped_amount:
  "InfDecAmount (sg * dec_unscaled (if C then maxAllowed else \<lparr>dec_unscaled = n, dec_scale = s\<rparr>))
     (dec_scale (if C then maxAllowed else \<lparr>dec_unscaled = n, dec_scale = s\<rparr>)) =
   (if C then InfDecAmount (sg * (2 ^ 63 - 1)) 0 else InfDecAmount (sg * n) s)"
  by (simp add: maxAllowed_def)

lemma parse_slow_Ok:
  assumes form: "quantity_form s sc" and len: "length s < 2 ^ 30"
    and suf: "interpret_suffix (sc_suffix sc) = Some (b, e, f)" and dig: "has_digit (sc_value sc)"
    and nonzero: "scanned_number sc \<noteq> 0" and S: "9 - 2 ^ 31 < slow_scale sc b e"
  obtains f' where "parse_slow sc b e f = Ok
    \<lparr>pq_amount =
       (if f = BinarySI \<and> nano (slow_amount sc e f) (slow_scale sc b e) > (2 ^ 63 - 1) * 10 ^ 9
        then InfDecAmount (scanned_sign sc * (2 ^ 63 - 1)) 0
        else InfDecAmount (scanned_sign sc * nano (slow_amount sc e f) (slow_scale sc b e)) 9),
     pq_format = f', pq_s = []\<rparr>"
proof -
  let ?u = "slow_amount sc e f" and ?S = "slow_scale sc b e"
  have u: "0 < ?u" using nonzero by (simp add: slow_amount_def unit_mult_def)
  have lend: "int (length (sc_denom sc)) < 2 ^ 31" using quantity_form_scanned(5) [OF form] len by simp
  have S2: "?S < 2 ^ 31" using lend wrap32_range by (simp add: slow_scale_def)
  have round: "dec_Round \<lparr>dec_unscaled = ?u, dec_scale = ?S\<rparr> 9 RoundUp = Ok \<lparr>dec_unscaled = nano ?u ?S, dec_scale = 9\<rparr>"
    using u S S2 by (intro dec_Round_nano) simp_all
  have "f = BinarySI \<longrightarrow> 0 \<le> (9 :: int) \<and> (9 :: int) < 2 ^ 31" by simp
  from parse_cap_Ok [OF this, of "nano ?u ?S"] obtain f' where cap: "parse_cap f \<lparr>dec_unscaled = nano ?u ?S, dec_scale = 9\<rparr> =
      Ok (if f = BinarySI \<and> nano ?u ?S > (2 ^ 63 - 1) * 10 ^ 9 then maxAllowed
          else \<lparr>dec_unscaled = nano ?u ?S, dec_scale = 9\<rparr>, f')" by auto
  have sg: "scanned_sign sc = 1 \<or> scanned_sign sc = - 1" by (simp add: scanned_sign_def)
  have ne: "?u \<noteq> 0" and nd: "\<not> \<not> has_digit (sc_value sc)" using u dig by simp_all
  define r where "r = (if f = BinarySI \<and> nano ?u ?S > (2 ^ 63 - 1) * 10 ^ 9 then maxAllowed
    else \<lparr>dec_unscaled = nano ?u ?S, dec_scale = 9\<rparr>)"
  have slow: "parse_slow sc b e f = Ok \<lparr>pq_amount = InfDecAmount (scanned_sign sc * dec_unscaled r) (dec_scale r), pq_format = f', pq_s = []\<rparr>"
    unfolding parse_slow_eq [OF form len suf] Let_def if_not_P [OF nd] if_P [OF ne] round rbind.simps cap r_def [symmetric]
    using sg ne by (auto simp: dec_Neg_def)
  have "InfDecAmount (scanned_sign sc * dec_unscaled r) (dec_scale r) =
      (if f = BinarySI \<and> nano ?u ?S > (2 ^ 63 - 1) * 10 ^ 9
       then InfDecAmount (scanned_sign sc * (2 ^ 63 - 1)) 0 else InfDecAmount (scanned_sign sc * nano ?u ?S) 9)"
    unfolding r_def by (rule capped_amount)
  with slow show thesis using that by simp
qed

end
