(* ===== verification/QuantitySpec.thy ===== *)
theory QuantitySpec
  imports QuantityValue RenderConfig
begin

text \<open>
  The way of a size from the text of a \<open>NodeSwap\<close> to the argument of \<open>fallocate\<close>: what \<open>ParseQuantity\<close>
  returns for every text, the bytes that a size with a unit stands for, and that \<open>MkswapSizeArg\<close>
  prints what \<open>ParseQuantity\<close> reads back.
\<close>

text \<open>The quantity a field holds; the text that \<open>String\<close> returns is left open.\<close>

definition quantity_of :: "string \<Rightarrow> parsed_quantity \<Rightarrow> quantity" where
  "quantity_of t p = \<lparr>q_amount = pq_amount p, q_string = t\<rparr>"

section \<open>Which way is taken\<close>

definition takes_fast :: "format \<Rightarrow> int \<Rightarrow> scanned \<Rightarrow> bool" where
  "takes_fast f e sc \<longleftrightarrow>
     (case fast_plan f e (sc_num sc) (sc_denom sc) of (precision, scale, mantissa) \<Rightarrow>
        precision \<ge> 0 \<and> wrap32 (scale - int (length (sc_denom sc))) \<ge> - 9)"

definition fast_scale :: "format \<Rightarrow> int \<Rightarrow> scanned \<Rightarrow> int" where
  "fast_scale f e sc = (if f = BinarySI then 0 else wrap32 (e - int (length (sc_denom sc))))"

lemma parseQuantityString_no_panic: "no_panic (parseQuantityString s)"
  by (simp add: parseQuantityString_def scan_suffix_def Let_def)

lemma form_lengths:
  assumes "quantity_form s sc"
  shows "length (sc_num sc) + length (sc_denom sc) \<le> length s + 1"
  using assms
proof cases
  case (Whole sg ds suf)
  then show ?thesis using length_dropWhile_le [of "\<lambda>c. c = CHR ''0''" ds]
    by (auto simp: full_scan_def num_part_def Let_def)
next
  case (Fraction sg ds fs suf)
  then show ?thesis using length_dropWhile_le [of "\<lambda>c. c = CHR ''0''" ds]
    by (auto simp: full_scan_def num_part_def Let_def)
qed (simp add: blank_scan_def)

lemma number_has_digit:
  assumes "quantity_form s sc" and "scanned_number sc \<noteq> 0"
  shows "has_digit (sc_value sc)"
  using assms
proof cases
  case (Whole sg ds suf)
  then have "ds \<noteq> []" using assms(2) by (auto simp: full_scan_def scanned_number_def num_part_def)
  then show ?thesis using Whole by (cases ds) (auto simp: full_scan_def has_digit_def)
next
  case (Fraction sg ds fs suf)
  then have "ds @ fs \<noteq> []" using assms(2) by (auto simp: full_scan_def scanned_number_def num_part_def)
  then show ?thesis using Fraction by (cases ds; cases fs) (auto simp: full_scan_def has_digit_def)
qed (simp add: blank_scan_def scanned_number_def)

lemma ParseQuantity_refuses:
  assumes "s \<noteq> []" and "s \<noteq> ''0''"
  shows "(\<nexists>sc. quantity_form s sc) \<Longrightarrow> \<exists>e. ParseQuantity s = Err e"
    and "quantity_form s sc \<Longrightarrow> interpret_suffix (sc_suffix sc) = None \<Longrightarrow> ParseQuantity s = Err ErrSuffix"
proof -
  assume "\<nexists>sc. quantity_form s sc"
  then have "\<exists>e. parseQuantityString s = Err e"
    using scanned_form [of s] parseQuantityString_no_panic [of s] by (cases "parseQuantityString s") auto
  then show "\<exists>e. ParseQuantity s = Err e" using assms by (auto simp: ParseQuantity_def)
next
  assume "quantity_form s sc" and "interpret_suffix (sc_suffix sc) = None"
  then show "ParseQuantity s = Err ErrSuffix" using assms by (simp add: ParseQuantity_def form_scanned)
qed

lemma ParseQuantity_ways:
  assumes form: "quantity_form s sc" and s: "s \<noteq> []" "s \<noteq> ''0''" and len: "length s < 2 ^ 29"
    and suf: "interpret_suffix (sc_suffix sc) = Some (b, e, f)"
  shows "\<not> takes_fast f e sc \<Longrightarrow> ParseQuantity s = parse_slow sc b e f"
    and "takes_fast f e sc \<Longrightarrow> \<exists>t. ParseQuantity s = Ok
       \<lparr>pq_amount = Int64Amount (word_of_int (scanned_sign sc * slow_amount sc e f)) (fast_scale f e sc),
        pq_format = f, pq_s = t\<rparr>"
    and "takes_fast f e sc \<Longrightarrow> slow_amount sc e f < 2 ^ 63"
    and "takes_fast f e sc \<Longrightarrow> length (sc_num sc @ sc_denom sc) \<le> 18"
    and "takes_fast f e sc \<Longrightarrow> f = BinarySI \<longrightarrow> sc_denom sc = []"
    and "takes_fast f e sc \<Longrightarrow> - 9 \<le> fast_scale f e sc"
proof -
  note parts = quantity_form_scanned [OF form]
  obtain precision scale mantissa where plan: "fast_plan f e (sc_num sc) (sc_denom sc) = (precision, scale, mantissa)"
    by (metis prod_cases3)
  have lend: "wrap32 (int (length (sc_denom sc))) = int (length (sc_denom sc))"
    using parts(5) len by simp
  have fast: "takes_fast f e sc \<longleftrightarrow> precision \<ge> 0 \<and> wrap32 (scale - int (length (sc_denom sc))) \<ge> - 9"
    by (simp add: takes_fast_def plan)
  have eq: "ParseQuantity s =
      (if takes_fast f e sc
       then (case parse_fast s sc e f (wrap32 (scale - int (length (sc_denom sc)))) mantissa of
               Some r \<Rightarrow> r | None \<Rightarrow> parse_slow sc b e f)
       else parse_slow sc b e f)"
    using s unfolding fast by (simp add: ParseQuantity_def form_scanned [OF form] suf plan lend Let_def)
  then show "\<not> takes_fast f e sc \<Longrightarrow> ParseQuantity s = parse_slow sc b e f" by simp
  assume tf: "takes_fast f e sc"
  then have prec: "precision \<ge> 0" using fast by simp
  have "int (length (sc_num sc) + length (sc_denom sc)) < 2 ^ 30"
    using form_lengths [OF form] len by simp
  note pl = fast_plan_cases [OF suf parts(1-3) this plan prec]
  show "f = BinarySI \<longrightarrow> sc_denom sc = []" by (rule pl(3))
  show "length (sc_num sc @ sc_denom sc) \<le> 18" by (rule pl(1))
  have sca: "wrap32 (scale - int (length (sc_denom sc))) = fast_scale f e sc"
    using pl(2,3) by (auto simp: fast_scale_def)
  then show "- 9 \<le> fast_scale f e sc" using tf fast by simp
  show "slow_amount sc e f < 2 ^ 63"
    using pl(6) by (simp only: slow_amount_def scanned_number_def)
  have "int (scanned_number sc) * unit_mult f e < 2 ^ 63" using pl(6) by (simp only: scanned_number_def)
  from parse_fast_eq [OF parts(1-3) pl(1,4,5) this] obtain t where
    "parse_fast s sc e f (wrap32 (scale - int (length (sc_denom sc)))) mantissa =
      Some (Ok \<lparr>pq_amount = Int64Amount (word_of_int (scanned_sign sc * slow_amount sc e f)) (fast_scale f e sc),
        pq_format = f, pq_s = t\<rparr>)"
    unfolding sca slow_amount_def by blast
  then show "\<exists>t. ParseQuantity s = Ok
       \<lparr>pq_amount = Int64Amount (word_of_int (scanned_sign sc * slow_amount sc e f)) (fast_scale f e sc),
        pq_format = f, pq_s = t\<rparr>"
    using eq tf by simp
qed

section \<open>The only panic\<close>

definition wraps_around :: "string \<Rightarrow> bool" where
  "wraps_around s \<longleftrightarrow>
     (\<exists>sc e. quantity_form s sc \<and> interpret_suffix (sc_suffix sc) = Some (10, e, DecimalExponent)
        \<and> 18 < length (sc_num sc @ sc_denom sc) \<and> wrap32 (int (length (sc_denom sc)) - e) = 9 - 2 ^ 31
        \<and> scanned_number sc \<noteq> 0)"

lemma parse_slow_panics:
  assumes form: "quantity_form s sc" and len: "length s < 2 ^ 29"
    and suf: "interpret_suffix (sc_suffix sc) = Some (b, e, f)"
  shows "(\<exists>p. parse_slow sc b e f = Panic p) \<longleftrightarrow> scanned_number sc \<noteq> 0 \<and> slow_scale sc b e = 9 - 2 ^ 31"
proof (cases "has_digit (sc_value sc) \<and> scanned_number sc \<noteq> 0")
  case False
  have len': "length s < 2 ^ 30" using len by simp
  have n: "scanned_number sc = 0" using False number_has_digit [OF form] by blast
  have "\<exists>r. parse_slow sc b e f = Err r" if "\<not> has_digit (sc_value sc)"
    using parse_slow_eq [OF form len' suf] that by simp
  moreover have "\<exists>q. parse_slow sc b e f = Ok q" if "has_digit (sc_value sc)"
    using parse_slow_zero [OF form len' suf that n] by metis
  ultimately show ?thesis using n by (cases "has_digit (sc_value sc)") auto
next
  case True
  have len': "length s < 2 ^ 30" using len by simp
  have u: "slow_amount sc e f \<noteq> 0" using True by (simp add: slow_amount_def unit_mult_def)
  consider "slow_scale sc b e = 9 - 2 ^ 31" | "9 - 2 ^ 31 < slow_scale sc b e" | "slow_scale sc b e < 9 - 2 ^ 31"
    by linarith
  then show ?thesis
  proof cases
    case 1
    have dig: "\<not> \<not> has_digit (sc_value sc)" using True by simp
    have "parse_slow sc b e f = Panic (PanicText ''runtime error: index out of range'')"
      unfolding parse_slow_eq [OF form len' suf] Let_def if_not_P [OF dig] if_P [OF u] 1 dec_Round_panics by simp
    then show ?thesis using True 1 by simp
  next
    case 2
    from parse_slow_Ok [OF form len' suf conjunct1 [OF True] conjunct2 [OF True] 2]
    have "\<exists>q. parse_slow sc b e f = Ok q" by metis
    then show ?thesis using 2 by auto
  next
    case 3
    then have b: "b = 10" by (simp add: slow_scale_def split: if_splits)
    then have lo: "- (2 ^ 31) \<le> slow_scale sc b e" using wrap32_range by (simp add: slow_scale_def)
    have f: "f \<noteq> BinarySI" using suf b by (cases rule: interpret_suffix_cases) auto
    from dec_Round_wrapped [OF 3 lo] obtain d where
      "dec_Round \<lparr>dec_unscaled = slow_amount sc e f, dec_scale = slow_scale sc b e\<rparr> 9 RoundUp = Ok d" by blast
    then have "\<exists>q. parse_slow sc b e f = Ok q"
      using True u f by (simp add: parse_slow_eq [OF form len' suf] Let_def parse_cap_def)
    then show ?thesis using 3 by auto
  qed
qed

lemma not_wraps_around: "wraps_around s \<Longrightarrow> s \<noteq> [] \<and> s \<noteq> ''0''"
  using form_lengths [of s] by (fastforce simp: wraps_around_def)

lemma panic_wraps_around:
  assumes s: "s \<noteq> []" "s \<noteq> ''0''" and len: "length s < 2 ^ 29" and p: "ParseQuantity s = Panic p"
  shows "wraps_around s"
proof -
  obtain sc where form: "quantity_form s sc" using ParseQuantity_refuses(1) [OF s] p by fastforce
  obtain b e f where suf: "interpret_suffix (sc_suffix sc) = Some (b, e, f)"
    using ParseQuantity_refuses(2) [OF s form] p by (cases "interpret_suffix (sc_suffix sc)") auto
  note ways = ParseQuantity_ways [OF form s len suf]
  have slow: "\<not> takes_fast f e sc" and "parse_slow sc b e f = Panic p" using ways(1,2) p by force+
  then have n: "scanned_number sc \<noteq> 0" and S: "slow_scale sc b e = 9 - 2 ^ 31"
    using parse_slow_panics [OF form len suf] by auto
  have b: "b = 10" using S by (simp add: slow_scale_def split: if_splits)
  have wr: "wrap32 (int (length (sc_denom sc)) - e) = 9 - 2 ^ 31" using S by (simp add: slow_scale_def b)
  have lend: "int (length (sc_denom sc)) < 2 ^ 30" using quantity_form_scanned(5) [OF form] len by simp
  have f: "f = DecimalExponent"
    using suf
  proof (cases rule: interpret_suffix_cases)
    case dec
    then show ?thesis using wr lend by simp
  qed (use b in auto)
  have "wrap32 (e - int (length (sc_denom sc))) = 2 ^ 31 - 9"
    using wrap32_minus [of "int (length (sc_denom sc)) - e"] wr by simp
  then have "\<not> 0 \<le> wrap32 (18 - wrap32 (int (length (sc_num sc) + length (sc_denom sc))))"
    using slow by (simp add: takes_fast_def fast_plan_def f)
  moreover have "int (length (sc_num sc) + length (sc_denom sc)) < 2 ^ 30" using form_lengths [OF form] len by simp
  ultimately have "18 < length (sc_num sc @ sc_denom sc)" by simp
  then show ?thesis using form suf wr n unfolding wraps_around_def b f by blast
qed

lemma wraps_around_panics:
  assumes "wraps_around s" and len: "length s < 2 ^ 29"
  shows "\<exists>p. ParseQuantity s = Panic p"
proof -
  obtain sc e where form: "quantity_form s sc" and suf: "interpret_suffix (sc_suffix sc) = Some (10, e, DecimalExponent)"
    and num: "18 < length (sc_num sc @ sc_denom sc)" and wr: "wrap32 (int (length (sc_denom sc)) - e) = 9 - 2 ^ 31"
    and n: "scanned_number sc \<noteq> 0"
    using assms(1) unfolding wraps_around_def by blast
  have s: "s \<noteq> []" "s \<noteq> ''0''" using not_wraps_around [OF assms(1)] by simp_all
  note ways = ParseQuantity_ways [OF form s len suf]
  have "\<not> takes_fast DecimalExponent e sc" using ways(4) num by force
  then show ?thesis
    using ways(1) parse_slow_panics [OF form len suf] n wr by (simp add: slow_scale_def)
qed

lemma ParseQuantity_panics:
  assumes "length s < 2 ^ 29"
  shows "(\<exists>p. ParseQuantity s = Panic p) \<longleftrightarrow> wraps_around s"
proof (cases "s = [] \<or> s = ''0''")
  case True
  then show ?thesis using not_wraps_around [of s] by (auto simp: ParseQuantity_def)
next
  case False
  then show ?thesis using panic_wraps_around [of s] wraps_around_panics [of s] assms by blast
qed

section \<open>The size in bytes\<close>

text \<open>A number of scale \<open>S\<close> in whole units, rounded up.\<close>

definition whole :: "int \<Rightarrow> int \<Rightarrow> int" where
  "whole u S = (if S \<le> 0 then u * 10 ^ nat (- S) else ceil_div u (10 ^ nat S))"

lemma whole_nano: "ceil_div (nano u S) (10 ^ 9) = whole u S"
proof -
  consider "S \<le> 0" | "0 < S" "S \<le> 9" | "9 < S" by linarith
  then show ?thesis
  proof cases
    case 1
    then have "nat (9 - S) = nat (- S) + 9" by simp
    then have "nano u S = u * 10 ^ nat (- S) * 10 ^ 9" using 1 by (simp add: nano_def power_add)
    moreover have "ceil_div (u * 10 ^ nat (- S) * 10 ^ 9) (10 ^ 9) = u * 10 ^ nat (- S)" by (rule ceil_div_simps) simp
    ultimately show ?thesis using 1 by (simp only: whole_def if_True)
  next
    case 2
    then have "nat S + nat (9 - S) = 9" by simp
    then have "(10 :: int) ^ 9 = 10 ^ nat S * 10 ^ nat (9 - S)" by (metis power_add)
    moreover have "ceil_div (u * 10 ^ nat (9 - S)) (10 ^ nat S * 10 ^ nat (9 - S)) = ceil_div u (10 ^ nat S)"
      by (rule ceil_div_cancel) simp_all
    moreover have "\<not> S \<le> 0" using 2 by simp
    ultimately show ?thesis using 2 by (simp only: whole_def nano_def if_True if_False)
  next
    case 3
    then have "nat S = nat (S - 9) + 9" by simp
    then have "(10 :: int) ^ nat S = 10 ^ nat (S - 9) * 10 ^ 9" by (metis power_add)
    moreover have "ceil_div (ceil_div u (10 ^ nat (S - 9))) (10 ^ 9) = ceil_div u (10 ^ nat (S - 9) * 10 ^ 9)"
      by (rule ceil_div_twice) simp_all
    ultimately show ?thesis using 3 by (simp add: whole_def nano_def)
  qed
qed

lemma scaledValue_nano:
  assumes "0 \<le> M" and "ceil_div M (10 ^ 9) < 2 ^ 63"
  shows "sint (scaledValue M 9 0) = ceil_div M (10 ^ 9)"
proof -
  have ceil: "ceil_div M (10 ^ 9) = M div 10 ^ 9 + (if M mod 10 ^ 9 = 0 then 0 else 1)"
    by (rule ceil_div_eq) simp
  have div0: "0 \<le> M div 10 ^ 9" using assms(1) by (simp add: pos_imp_zdiv_nonneg_iff)
  have up: "sint (w + 1) = sint w + 1" if "sint w = M div 10 ^ 9" "M mod 10 ^ 9 \<noteq> 0" for w :: int64
    using that assms(2) ceil div0 by (intro sint_plus_one) simp_all
  show ?thesis
  proof (cases "M < 2 ^ 63 - 1")
    case True
    have M: "sint (word_of_int M :: int64) = M" using True assms(1) by (intro sint_of_range) simp_all
    have p: "sint (10 ^ 9 :: int64) = 10 ^ 9" by simp
    have q: "sint (go_div (word_of_int M) (10 ^ 9)) = M div 10 ^ 9" "sint (go_mod (word_of_int M) (10 ^ 9)) = M mod 10 ^ 9"
      using go_div_nonneg [of "word_of_int M" "10 ^ 9"] go_mod_nonneg [of "word_of_int M" "10 ^ 9"] M p assms(1) by simp_all
    have pw: "pow10_int64 (nat 9) = 10 ^ 9" by (simp add: pow10_int64_def)
    have sv: "scaledValue M 9 0 =
        (if go_mod (word_of_int M) (10 ^ 9) \<noteq> 0 then go_div (word_of_int M) (10 ^ 9) + 1 else go_div (word_of_int M) (10 ^ 9))"
      unfolding scaledValue_def Let_def using True pw by simp
    show ?thesis unfolding sv ceil using q up by (simp add: sint_zero_iff)
  next
    case False
    have D: "sint (word_of_int (M div 10 ^ 9) :: int64) = M div 10 ^ 9"
      using div0 assms(2) ceil by (intro sint_of_range) (simp_all split: if_splits)
    have sv: "scaledValue M 9 0 =
        (if M mod 10 ^ 9 \<noteq> 0 then word_of_int (M div 10 ^ 9) + 1 else word_of_int (M div 10 ^ 9))"
      unfolding scaledValue_def Let_def using False by simp
    show ?thesis unfolding sv ceil using D up by simp
  qed
qed

lemma scaledValue_zero: "sint (scaledValue 0 S 0) = 0"
  by (simp add: scaledValue_def Let_def go_div_def go_mod_def signed_divide_int_def signed_modulo_int_def)

lemma asScaled_whole:
  assumes "0 \<le> u" and "u < 2 ^ 63" and "whole u (- sca) < 2 ^ 63"
  shows "sint (fst (asScaledInt64 (word_of_int u) sca 0)) = whole u (- sca)"
proof -
  have u: "sint (word_of_int u :: int64) = u" using assms(1,2) by (intro sint_of_range) simp_all
  show ?thesis
  proof (cases "sca < 0")
    case True
    then show ?thesis
      using negativeScaleInt64_up [of "word_of_int u" "- sca"] u assms(1) by (simp add: asScaledInt64_def whole_def)
  next
    case False
    then have "\<bar>sint (word_of_int u :: int64) * 10 ^ nat sca\<bar> < 2 ^ 63"
      using assms(1,3) u by (simp add: whole_def abs_mult)
    then show ?thesis
      using positiveScaleInt64_exact [of sca "word_of_int u"] False u by (simp add: asScaledInt64_def whole_def)
  qed
qed

text \<open>The size of a scanned text in bytes, for an exponent that does not come near the 32-bit bounds.\<close>

definition scanned_bytes :: "scanned \<Rightarrow> int \<Rightarrow> format \<Rightarrow> int" where
  "scanned_bytes sc e f = whole (slow_amount sc e f) (int (length (sc_denom sc)) - (if f = BinarySI then 0 else e))"

text \<open>The value and the sign of what a parser returned.\<close>

definition returns_size :: "parsed_quantity result \<Rightarrow> int \<Rightarrow> bool \<Rightarrow> bool" where
  "returns_size r v nonzero \<longleftrightarrow>
     (\<exists>p. r = Ok p \<and> sint (amount_scaledValue (pq_amount p) 0) = v \<and> amount_sign (pq_amount p) = (if nonzero then 1 else 0))"

lemma fast_bytes:
  assumes form: "quantity_form s sc" and s: "s \<noteq> []" "s \<noteq> ''0''" and len: "length s < 2 ^ 29"
    and suf: "interpret_suffix (sc_suffix sc) = Some (b, e, f)" and e: "\<bar>e\<bar> < 2 ^ 29" and pos: "sc_positive sc"
    and range: "f = BinarySI \<or> scanned_bytes sc e f < 2 ^ 63" and fast: "takes_fast f e sc"
  shows "returns_size (ParseQuantity s) (min (scanned_bytes sc e f) (2 ^ 63 - 1)) (scanned_number sc \<noteq> 0)"
proof -
  let ?u = "slow_amount sc e f" and ?x = "scanned_bytes sc e f"
  note ways = ParseQuantity_ways(2-5) [OF form s len suf fast]
  have u: "0 \<le> ?u" "?u < 2 ^ 63" using slow_amount_nonneg ways(2) by simp_all
  have d: "int (length (sc_denom sc)) < 2 ^ 29" using quantity_form_scanned(5) [OF form] len by simp
  have x: "?x = whole ?u (- fast_scale f e sc)"
    using ways(4) d e by (auto simp: scanned_bytes_def fast_scale_def)
  have lt: "?x < 2 ^ 63" using range u(2) ways(4) by (auto simp: scanned_bytes_def whole_def)
  have val: "sint (fst (asScaledInt64 (word_of_int ?u) (fast_scale f e sc) 0)) = ?x"
    unfolding x by (rule asScaled_whole [OF u lt [unfolded x]])
  have "sint (word_of_int ?u :: int64) = ?u" using u by (intro sint_of_range) simp_all
  then have "amount_sign (Int64Amount (word_of_int ?u) k) = (if scanned_number sc \<noteq> 0 then 1 else 0)" for k
    using u(1) sint_zero_iff [of "word_of_int ?u"] by (auto simp: word_sless_alt slow_amount_def unit_mult_def)
  then show ?thesis using ways(1) val lt pos by (auto simp: returns_size_def scanned_sign_def min_def)
qed

lemma slow_bytes:
  assumes form: "quantity_form s sc" and len: "length s < 2 ^ 29"
    and suf: "interpret_suffix (sc_suffix sc) = Some (b, e, f)" and e: "\<bar>e\<bar> < 2 ^ 29"
    and pos: "sc_positive sc" and dig: "has_digit (sc_value sc)"
    and range: "f = BinarySI \<or> scanned_bytes sc e f < 2 ^ 63"
  shows "returns_size (parse_slow sc b e f) (min (scanned_bytes sc e f) (2 ^ 63 - 1)) (scanned_number sc \<noteq> 0)"
proof (cases "scanned_number sc = 0")
  case True
  have len': "length s < 2 ^ 30" using len by simp
  have "scanned_bytes sc e f = 0" using True by (simp add: scanned_bytes_def slow_amount_def whole_def)
  moreover obtain f' where "parse_slow sc b e f = Ok \<lparr>pq_amount = InfDecAmount 0 (slow_scale sc b e), pq_format = f', pq_s = []\<rparr>"
    by (rule parse_slow_zero [OF form len' suf dig True])
  ultimately show ?thesis using True scaledValue_zero by (simp add: returns_size_def)
next
  case n: False
  let ?x = "scanned_bytes sc e f" and ?M = "nano (slow_amount sc e f) (slow_scale sc b e)"
  have len': "length s < 2 ^ 30" using len by simp
  have sg: "scanned_sign sc = 1" using pos by (simp add: scanned_sign_def)
  have d: "int (length (sc_denom sc)) < 2 ^ 29" using quantity_form_scanned(5) [OF form] len by simp
  have S: "slow_scale sc b e = int (length (sc_denom sc)) - (if f = BinarySI then 0 else e)"
    using suf d e by (cases rule: interpret_suffix_cases) (auto simp: slow_scale_def)
  then have "9 - 2 ^ 31 < slow_scale sc b e" using e by (auto split: if_splits)
  from parse_slow_Ok [OF form len' suf dig n this] obtain f' where
    ok: "parse_slow sc b e f = Ok \<lparr>pq_amount =
       (if f = BinarySI \<and> ?M > (2 ^ 63 - 1) * 10 ^ 9 then InfDecAmount (2 ^ 63 - 1) 0 else InfDecAmount ?M 9),
       pq_format = f', pq_s = []\<rparr>"
    unfolding sg mult_1 by blast
  have x: "ceil_div ?M (10 ^ 9) = ?x" by (simp only: whole_nano scanned_bytes_def S)
  have cap: "?M > (2 ^ 63 - 1) * 10 ^ 9 \<longleftrightarrow> ?x > 2 ^ 63 - 1"
    using ceil_div_le_iff [of "10 ^ 9" ?M "2 ^ 63 - 1"] x by (simp add: not_le [symmetric])
  have M: "0 < ?M" using n slow_amount_nonneg [of sc e f] by (intro nano_pos) (simp add: slow_amount_def unit_mult_def)
  show ?thesis
  proof (cases "f = BinarySI \<and> ?x > 2 ^ 63 - 1")
    case True
    have "sint (scaledValue (2 ^ 63 - 1) 0 0) = 2 ^ 63 - 1"
      by (simp add: scaledValue_def Let_def sint_of_range)
    moreover have "min ?x (2 ^ 63 - 1) = 2 ^ 63 - 1" using conjunct2 [OF True] by (intro min_absorb2) simp
    ultimately show ?thesis unfolding ok cap if_P [OF True] using n by (simp add: returns_size_def)
  next
    case False
    then have lt: "?x < 2 ^ 63" using range by auto
    then have "sint (scaledValue ?M 9 0) = ?x" using scaledValue_nano [of ?M] M x by simp
    then show ?thesis unfolding ok cap if_not_P [OF False] using n M lt by (simp add: returns_size_def)
  qed
qed

lemma ParseQuantity_bytes:
  assumes form: "quantity_form s sc" and s: "s \<noteq> []" and len: "length s < 2 ^ 29"
    and suf: "interpret_suffix (sc_suffix sc) = Some (b, e, f)" and e: "\<bar>e\<bar> < 2 ^ 29"
    and pos: "sc_positive sc" and dig: "has_digit (sc_value sc)"
    and range: "f = BinarySI \<or> scanned_bytes sc e f < 2 ^ 63"
  shows "\<exists>p. ParseQuantity s = Ok p \<and> sint (quantity_Value (quantity_of t p)) = min (scanned_bytes sc e f) (2 ^ 63 - 1)
    \<and> quantity_Sign (quantity_of t p) = (if scanned_number sc = 0 then 0 else 1)"
proof -
  have "returns_size (ParseQuantity s) (min (scanned_bytes sc e f) (2 ^ 63 - 1)) (scanned_number sc \<noteq> 0)"
  proof (cases "s = ''0''")
    case True
    then have "sc = blank_scan []"
      using form form_scanned [of s sc] form_scanned [OF Blank [of "[]" "''0''"]] by (simp add: sign_text_def)
    then have "scanned_bytes sc e f = 0" "scanned_number sc = 0"
      by (simp_all add: scanned_bytes_def slow_amount_def scanned_number_def blank_scan_def whole_def)
    then show ?thesis
      using True by (simp add: returns_size_def ParseQuantity_def asScaledInt64_def positiveScaleInt64_def)
  next
    case s0: False
    show ?thesis
      using fast_bytes [OF form s s0 len suf e pos range] slow_bytes [OF form len suf e pos dig range]
        ParseQuantity_ways(1) [OF form s s0 len suf] by (cases "takes_fast f e sc") simp_all
  qed
  then show ?thesis
    by (auto simp: returns_size_def quantity_Value_def quantity_Sign_def quantity_of_def)
qed

section \<open>Sizes with a unit\<close>

text \<open>The units of a size and the factor of each, as a fraction.\<close>

definition bytes_per_unit :: "string \<Rightarrow> (int \<times> int) option" where
  "bytes_per_unit u = map_of
     [([], 1, 1), (''n'', 1, 10 ^ 9), (''u'', 1, 10 ^ 6), (''m'', 1, 10 ^ 3), (''k'', 10 ^ 3, 1), (''M'', 10 ^ 6, 1),
      (''G'', 10 ^ 9, 1), (''T'', 10 ^ 12, 1), (''P'', 10 ^ 15, 1), (''E'', 10 ^ 18, 1), (''Ki'', 2 ^ 10, 1),
      (''Mi'', 2 ^ 20, 1), (''Gi'', 2 ^ 30, 1), (''Ti'', 2 ^ 40, 1), (''Pi'', 2 ^ 50, 1), (''Ei'', 2 ^ 60, 1)] u"

definition binary_unit :: "string \<Rightarrow> bool" where
  "binary_unit u \<longleftrightarrow> u \<in> {''Ki'', ''Mi'', ''Gi'', ''Ti'', ''Pi'', ''Ei''}"

lemma unit_text:
  assumes "bytes_per_unit u = Some (a, c)"
  shows "\<not> starts_with (\<lambda>c. is_digit c \<or> c = CHR ''.'') u" "\<not> starts_with is_digit u" "\<not> starts_with sign_char u"
    and "suffix_form u"
  using assms
  by (auto simp: bytes_per_unit_def is_digit_cases sign_char_def suffix_form_def suffix_letter_def Let_def split: if_splits)

lemma unit_interpreted:
  assumes "bytes_per_unit u = Some (a, c)"
  obtains b e f where "interpret_suffix u = Some (b, e, f)" and "\<bar>e\<bar> \<le> 60" and "f = BinarySI \<longleftrightarrow> binary_unit u"
    and "a = unit_mult f e * 10 ^ nat (if f = BinarySI then 0 else e)" and "c = 10 ^ nat (if f = BinarySI then 0 else - e)"
    and "f \<noteq> DecimalExponent"
  using assms that
  by (auto simp: bytes_per_unit_def interpret_suffix_eq binary_unit_def unit_mult_def split: if_splits)

lemma whole_fraction:
  "ceil_div (u * 10 ^ nat e) (10 ^ d * 10 ^ nat (- e)) = whole u (int d - e)"
proof (cases "int d \<le> e")
  case True
  then have e: "nat e = nat (e - int d) + d" "nat (- e) = 0" by simp_all
  have "ceil_div (u * 10 ^ nat (e - int d) * 10 ^ d) (10 ^ d) = u * 10 ^ nat (e - int d)" by (rule ceil_div_simps) simp
  then show ?thesis using True unfolding e by (simp add: whole_def power_add mult.assoc)
next
  case False
  show ?thesis
  proof (cases "0 \<le> e")
    case True
    then have d: "d = nat (int d - e) + nat e" using False by simp
    have "ceil_div (u * 10 ^ nat e) (10 ^ nat (int d - e) * 10 ^ nat e) = ceil_div u (10 ^ nat (int d - e))"
      by (rule ceil_div_cancel) simp_all
    moreover have "(10 :: int) ^ d = 10 ^ nat (int d - e) * 10 ^ nat e" by (metis d power_add)
    ultimately show ?thesis using True False by (simp add: whole_def)
  next
    case neg: False
    then have "nat (int d - e) = d + nat (- e)" by simp
    then show ?thesis using neg False by (simp add: whole_def power_add)
  qed
qed

lemma written_form:
  assumes st: "sign_text sg" and ds: "digits ds" and fs: "digits fs"
    and point: "point = [] \<and> fs = [] \<or> point = ''.''" and ne: "ds @ fs \<noteq> []" and u: "bytes_per_unit u = Some (a, c)"
  obtains sc where "quantity_form (sg @ ds @ point @ fs @ u) sc" and "sc_positive sc \<longleftrightarrow> sg \<noteq> ''-''" and "has_digit (sc_value sc)"
    and "scanned_number sc = dec_value (ds @ fs)" and "length (sc_denom sc) = length fs" and "sc_suffix sc = u"
proof -
  note ut = unit_text [OF u]
  show thesis
  proof (cases "point = []")
    case True
    then have f: "fs = []" and d: "ds \<noteq> []" using point ne by auto
    show thesis
    proof (cases "u = [] \<and> set ds \<subseteq> {CHR ''0''}")
      case blank: True
      have "dec_value ds = 0" using blank by (induction ds) auto
      moreover have "has_digit ''0''" by (simp add: has_digit_def)
      ultimately show thesis
        using that [of "blank_scan sg"] Blank [OF st conjunct2 [OF blank]] True f blank
        by (simp add: blank_scan_def scanned_number_def)
    next
      case False
      then have nb: "u = [] \<longrightarrow> \<not> set ds \<subseteq> {CHR ''0''}" by blast
      have "has_digit (sg @ ds)" using has_digit_parts [OF st ds, of "[]" "[]"] d by simp
      then show thesis
        using that [of "full_scan sg ds [] [] u"] Whole [OF st ds nb ut(1) _ ut(4)] True f d ds
        by (simp add: full_scan_def scanned_number_def)
    qed
  next
    case False
    then have p: "point = ''.''" using point by simp
    have "has_digit (sg @ ds @ ''.'' @ fs)" using has_digit_parts [OF st ds fs, of "''.''"] ne by simp
    then show thesis
      using that [of "full_scan sg ds ''.'' fs u"] Fraction [OF st ds fs ut(2,4)] p ds
      by (simp add: full_scan_def scanned_number_def)
  qed
qed

lemma written_size:
  assumes sg: "sg = [] \<or> sg = ''+''" and ds: "digits ds" and fs: "digits fs"
    and point: "point = [] \<and> fs = [] \<or> point = ''.''" and ne: "ds @ fs \<noteq> []" and u: "bytes_per_unit u = Some (a, c)"
    and len: "length (sg @ ds @ point @ fs @ u) < 2 ^ 29"
    and range: "binary_unit u \<or> ceil_div (int (dec_value (ds @ fs)) * a) (10 ^ length fs * c) < 2 ^ 63"
  shows "\<exists>p. ParseQuantity (sg @ ds @ point @ fs @ u) = Ok p \<and>
    sint (quantity_Value (quantity_of t p)) = min (ceil_div (int (dec_value (ds @ fs)) * a) (10 ^ length fs * c)) (2 ^ 63 - 1)
    \<and> quantity_Sign (quantity_of t p) = (if dec_value (ds @ fs) = 0 then 0 else 1)"
proof -
  obtain sc where form: "quantity_form (sg @ ds @ point @ fs @ u) sc" and pos: "sc_positive sc"
    and dig: "has_digit (sc_value sc)" and n: "scanned_number sc = dec_value (ds @ fs)"
    and d: "length (sc_denom sc) = length fs" and su: "sc_suffix sc = u"
    using written_form [OF _ ds fs point ne u, of sg thesis] sg by (auto simp: sign_text_def)
  obtain b e f where suf: "interpret_suffix u = Some (b, e, f)" and e: "\<bar>e\<bar> \<le> 60" and bin: "f = BinarySI \<longleftrightarrow> binary_unit u"
    and a: "a = unit_mult f e * 10 ^ nat (if f = BinarySI then 0 else e)" and c: "c = 10 ^ nat (if f = BinarySI then 0 else - e)"
    by (rule unit_interpreted [OF u])
  have x: "ceil_div (int (dec_value (ds @ fs)) * a) (10 ^ length fs * c) = scanned_bytes sc e f"
    using whole_fraction [of "slow_amount sc e f" "if f = BinarySI then 0 else e" "length fs"]
    by (simp add: scanned_bytes_def slow_amount_def n d a c mult.assoc split: if_splits)
  have s: "sg @ ds @ point @ fs @ u \<noteq> []" using ne by auto
  have e': "\<bar>e\<bar> < 2 ^ 29" using e by simp
  show ?thesis
    using ParseQuantity_bytes [OF form s len suf [folded su] e' pos dig, of t] range unfolding x bin n by blast
qed

text \<open>
  A size that is written as a number, with or without decimals, and one of the sixteen units is
  read as the quantity of exactly so many bytes, rounded up to a whole one; a size in a binary unit
  that is beyond 64 bits is capped at the largest \<open>int64\<close>.
\<close>

theorem written_size_in_bytes:
  assumes "sg = [] \<or> sg = ''+''" and "digits ds" and "digits fs" and "point = [] \<and> fs = [] \<or> point = ''.''"
    and "ds @ fs \<noteq> []" and "bytes_per_unit u = Some (a, c)" and "length (sg @ ds @ point @ fs @ u) < 2 ^ 29"
    and "binary_unit u \<or> ceil_div (int (dec_value (ds @ fs)) * a) (10 ^ length fs * c) < 2 ^ 63"
  shows "\<exists>p. ParseQuantity (sg @ ds @ point @ fs @ u) = Ok p \<and>
    sint (quantity_Value (quantity_of t p)) = min (ceil_div (int (dec_value (ds @ fs)) * a) (10 ^ length fs * c)) (2 ^ 63 - 1)
    \<and> quantity_Sign (quantity_of t p) = (if dec_value (ds @ fs) = 0 then 0 else 1)"
  by (rule written_size [OF assms])

theorem written_size_in_bytes_witness:
  "\<exists>p. ParseQuantity ''1.5Gi'' = Ok p \<and> sint (quantity_Value (quantity_of [] p)) = 1610612736"
proof -
  have "bytes_per_unit ''Gi'' = Some (2 ^ 30, 1)" "binary_unit ''Gi''" by (simp_all add: bytes_per_unit_def binary_unit_def)
  moreover have "digits ''1''" "digits ''5''" "dec_value (''1'' @ ''5'') = 15"
    by (simp_all add: is_digit_def byte_def)
  moreover have "ceil_div (15 * 2 ^ 30) (10 ^ 1 * 1) = 1610612736" by (simp add: ceil_div_def)
  ultimately show ?thesis
    using written_size_in_bytes [of "[]" "''1''" "''5''" "''.''" "''Gi''" "2 ^ 30" 1 "[]"] by auto
qed

lemma dec_digits_length: "n < 10 ^ k \<Longrightarrow> 0 < k \<Longrightarrow> length (dec_digits n) \<le> k"
proof (induction k arbitrary: n)
  case (Suc k)
  show ?case
  proof (cases "n < 10")
    case False
    then have "k \<noteq> 0" using Suc.prems by (cases k) simp_all
    moreover have "n div 10 < 10 ^ k" using Suc.prems by (simp add: div_less_iff_less_mult mult.commute)
    ultimately show ?thesis using Suc.IH [of "n div 10"] False by (simp add: dec_digits.simps [of n])
  qed (simp add: dec_digits.simps [of n])
qed simp

lemma fmt_nat_length: "n < 10 ^ k \<Longrightarrow> 0 < k \<Longrightarrow> length (fmt_nat n) \<le> k"
  by (simp add: fmt_nat_def dec_digits_length)

lemma printed_size:
  assumes "MkswapSizeArg q = Ok s"
  shows "\<exists>p. ParseQuantity s = Ok p \<and> quantity_Value (quantity_of t p) = quantity_Value q
    \<and> MkswapSizeArg (quantity_of t p) = Ok s"
proof -
  let ?v = "sint (quantity_Value q)"
  have pos: "0 < ?v" using assms by (auto simp: MkswapSizeArg_cases Let_def split: if_splits)
  obtain u k where s: "s = fmt_nat (nat (?v div int k)) @ u" and k: "int k dvd ?v" and u: "bytes_per_unit u = Some (int k, 1)"
    and bin: "binary_unit u" "length u = 2"
  proof -
    have "bytes_per_unit ''Gi'' = Some (int 1073741824, 1)" "bytes_per_unit ''Mi'' = Some (int 1048576, 1)"
      "bytes_per_unit ''Ki'' = Some (int 1024, 1)" "binary_unit ''Gi''" "binary_unit ''Mi''" "binary_unit ''Ki''"
      by (simp_all add: bytes_per_unit_def binary_unit_def)
    then show thesis
      using assms that [of 1073741824 "''Gi''"] that [of 1048576 "''Mi''"] that [of 1024 "''Ki''"]
      by (auto simp: MkswapSizeArg_cases Let_def split: if_splits)
  qed
  let ?n = "nat (?v div int k)"
  have "k \<noteq> 0" using k pos by (cases "k = 0") simp_all
  then have "0 \<le> ?v div int k" using pos by (simp add: pos_imp_zdiv_nonneg_iff)
  then have n: "int ?n * int k = ?v" using k by simp
  have "1 \<le> int k" using n pos by (cases "k = 0") simp_all
  then have "int ?n * 1 \<le> int ?n * int k" by (rule mult_left_mono) simp
  then have "int ?n < 2 ^ 63" using n sint_int64_range(2) [of "quantity_Value q"] by linarith
  then have "?n < 2 ^ 63" by (metis of_nat_less_iff of_nat_numeral of_nat_power)
  also have "(2 :: nat) ^ 63 < 10 ^ 19" by simp
  finally have "?n < 10 ^ 19" .
  then have len: "length (fmt_nat ?n) \<le> 19" by (rule fmt_nat_length) simp
  have "\<exists>p. ParseQuantity (fmt_nat ?n @ u) = Ok p \<and>
      sint (quantity_Value (quantity_of t p)) = min (int ?n * int k) (2 ^ 63 - 1) \<and>
      quantity_Sign (quantity_of t p) = (if ?n = 0 then 0 else 1)"
    using written_size [OF _ _ _ _ _ u, of "[]" "fmt_nat ?n" "[]" "[]" t] len bin by simp
  moreover have "min (int ?n * int k) (2 ^ 63 - 1) = ?v"
    unfolding n using sint_int64_range(2) [of "quantity_Value q"] by simp
  moreover have "?n \<noteq> 0"
  proof
    assume "?n = 0"
    then have "int ?n * int k = 0" by (simp only: of_nat_0 mult_zero_left)
    with n pos show False by linarith
  qed
  ultimately obtain p where p: "ParseQuantity s = Ok p" and v: "sint (quantity_Value (quantity_of t p)) = ?v"
    and sgn: "quantity_Sign (quantity_of t p) = 1"
    unfolding s by (simp only: if_False) blast
  have "MkswapSizeArg (quantity_of t p) = Ok s"
    using assms pos unfolding MkswapSizeArg_cases v sgn Let_def by (simp split: if_splits)
  with p v show ?thesis by (metis word_of_sint)
qed

text \<open>
  C10: what \<open>MkswapSizeArg\<close> hands to \<open>fallocate\<close> is read back by the parser of quantities as a size of
  exactly as many bytes, from which it makes the same argument again.
\<close>

theorem printed_size_read_back:
  assumes "MkswapSizeArg q = Ok s"
  shows "\<exists>p. ParseQuantity s = Ok p \<and> quantity_Value (quantity_of t p) = quantity_Value q
    \<and> MkswapSizeArg (quantity_of t p) = Ok s"
  by (rule printed_size [OF assms])

theorem printed_size_read_back_witness:
  "\<exists>p. ParseQuantity ''4Gi'' = Ok p \<and> quantity_Value (quantity_of [] p) = 4294967296"
  using printed_size_read_back [OF mkswap_4Gi, of "[]"] by (auto simp: quantity_4Gi_Value)

text \<open>
  C27: the scanner accepts exactly the texts of the syntax, a sign, digits with an optional point, letters
  of suffixes, a sign and digits, and takes each apart as the syntax does.
\<close>

theorem scanner_follows_syntax:
  "parseQuantityString s = Ok sc \<longleftrightarrow> quantity_form s sc"
  using scanned_form form_scanned by blast

text \<open>
  C26: parsing a size panics exactly when its number is not zero, has at least 19 digits and its decimal
  exponent makes the 32-bit scale wrap around to the one value whose shift has no absolute value.
\<close>

theorem parsing_panics_iff:
  assumes "length s < 2 ^ 29"
  shows "(\<exists>p. ParseQuantity s = Panic p) \<longleftrightarrow>
    (\<exists>sc e. quantity_form s sc \<and> interpret_suffix (sc_suffix sc) = Some (10, e, DecimalExponent)
       \<and> 18 < length (sc_num sc @ sc_denom sc) \<and> wrap32 (int (length (sc_denom sc)) - e) = 9 - 2 ^ 31
       \<and> scanned_number sc \<noteq> 0)"
  using ParseQuantity_panics [OF assms] unfolding wraps_around_def .

lemma panic_text_form:
  "quantity_form ''1000000000000000000e2147483639'' (full_scan [] ''1000000000000000000'' [] [] ''e2147483639'')"
proof -
  have "quantity_form ([] @ ''1000000000000000000'' @ ''e2147483639'') (full_scan [] ''1000000000000000000'' [] [] ''e2147483639'')"
    by (rule Whole)
      (simp_all add: sign_text_def is_digit_cases suffix_form_def suffix_letter_def sign_char_def Let_def)
  then show ?thesis by simp
qed

lemma panic_text_suffix:
  "interpret_suffix ''e2147483639'' = Some (10, 2147483639, DecimalExponent)"
proof -
  have "digits ''2147483639''" "dec_value ''2147483639'' = 2147483639"
    by (simp_all add: is_digit_cases byte_def)
  then have "parse_int64 ''2147483639'' = Some 2147483639"
    using parse_int64_digits [of "''2147483639''"] by (simp del: dec_value_simps digits_simps)
  then show ?thesis by (simp add: interpret_suffix_eq)
qed

lemma panic_text_scan:
  "num_part ''1000000000000000000'' = ''1000000000000000000''" "dec_value ''1000000000000000000'' \<noteq> 0"
  by (simp_all add: num_part_def byte_def)

theorem parsing_panics_iff_witness:
  "\<exists>p. ParseQuantity ''1000000000000000000e2147483639'' = Panic p"
proof -
  have "wrap32 (- 2147483639) = 9 - 2 ^ 31" by simp
  then show ?thesis
    using panic_text_form panic_text_suffix panic_text_scan
    by (subst parsing_panics_iff, simp,
        intro exI [of _ "full_scan [] ''1000000000000000000'' [] [] ''e2147483639''"] exI [of _ 2147483639])
      (simp add: full_scan_def scanned_number_def del: dec_value_simps)
qed

section \<open>Sizes that overflow\<close>

lemma written_giga:
  assumes "digits ds" and "ds \<noteq> []" and "length ds \<le> 18"
  shows "\<exists>p. ParseQuantity (ds @ ''G'') = Ok p \<and> pq_amount p = Int64Amount (word_of_int (int (dec_value ds))) 9"
proof -
  have ut: "\<not> starts_with (\<lambda>c. is_digit c \<or> c = CHR ''.'') ''G''" "suffix_form ''G''"
    by (simp_all add: is_digit_cases suffix_form_def suffix_letter_def)
  let ?sc = "full_scan [] ds [] [] ''G''"
  have form: "quantity_form ([] @ ds @ ''G'') ?sc"
    using assms ut by (intro Whole) (simp_all add: sign_text_def)
  have suf: "interpret_suffix (sc_suffix ?sc) = Some (10, 9, DecimalSI)" by (simp add: full_scan_def interpret_suffix_eq)
  have "length (num_part ds) \<le> 18"
    using assms(3) length_dropWhile_le [of "\<lambda>c. c = CHR ''0''" ds] by (auto simp: num_part_def Let_def)
  then have fast: "takes_fast DecimalSI 9 ?sc"
    by (simp add: takes_fast_def fast_plan_def full_scan_def)
  have s0: "ds @ ''G'' \<noteq> ''0''" by (cases ds) auto
  have len: "length (ds @ ''G'') < 2 ^ 29" using assms(3) by simp
  from ParseQuantity_ways(2) [OF form [simplified] _ s0 len suf fast] show ?thesis
    using assms by (auto simp: slow_amount_def scanned_number_def unit_mult_def scanned_sign_def full_scan_def fast_scale_def)
qed

lemma scale_giga: "fst (positiveScaleInt64 v 9) = v * 10 ^ 9"
  if "0 \<le> sint v"
proof -
  have "v \<noteq> mostNegative" using that by (auto simp: mostNegative_def sint_of_range)
  then show ?thesis by (auto simp: positiveScaleInt64_def int64MultiplyScale_def Let_def)
qed

text \<open>
  C30: a size in units of \<open>10 ^ 9\<close> bytes is the number of bytes modulo \<open>2 ^ 64\<close>: above 64 bits it wraps
  around without an error.
\<close>

theorem giga_size_wraps:
  assumes "digits ds" and "ds \<noteq> []" and "length ds \<le> 18"
  shows "\<exists>p. ParseQuantity (ds @ ''G'') = Ok p \<and>
    quantity_Value (quantity_of t p) = word_of_int (int (dec_value ds) * 10 ^ 9)"
proof -
  obtain p where p: "ParseQuantity (ds @ ''G'') = Ok p" and am: "pq_amount p = Int64Amount (word_of_int (int (dec_value ds))) 9"
    using written_giga [OF assms] by blast
  have "dec_value ds < 10 ^ 18"
    using dec_value_less [OF assms(1)] power_increasing [OF assms(3), of "10 :: nat"] by simp
  then have "int (dec_value ds) < int (10 ^ 18)" by (simp only: of_nat_less_iff)
  then have "sint (word_of_int (int (dec_value ds)) :: int64) = int (dec_value ds)" by (intro sint_of_range) simp_all
  then have "quantity_Value (quantity_of t p) = word_of_int (int (dec_value ds)) * 10 ^ 9"
    using scale_giga [of "word_of_int (int (dec_value ds))"]
    by (simp add: quantity_Value_def quantity_of_def am asScaledInt64_def)
  also have "\<dots> = word_of_int (int (dec_value ds) * 10 ^ 9)" by simp
  finally show ?thesis using p by blast
qed

text \<open>Eighteen exabytes are accepted and become 283641 kibibytes.\<close>

theorem giga_size_wraps_witness:
  "\<exists>p. ParseQuantity ''18446744074G'' = Ok p \<and> quantity_Value (quantity_of [] p) = 290448384
     \<and> MkswapSizeArg (quantity_of [] p) = Ok ''283641Ki''"
proof -
  have ds: "digits ''18446744074''" "dec_value ''18446744074'' = 18446744074"
    by (simp_all add: is_digit_cases byte_def)
  have "(word_of_int (18446744074 * 10 ^ 9) :: int64) = 290448384" by simp
  then obtain p where p: "ParseQuantity ''18446744074G'' = Ok p" and v: "quantity_Value (quantity_of [] p) = 290448384"
    using giga_size_wraps [OF ds(1), of "[]", unfolded ds(2)] by auto
  obtain p' where "ParseQuantity ''18446744074G'' = Ok p'" and "pq_amount p' = Int64Amount (word_of_int 18446744074) 9"
    using written_giga [OF ds(1), unfolded ds(2)] by auto
  then have "quantity_Sign (quantity_of [] p) = 1"
    using p by (simp add: quantity_Sign_def quantity_of_def word_sless_alt)
  then have "MkswapSizeArg (quantity_of [] p) = Ok ''283641Ki''"
    by (simp add: MkswapSizeArg_cases v fmt_nat_eval)
  with p v show ?thesis by blast
qed

end
