(* ===== verification/SizeSchema.thy ===== *)
theory SizeSchema
  imports QuantitySpec
begin

text \<open>
  What the resource definition of \<open>NodeSwap\<close> admits as a size
  (\<open>config/crd/bases/node-swap.openshift.io_nodeswaps.yaml\<close>), an integer or a string of a pattern, against
  what the operator does when it decodes the object: sizes without an exponent are always decoded,
  exponents with a point are admitted and refused, and one exponent is admitted and panics.
\<close>

section \<open>The pattern\<close>

text \<open>\<open>([0-9]+(\.[0-9]*)?)|(\.[0-9]+)\<close>.\<close>

inductive schema_number :: "string \<Rightarrow> string \<Rightarrow> string \<Rightarrow> bool" where
  Digits: "digits ds \<Longrightarrow> ds \<noteq> [] \<Longrightarrow> schema_number ds [] []"
| Point: "digits ds \<Longrightarrow> ds \<noteq> [] \<Longrightarrow> digits fs \<Longrightarrow> schema_number ds ''.'' fs"
| Decimals: "digits fs \<Longrightarrow> fs \<noteq> [] \<Longrightarrow> schema_number [] ''.'' fs"

definition schema_units :: "string list" where
  "schema_units =
     List.map (\<lambda>c. [c, CHR ''i'']) ''KMGTPE'' @ List.map (\<lambda>c. [c]) ''numkMGTPE'' @ [[]]"

text \<open>\<open>^(\+|-)?number(([KMGTPE]i)|[numkMGTPE]|([eE](\+|-)?number))?$\<close>.\<close>

inductive schema_size :: "string \<Rightarrow> bool" where
  Unit: "sign_text sg \<Longrightarrow> schema_number ds point fs \<Longrightarrow> u \<in> set schema_units \<Longrightarrow>
    schema_size (sg @ ds @ point @ fs @ u)"
| Exponent: "sign_text sg \<Longrightarrow> schema_number ds point fs \<Longrightarrow> c = CHR ''e'' \<or> c = CHR ''E'' \<Longrightarrow>
    sign_text sg' \<Longrightarrow> schema_number ds' point' fs' \<Longrightarrow>
    schema_size (sg @ ds @ point @ fs @ [c] @ sg' @ ds' @ point' @ fs')"

section \<open>Decoding\<close>

text \<open>A string of JSON, in quotes.\<close>

definition json_string :: "string \<Rightarrow> string" where
  "json_string s = [CHR 0x22] @ s @ [CHR 0x22]"

definition visible :: "char \<Rightarrow> bool" where
  "visible c \<longleftrightarrow> 32 < byte c \<and> byte c < 128"

text \<open>
  A size as it stands in the JSON of the object: a string of the pattern, or a number whose value is an
  integer; the pattern is for strings only. The flag says whether it is written with an exponent. The
  API server's encoder writes the characters of the pattern as they are.
\<close>

inductive schema_value :: "bool \<Rightarrow> string \<Rightarrow> bool" where
  Unit: "sign_text sg \<Longrightarrow> schema_number ds point fs \<Longrightarrow> u \<in> set schema_units \<Longrightarrow>
    schema_value False (json_string (sg @ ds @ point @ fs @ u))"
| Exponent: "sign_text sg \<Longrightarrow> schema_number ds point fs \<Longrightarrow> c = CHR ''e'' \<or> c = CHR ''E'' \<Longrightarrow>
    sign_text sg' \<Longrightarrow> schema_number ds' point' fs' \<Longrightarrow>
    schema_value True (json_string (sg @ ds @ point @ fs @ [c] @ sg' @ ds' @ point' @ fs'))"
| Integer: "sg = [] \<or> sg = ''-'' \<Longrightarrow> digits ds \<Longrightarrow> ds \<noteq> [] \<Longrightarrow> ds = ''0'' \<or> hd ds \<noteq> CHR ''0'' \<Longrightarrow>
    point = [] \<and> fs = [] \<or> point = ''.'' \<and> fs \<noteq> [] \<and> set fs \<subseteq> {CHR ''0''} \<Longrightarrow>
    schema_value False (sg @ ds @ point @ fs)"
| Integer_exponent: "sg = [] \<or> sg = ''-'' \<Longrightarrow> digits ds \<Longrightarrow> ds \<noteq> [] \<Longrightarrow> ds = ''0'' \<or> hd ds \<noteq> CHR ''0'' \<Longrightarrow>
    point = [] \<and> fs = [] \<or> point = ''.'' \<and> fs \<noteq> [] \<and> digits fs \<Longrightarrow>
    c = CHR ''e'' \<or> c = CHR ''E'' \<Longrightarrow> sign_text sg' \<Longrightarrow> digits es \<Longrightarrow> es \<noteq> [] \<Longrightarrow>
    10 ^ (length fs + (if sg' = ''-'' then dec_value es else 0)) dvd dec_value (ds @ fs) * 10 ^ (if sg' = ''-'' then 0 else dec_value es) \<Longrightarrow>
    schema_value True (sg @ ds @ point @ fs @ [c] @ sg' @ es)"

lemma json_string_inject [simp]: "json_string s = json_string t \<longleftrightarrow> s = t"
  by (simp add: json_string_def)

lemma json_string_not_number:
  "sg = [] \<or> sg = ''-'' \<Longrightarrow> digits ds \<Longrightarrow> ds \<noteq> [] \<Longrightarrow> json_string s \<noteq> sg @ ds @ r"
  by (cases ds) (auto simp: json_string_def digits_def is_digit_def byte_def)

text \<open>On strings it is the pattern.\<close>

lemma schema_value_string: "(\<exists>x. schema_value x (json_string s)) \<longleftrightarrow> schema_size s"
proof
  assume "\<exists>x. schema_value x (json_string s)"
  then obtain x v where "schema_value x v" "v = json_string s" by blast
  then show "schema_size s"
  proof (induction rule: schema_value.induct)
    case (Integer sg ds point fs)
    then show ?case using json_string_not_number [of sg ds s "point @ fs"] by simp
  next
    case (Integer_exponent sg ds point fs c sg' es)
    then show ?case using json_string_not_number [of sg ds s "point @ fs @ [c] @ sg' @ es"] by simp
  qed (auto intro: schema_size.intros simp del: append.simps)
next
  assume "schema_size s"
  then show "\<exists>x. schema_value x (json_string s)"
  proof (induction rule: schema_size.induct)
    case (Unit sg ds point fs u)
    from schema_value.Unit [OF this] show ?case ..
  next
    case (Exponent sg ds point fs c sg' ds' point' fs')
    from schema_value.Exponent [OF this] show ?case ..
  qed
qed

lemma visible_not_space: "\<forall>c\<in>set s. visible c \<Longrightarrow> space_len s = 0"
  by (cases s rule: space_len.cases)
    (auto simp: visible_def ascii_space_def utf8_space2_def utf8_space3_def)

lemma visible_not_space_rev: "\<forall>c\<in>set s. visible c \<Longrightarrow> space_len_rev s = 0"
  by (cases s rule: space_len_rev.cases)
    (auto simp: visible_def ascii_space_def utf8_space2_def utf8_space3_def)

lemma visible_trim: "\<forall>c\<in>set s. visible c \<Longrightarrow> trim_space s = s"
  by (simp add: trim_space_id visible_not_space visible_not_space_rev)

lemma UnmarshalJSON_string:
  assumes "\<forall>c\<in>set s. visible c"
  shows "UnmarshalJSON (json_string s) q = ParseQuantity s"
proof -
  have "substr (json_string s) 1 (length (json_string s) - 1) = s" by (simp add: substr_def json_string_def)
  moreover have "json_string s ! (length (json_string s) - 1) = CHR 0x22" by (simp add: json_string_def nth_append)
  moreover have "json_string s \<noteq> ''null''" "json_string s ! 0 = CHR 0x22" "2 \<le> length (json_string s)"
    by (simp_all add: json_string_def)
  ultimately show ?thesis by (simp add: UnmarshalJSON_def Let_def visible_trim [OF assms])
qed

lemma UnmarshalJSON_number:
  assumes "\<forall>c\<in>set v. visible c" and "v \<noteq> ''null''" and "v ! 0 \<noteq> CHR 0x22"
  shows "UnmarshalJSON v q = ParseQuantity v"
  using assms(2,3) by (simp add: UnmarshalJSON_def Let_def visible_trim [OF assms(1)])

lemma digits_visible: "digits s \<Longrightarrow> c \<in> set s \<Longrightarrow> visible c"
  by (auto simp: digits_def is_digit_def visible_def)

lemma sign_visible: "sign_text s \<Longrightarrow> c \<in> set s \<Longrightarrow> visible c"
  by (auto simp: sign_text_def visible_def byte_def)

lemma number_visible:
  "schema_number ds point fs \<Longrightarrow> c \<in> set ds \<union> set point \<union> set fs \<Longrightarrow> visible c"
  by (induction rule: schema_number.induct) (auto simp: visible_def byte_def dest: digits_visible)

lemma unit_visible: "u \<in> set schema_units \<Longrightarrow> c \<in> set u \<Longrightarrow> visible c"
  by (auto simp: schema_units_def visible_def byte_def)

lemma schema_size_visible: "schema_size s \<Longrightarrow> c \<in> set s \<Longrightarrow> visible c"
proof (induction rule: schema_size.induct)
  case (Unit sg ds point fs u)
  then show ?case using sign_visible number_visible unit_visible by auto
next
  case (Exponent sg ds point fs e sg' ds' point' fs')
  moreover have "visible e" using Exponent(3) by (auto simp: visible_def byte_def)
  ultimately show ?case using sign_visible number_visible by auto
qed

lemma schema_number_parts:
  assumes "schema_number ds point fs"
  shows "digits ds" "digits fs" "point = [] \<and> fs = [] \<or> point = ''.''" "ds @ fs \<noteq> []"
  using assms by (cases; simp)+

lemma schema_units_factor: "u \<in> set schema_units \<Longrightarrow> \<exists>a c. bytes_per_unit u = Some (a, c)"
  by (auto simp: schema_units_def bytes_per_unit_def)

lemma bytes_per_unit_schema: "bytes_per_unit u = Some (a, c) \<Longrightarrow> u \<in> set schema_units"
  by (auto simp: schema_units_def bytes_per_unit_def split: if_splits)

text \<open>A number with a unit is parsed, whatever its sign and its size.\<close>

lemma ParseQuantity_unit_Ok:
  assumes form: "quantity_form s sc" and s: "s \<noteq> []" and len: "length s < 2 ^ 29"
    and suf: "interpret_suffix (sc_suffix sc) = Some (b, e, f)" and f: "f \<noteq> DecimalExponent" and dig: "has_digit (sc_value sc)"
  shows "\<exists>p. ParseQuantity s = Ok p"
proof (cases "s = ''0''")
  case True
  then show ?thesis by (simp add: ParseQuantity_def)
next
  case s0: False
  note ways = ParseQuantity_ways [OF form s s0 len suf]
  have len': "length s < 2 ^ 30" using len by simp
  have d: "int (length (sc_denom sc)) < 2 ^ 29" using quantity_form_scanned(5) [OF form] len by simp
  have S: "9 - 2 ^ 31 < slow_scale sc b e"
    using suf f d by (cases rule: interpret_suffix_cases) (auto simp: slow_scale_def)
  have "\<exists>p. parse_slow sc b e f = Ok p"
  proof (cases "scanned_number sc = 0")
    case True
    from parse_slow_zero [OF form len' suf dig True] show ?thesis by metis
  next
    case False
    from parse_slow_Ok [OF form len' suf dig False S] show ?thesis by metis
  qed
  then show ?thesis using ways(1,2) by (cases "takes_fast f e sc") auto
qed

lemma unit_decoded:
  assumes "sign_text sg" and "schema_number ds point fs" and "u \<in> set schema_units"
    and "length (sg @ ds @ point @ fs @ u) < 2 ^ 29"
  shows "\<exists>p. ParseQuantity (sg @ ds @ point @ fs @ u) = Ok p"
proof -
  let ?s = "sg @ ds @ point @ fs @ u"
  obtain a c where u: "bytes_per_unit u = Some (a, c)" using schema_units_factor [OF assms(3)] by blast
  note parts = schema_number_parts [OF assms(2)]
  obtain sc where form: "quantity_form ?s sc" and dig: "has_digit (sc_value sc)" and su: "sc_suffix sc = u"
    by (rule written_form [OF assms(1) parts(1,2,3,4) u])
  obtain b e f where suf: "interpret_suffix u = Some (b, e, f)" and f: "f \<noteq> DecimalExponent"
    by (rule unit_interpreted [OF u])
  have "?s \<noteq> []" using parts(4) by auto
  from ParseQuantity_unit_Ok [OF form this assms(4) suf [folded su] f dig] show ?thesis .
qed

text \<open>
  C28: every size that the resource definition admits and that is written without an exponent, as a string
  with or without a unit or as an integer, of any sign and magnitude, is decoded without an error when
  it has fewer than \<open>2\<^sup>2\<^sup>9\<close> characters; the API server takes no object that large.
\<close>

theorem admitted_size_decoded:
  assumes "schema_value False v" and "length v < 2 ^ 29"
  shows "\<exists>p. UnmarshalJSON v q = Ok p"
  using assms(1)
proof cases
  case (Unit sg ds point fs u)
  let ?s = "sg @ ds @ point @ fs @ u"
  have "length ?s < 2 ^ 29" using assms(2) by (simp add: Unit(1) json_string_def)
  then show ?thesis
    using unit_decoded [OF Unit(2-4)] UnmarshalJSON_string [of ?s] schema_size_visible [OF schema_size.Unit [OF Unit(2-4)]]
    unfolding Unit(1) by metis
next
  case (Integer sg ds point fs)
  have fs: "digits fs" using Integer(6) by (auto simp: digits_def is_digit_def byte_def)
  have num: "schema_number ds point fs"
    using Integer(3,4,6) fs schema_number.Digits schema_number.Point by auto
  have sg: "sign_text sg" using Integer(2) by (auto simp: sign_text_def)
  have u: "[] \<in> set schema_units" by (simp add: schema_units_def)
  have "v \<noteq> ''null'' \<and> v ! 0 \<noteq> CHR 0x22"
    using Integer(2-4) by (cases ds) (auto simp: Integer(1) digits_def is_digit_def byte_def)
  then have "UnmarshalJSON v q = ParseQuantity v"
    using schema_size_visible [OF schema_size.Unit [OF sg num u]] by (intro UnmarshalJSON_number) (simp_all add: Integer(1))
  then show ?thesis using unit_decoded [OF sg num u] assms(2) by (simp add: Integer(1))
qed simp_all

theorem admitted_size_decoded_witness:
  "(\<exists>p. UnmarshalJSON (json_string ''-.5Gi'') \<lparr>pq_amount = Int64Amount 0 0, pq_format = BinarySI, pq_s = []\<rparr> = Ok p)
   \<and> (\<exists>p. UnmarshalJSON ''1073741824'' \<lparr>pq_amount = Int64Amount 0 0, pq_format = BinarySI, pq_s = []\<rparr> = Ok p)"
proof -
  have "sign_text ''-''" "schema_number [] ''.'' ''5''" "''Gi'' \<in> set schema_units"
    by (simp_all add: sign_text_def schema_units_def is_digit_cases schema_number.Decimals)
  from schema_value.Unit [OF this] have "schema_value False (json_string ''-.5Gi'')" by simp
  moreover have "schema_value False ''1073741824''"
    using schema_value.Integer [of "[]" "''1073741824''" "[]" "[]"] by (simp add: is_digit_cases)
  ultimately show ?thesis using admitted_size_decoded by (simp add: json_string_def)
qed

text \<open>
  C5: from the text of a \<open>NodeSwap\<close> to the render configuration: when the size of a file swap is decoded
  from a number with one of the sixteen units and the configuration is made, the size it hands to
  \<open>fallocate\<close> reads as the number of bytes that was written, rounded up and at most \<open>2\<^sup>6\<^sup>3 - 1\<close>. This is so for
  a binary unit and any number, and for a decimal unit, or none, when fewer than \<open>2\<^sup>6\<^sup>3\<close> bytes were
  written; a larger size in such a unit wraps around (\<open>QuantitySpec\<close>, on sizes in units of \<open>10\<^sup>9\<close> bytes).
\<close>

theorem swap_size_end_to_end:
  assumes "UnmarshalJSON (json_string (sg @ ds @ point @ fs @ u)) q = Ok p"
    and "sg = [] \<or> sg = ''+''" and "schema_number ds point fs" and "bytes_per_unit u = Some (a, c)"
    and "length (sg @ ds @ point @ fs @ u) < 2 ^ 29"
    and "binary_unit u \<or> ceil_div (int (dec_value (ds @ fs)) * a) (10 ^ length fs * c) < 2 ^ 63"
    and "sw_SwapType sw = FileBasedSwap" and "sw_File sw = Some \<lparr>sf_Path = path, sf_Size = quantity_of t p\<rparr>"
    and "render i sw = Ok config"
  shows "\<exists>p'. ParseQuantity (rc_SwapFileSize config) = Ok p' \<and>
    sint (quantity_Value (quantity_of t' p')) = min (ceil_div (int (dec_value (ds @ fs)) * a) (10 ^ length fs * c)) (2 ^ 63 - 1)"
proof -
  let ?s = "sg @ ds @ point @ fs @ u"
  note parts = schema_number_parts [OF assms(3)]
  have st: "sign_text sg" using assms(2) by (auto simp: sign_text_def)
  have "u \<in> set schema_units" by (rule bytes_per_unit_schema [OF assms(4)])
  then have "\<forall>c\<in>set ?s. visible c"
    using schema_size_visible [OF schema_size.Unit [OF st assms(3)]] by blast
  then have p: "ParseQuantity ?s = Ok p" using UnmarshalJSON_string [of ?s q] assms(1) by simp
  obtain size where size: "MkswapSizeArg (quantity_of t p) = Ok size" and c: "rc_SwapFileSize config = size"
    using assms(7-9) by (auto simp: render_eq generateName_def result_simps)
  show ?thesis
    using printed_size [OF size, of t'] written_size [OF assms(2) parts(1-4) assms(4-6), of t] p c by auto
qed

definition sample_file_swap :: "parsed_quantity \<Rightarrow> swapSpec" where
  "sample_file_swap p =
     \<lparr>sw_Priority = 10, sw_SwapType = FileBasedSwap, sw_Disk = None,
      sw_File = Some \<lparr>sf_Path = ''/var/swap'', sf_Size = quantity_of [] p\<rparr>, sw_Zram = None\<rparr>"

theorem swap_size_end_to_end_witness:
  "\<exists>p config p'. UnmarshalJSON (json_string ''1.5Gi'') \<lparr>pq_amount = Int64Amount 0 0, pq_format = BinarySI, pq_s = []\<rparr> = Ok p
     \<and> render 0 (sample_file_swap p) = Ok config
     \<and> ParseQuantity (rc_SwapFileSize config) = Ok p' \<and> sint (quantity_Value (quantity_of [] p')) = 1610612736"
proof -
  let ?q = "\<lparr>pq_amount = Int64Amount 0 0, pq_format = BinarySI, pq_s = []\<rparr>"
  have n: "schema_number ''1'' ''.'' ''5''" "dec_value (''1'' @ ''5'') = 15"
    by (simp_all add: is_digit_cases byte_def schema_number.Point)
  have u: "bytes_per_unit ''Gi'' = Some (2 ^ 30, 1)" "binary_unit ''Gi''" by (simp_all add: bytes_per_unit_def binary_unit_def)
  have x: "ceil_div (15 * 2 ^ 30) (10 ^ length ''5'' * 1) = 1610612736" by (simp add: ceil_div_def)
  obtain p where parse: "ParseQuantity ''1.5Gi'' = Ok p" and v: "sint (quantity_Value (quantity_of [] p)) = 1610612736"
    and s: "quantity_Sign (quantity_of [] p) = 1"
    using written_size [OF _ schema_number_parts [OF n(1)] u(1), of "[]" "[]"] u(2) x unfolding n(2) by auto
  have "\<forall>c\<in>set ''1.5Gi''. visible c" by (simp add: visible_def byte_def)
  then have p: "UnmarshalJSON (json_string ''1.5Gi'') ?q = Ok p" using UnmarshalJSON_string parse by simp
  have "is_ok (MkswapSizeArg (quantity_of [] p))" unfolding MkswapSizeArg_Ok_iff by (simp add: v s)
  then obtain config where "render 0 (sample_file_swap p) = Ok config"
    using render_is_ok_iff [of 0 "sample_file_swap p"] by (auto simp: sample_file_swap_def is_ok_iff)
  moreover from this swap_size_end_to_end [of "[]" "''1''" "''.''" "''5''" "''Gi''" ?q p "2 ^ 30" 1 "sample_file_swap p" "''/var/swap''" "[]" 0 config "[]"]
  have "\<exists>p'. ParseQuantity (rc_SwapFileSize config) = Ok p' \<and> sint (quantity_Value (quantity_of [] p')) = 1610612736"
    using p n(1) u x unfolding n(2) by (simp add: sample_file_swap_def)
  ultimately show ?thesis using p by blast
qed

lemma pointed_exponent:
  assumes c: "suffix_letter c" and sg: "sign_text sg" and ds: "digits ds"
  shows "\<not> suffix_form ([c] @ sg @ ds @ ''.'' @ fs)"
proof -
  let ?t = "sg @ ds @ ''.'' @ fs"
  have no: "\<not> suffix_letter CHR ''.''" "\<not> suffix_letter CHR ''+''" "\<not> suffix_letter CHR ''-''"
    by (simp_all add: suffix_letter_def)
  have "\<not> starts_with suffix_letter ?t"
    using sg ds letter_not_digit(1) by (cases ds) (auto simp: sign_text_def no)
  then have "dropWhile suffix_letter ([c] @ ?t) = ?t" using c by (cases ?t) auto
  moreover have "\<not> digits (if starts_with sign_char ?t then tl ?t else ?t)"
    using sg ds digit_not_sign by (cases ds) (auto simp: sign_text_def sign_char_def)
  ultimately show ?thesis unfolding suffix_form_def Let_def by presburger
qed

lemma bad_suffix_not_scanned:
  assumes sg: "sign_text sg" and ds: "digits ds" and fs: "digits fs"
    and point: "point = [] \<and> fs = [] \<or> point = ''.''" and ne: "ds @ fs \<noteq> []"
    and c: "\<not> is_digit c" "c \<noteq> CHR ''.''" and bad: "\<not> suffix_form (c # r)"
  shows "parseQuantityString (sg @ ds @ point @ fs @ c # r) = Err ErrFormatWrong"
proof (cases "point = []")
  case True
  then have f: "fs = []" and d: "ds \<noteq> []" using point ne by auto
  have "\<not> starts_with sign_char (ds @ c # r)" by (rule sign_text_digits [OF sg ds d])
  then show ?thesis
    using scan_digits [OF sg _ ds, of "c # r"] c bad scan_suffix_eq [of _ _ _ "sg @ ds" "c # r"] True f by simp
next
  case False
  then have p: "point = ''.''" using point by simp
  have ns: "\<not> starts_with sign_char (ds @ ''.'' @ fs @ c # r)"
    using sign_text_digits [OF sg ds] by (cases "ds = []") (simp_all add: sign_char_def)
  have tl: "takeWhile is_digit (fs @ c # r) = fs" "dropWhile is_digit (fs @ c # r) = c # r"
    using fs c by (auto simp: digits_def takeWhile_append2 dropWhile_append2)
  have "\<not> starts_with is_digit (''.'' @ fs @ c # r)" by simp
  from scan_digits [OF sg _ ds this] ns tl bad scan_suffix_eq [of _ _ _ "sg @ ds @ ''.'' @ fs" "c # r"] show ?thesis
    by (simp add: p Let_def)
qed

text \<open>
  C29: every size that the resource definition admits with a point in its exponent is refused when the
  operator decodes the object.
\<close>

theorem admitted_exponent_refused:
  assumes "sign_text sg" and "schema_number ds point fs" and "c = CHR ''e'' \<or> c = CHR ''E''" and "sign_text sg'"
    and "schema_number ds' ''.'' fs'"
  shows "schema_size (sg @ ds @ point @ fs @ [c] @ sg' @ ds' @ ''.'' @ fs')
    \<and> (\<exists>e. UnmarshalJSON (json_string (sg @ ds @ point @ fs @ [c] @ sg' @ ds' @ ''.'' @ fs')) q = Err e)"
proof -
  let ?r = "[c] @ sg' @ ds' @ ''.'' @ fs'"
  let ?s = "sg @ ds @ point @ fs @ ?r"
  have sch: "schema_size ?s" by (rule schema_size.Exponent [OF assms])
  note parts = schema_number_parts [OF assms(2)]
  have "suffix_letter c" using assms(3) by (auto simp: suffix_letter_def)
  then have c: "\<not> is_digit c" "c \<noteq> CHR ''.''" "\<not> sign_char c" by (rule letter_not_digit)+
  have bad: "\<not> suffix_form ?r"
    by (rule pointed_exponent [OF \<open>suffix_letter c\<close> assms(4) schema_number_parts(1) [OF assms(5)]])
  have "\<nexists>sc. quantity_form ?s sc"
    using bad_suffix_not_scanned [OF assms(1) parts(1,2,3,4) c(1,2)] bad form_scanned [of ?s] by fastforce
  moreover have "?s \<noteq> []" "?s \<noteq> ''0''" using assms(3) by (auto simp: Cons_eq_append_conv append_eq_Cons_conv)
  ultimately have "\<exists>e. ParseQuantity ?s = Err e" by (intro ParseQuantity_refuses(1))
  then show ?thesis
    using UnmarshalJSON_string [of ?s] schema_size_visible [OF sch] sch by metis
qed

theorem admitted_exponent_refused_witness:
  "schema_size ''1e1.5'' \<and> (\<exists>e. UnmarshalJSON (json_string ''1e1.5'')
     \<lparr>pq_amount = Int64Amount 0 0, pq_format = BinarySI, pq_s = []\<rparr> = Err e)"
proof -
  have "sign_text []" "schema_number ''1'' [] []" "schema_number ''1'' ''.'' ''5''"
    by (simp_all add: sign_text_def is_digit_cases schema_number.Digits schema_number.Point)
  from admitted_exponent_refused [OF this(1,2) _ this(1,3), of "CHR ''e''"] show ?thesis by simp
qed

text \<open>The text whose parsing panics is admitted too.\<close>

lemma admitted_size_panics:
  "schema_size ''1000000000000000000e2147483639'' \<and>
   (\<exists>p. UnmarshalJSON (json_string ''1000000000000000000e2147483639'') q = Panic p)"
proof -
  let ?s = "''1000000000000000000e2147483639''"
  have "schema_number ''1000000000000000000'' [] []" "schema_number ''2147483639'' [] []"
    by (rule schema_number.Digits; simp add: is_digit_cases)+
  from schema_size.Exponent [of "[]", OF _ this(1) _ _ this(2), of "CHR ''e''" "[]"]
  have sch: "schema_size ?s" by (simp add: sign_text_def)
  have "wrap32 (- 2147483639) = 9 - 2 ^ 31" by simp
  then have "wraps_around ?s"
    using panic_text_form panic_text_suffix panic_text_scan unfolding wraps_around_def
    by (intro exI [of _ "full_scan [] ''1000000000000000000'' [] [] ''e2147483639''"] exI [of _ 2147483639])
      (simp add: full_scan_def scanned_number_def del: dec_value_simps)
  moreover have "length ?s < 2 ^ 29" by simp
  ultimately have "\<exists>p. ParseQuantity ?s = Panic p" using ParseQuantity_panics by blast
  then show ?thesis
    using UnmarshalJSON_string [of ?s] schema_size_visible [OF sch] sch by metis
qed

end
