(* ===== verification/Spec2Isabelle.thy ===== *)
theory Spec2Isabelle
  imports ReconcilerSpec ShippedTemplates Process DeepCopy LoopSpec SizeSchema
begin

text \<open>
  A verification development for the swap operator: a Kubernetes operator in Go (\<open>src/cmd\<close>,
  \<open>src/api\<close>, \<open>src/internal\<close>) that reads a \<open>NodeSwap\<close> custom resource, renders templates into an
  OpenShift \<open>MachineConfig\<close>, creates it, and reports in the status of the resource.

  \<^bold>\<open>The program and the theories.\<close> A pass of the operator runs through the parts from the bottom of this
  list to the top:
  \<^item> \<open>src/cmd/main.go\<close>: \<open>CommandMain\<close> (the command line, the options derived from it, the order of the
    start-up calls; state: the flags, record \<open>flags\<close>; the calls of the manager are a record \<open>runtime\<close>) and
    \<open>Process\<close> (\<open>init\<close> and then \<open>main\<close>, with the scheme of \<open>Scheme\<close> and the \<open>SetupWithManager\<close> of \<open>Watches\<close> in
    these calls; state: the record \<open>manager\<close>, what the program gave it).
  \<^item> \<open>src/internal/controller/nodeswap_controller.go\<close>: \<open>Reconciler\<close> (\<open>Reconcile\<close>, \<open>ReconcileSpec\<close>,
    \<open>ReconcileKubeletCgroups\<close>, \<open>ReconcileStatus\<close>, \<open>parseLabelSelector\<close>, \<open>isMachineConfigPoolUpdated\<close>).
    State: the record \<open>reconciler\<close> (the fields of \<open>NodeSwapReconciler\<close>) and the cluster, which is the
    world of a client. \<open>KubeApi\<close> has the client as a record of calls, its laws as the locale
    \<open>kube_client\<close>, and the API server that provides them: a store of objects, with a schedule of what
    others do before each call and which calls fail. \<open>ReconcilerClient\<close> proves the client's lemmas in the
    locale, \<open>ClusterSteps\<close> the exact result of a pass on a quiet cluster, \<open>ClusterInvariant\<close> what every
    run keeps (locale \<open>client_invariant\<close>, inductive \<open>reachable\<close>), \<open>ReconcilerSpec\<close> the properties and the abstract machine
    of statuses that a status update refines.
  \<^item> \<open>SetupWithManager\<close> and what runs the reconciler, from the vendored controller-runtime, client-go and
    apimachinery: \<open>Scheme\<close> (\<open>src/api/v1alpha1/groupversion_info.go\<close>, the \<open>init\<close> functions, the scheme they fill),
    \<open>Watches\<close> (\<open>SetupWithManager\<close>, the builder it calls, the event handlers), \<open>WorkQueue\<close> (the three queues,
    locale \<open>work_queue\<close>), \<open>CachedClient\<close> (the manager's client, a second provider of \<open>kube_client\<close> and
    \<open>client_invariant\<close>, reading from caches that lag behind), \<open>ControlLoop\<close> (informers, queue and worker as the
    step relation \<open>loop_step\<close>, its invariant \<open>loop_ok\<close>), \<open>LoopDrain\<close> (the undisturbed loop and its
    termination), \<open>LoopSpec\<close> (properties). State: the record \<open>loop\<close> (server and caches, reconciler, queue,
    the key the worker holds).
  \<^item> \<open>meta.SetStatusCondition\<close> of the vendored \<open>apimachinery\<close>: \<open>Conditions\<close> (locale \<open>condition_store\<close>).
  \<^item> \<open>src/internal/template/render.go\<close>: \<open>FileSystem\<close> (trees, faults, \<open>filepath.Walk\<close>, \<open>ReadDir\<close>,
    \<open>existsDir\<close>), \<open>TemplateRender\<close> (all functions of the file), \<open>TemplateText\<close> (what the files of the tree
    say, name by name: the text of a name, the names in order), \<open>TemplateSpec\<close> (properties),
    \<open>TextTemplate\<close> (the fragment of \<open>text/template\<close> in use), \<open>ShippedTemplates\<close> (the files of
    \<open>src/templates\<close> and their rendering).
  \<^item> \<open>src/internal/renderconfig/config.go\<close>: \<open>RenderConfig\<close>, over \<open>ApiTypes\<close>
    (\<open>src/api/v1alpha1/nodeswap_types.go\<close>) and \<open>Quantity\<close> (the vendored resource quantities, at their
    64-bit width). How the text of a size becomes such a quantity: \<open>QuantityParse\<close> (\<open>suffix.go\<close> and the parser
    of \<open>quantity.go\<close>, over the decimals of \<open>InfDec\<close> with their 32-bit scales), \<open>QuantityScan\<close> (the syntax as
    the inductive \<open>quantity_form\<close>), \<open>QuantityValue\<close> (both ways of the parser, rounding up), \<open>QuantitySpec\<close>
    and \<open>SizeSchema\<close> (what the resource definition admits, inductive \<open>schema_size\<close> and \<open>schema_value\<close>;
    properties).
  \<^item> \<open>src/internal/common/helpers.go\<close>: \<open>Transpile\<close> (transpiling, machine configs, template functions),
    \<open>IgnDedup\<close> (locale \<open>keyed_dedup\<close>, duplicates of spec 2), \<open>IgnParse\<close> (locale \<open>config_parser\<close>, parsing any
    version), \<open>ParseSpec\<close> (properties).
  \<^item> \<open>src/internal/common/ignition_converter.go\<close>: \<open>IgnConverter\<close> (registration of paths, a mutual
    recursion proved terminating), \<open>IgnPaths\<close> (what is registered), \<open>IgnTable\<close> (the operator's
    converters), \<open>ConverterSpec\<close> (properties), over \<open>Semver\<close> (the vendored versions) and \<open>IgnTypes\<close>.
  \<^item> \<open>src/api/v1alpha1/zz_generated.deepcopy.go\<close> and \<open>src/internal/pointer/pointer.go\<close>: \<open>DeepCopy\<close> (an
    explicit store with addresses, locale \<open>deep_copy\<close>). Only here are objects shared; elsewhere a value
    stands for an object nobody else refers to, which is what the deep copies of the cache provide.
  \<^item> \<open>Prelude\<close> (Go's errors, panics and results, the two loop shapes) and \<open>GoStrings\<close> (strings as lists
    of bytes: split, trim, quote, decimal numbers) are shared by all.

  \<^bold>\<open>How the code is modelled.\<close> A call that may fail returns a \<open>result\<close>: a value, an error (with its text,
  wrapped sentinels and API reason) or a panic. A nil pointer is \<open>None\<close>. Machine integers are words. A
  method that mutates its receiver returns the new state. A Go map that is ranged over is an association
  list, and the theorems say that the order does not matter where the code relies on that.

  \<^bold>\<open>What is shown.\<close> Reconciliation: on a quiet cluster it converges and is then idempotent; in every run,
  with any interleaving and faults, it writes only one machine config and consistent reports, loses no
  error, keeps the conditions well formed, and handles the race for the creation. The running operator:
  no key is lost between event, queue, worker and retry, so whenever it is at rest every \<open>NodeSwap\<close> it has
  seen is acceptable and reported; a success means that the stored spec was reconciled, although it was
  read from a cache; only the worker writes; once nothing disturbs it the loop ends, everything
  \<open>Available\<close>. Events of machine configs and pools have no effect, so a deleted machine config is
  restored only when a \<open>NodeSwap\<close> changes or is resynced. Registration: each type has its kind and each kind its type. Sizes: what is
  written with a unit, or printed for \<open>fallocate\<close>, is read as exactly that many bytes, rounded up, where it
  fits 64 bits; which texts are decoded, refused, or panic. Render configurations: which sizes are
  accepted; the index, the flags and so the file-swap unit are lost. Conversion: exactly the pairs joined by a chain in one direction are registered, in any
  iteration order. Parsing never panics and refuses or upgrades as stated. Rendering is a loop over the
  files; a machine config holds exactly the extensions and, in order, the texts that the template tree
  gives its names, and the one that a reconciliation creates those of the shipped files. Start-up: the process starts one
  complete manager or none; HTTP/2 is off without its flag. Deep
  copies read as the original and share no cell with it.

  \<^bold>\<open>Parameters and hypotheses.\<close> Code that is not under \<open>src\<close>, or of a library whose body the operator
  only calls through, is an argument: the Ignition parsers, validators, translations and \<open>Merge\<close>, YAML and
  JSON coding, the template engine (\<open>renderer_ok\<close> says that none of these panics by itself), whether the
  calls of the manager succeed (record \<open>world\<close>), the other groups of client-go's scheme (\<open>foreign_scheme\<close>:
  they are not the operator's).
  Each is instantiated by a concrete function in the witnesses; the template engine also by \<open>go_engine\<close>,
  with the shipped files.

  \<^bold>\<open>Bounds and fuel.\<close> No definition takes fuel: every recursion is structural or has a termination
  proof (registration: the pairs not yet registered decrease; compatible parsing: the version decreases). The
  loop of the worker is a \<open>while_option\<close>, shown to end by the measure \<open>remaining\<close>: the distance of the
  statuses from the one that is kept, at most two passes each, plus the length of the queue. The texts of
  sizes are taken to be shorter than \<open>2 ^ 29\<close> bytes, so that their lengths fit an \<open>int32\<close>; the API server
  takes far smaller objects only.

  \<^bold>\<open>Not modelled.\<close> Logging and the base64 dump of the machine config; the canonical printing of a
  quantity, which the operator uses only in the text of one error and in the spec that goes along with a
  status update, which the server ignores, and the arithmetic of quantities; start-up and shutdown of the
  controller (the caches are empty and then filled by the same steps that update them), leader election,
  more than one worker, the optional priority queue, the token bucket of the rate limiter (its delay is an
  argument) and the bound of the channel to the delaying queue, which only makes a sender wait; that a
  controller's name is not taken; the fields of the object metadata that the operator does not use; symbolic links in the template tree; what \<open>text/template\<close> knows beyond the fragment. The
  cached client's \<open>Get\<close> is taken to replace the whole object it reads into. The environment of the program
  is simpler than the real one in two places. A call that fails has had no effect of its own; a write
  that the server applies although its answer is lost appears as a disturbance before the failing call
  that puts the same object, so the states are covered and only the list of writes leaves it out. An
  informer updates its cache and calls the handlers in one step; client-go calls them a moment later.
\<close>

section \<open>The shipped templates and the operator\<close>

text \<open>
  C13: no swap of a \<open>NodeSwap\<close> is ever provisioned by the shipped template: for every configuration that
  \<open>Create\<close> returns, rendering the \<open>99-filebased-swap\<close> directory as it is shipped gives no file, no
  unit and no extension, because the template is guarded by the flag that \<open>render\<close> has dropped.
\<close>

theorem file_swap_unit_never_rendered:
  assumes "Create spec = Ok cs" and "c \<in> set cs"
  shows "renderSections shipped_fs go_engine c [''templates''] [''templates'', ''worker'', ''99-filebased-swap''] = Ok no_sections"
proof -
  obtain i where i: "i < length cs" "cs ! i = c" using assms(2) by (auto simp: in_set_conv_nth)
  from Create_Ok_nth(2) [OF assms(1) i(1)] have "render (int i) (sp_Swaps spec ! i) = Ok c" by (simp add: i(2))
  then have "\<not> rc_EnableFileBasedSwap c" by (rule render_Ok)
  then show ?thesis by (simp add: shipped_swap_sections no_sections_def)
qed

theorem file_swap_unit_never_rendered_witness:
  "\<exists>c. Create sample_spec = Ok [c] \<and> rc_SwapFilePath c = ''/var/swap''
    \<and> renderSections shipped_fs go_engine c [''templates''] [''templates'', ''worker'', ''99-filebased-swap''] = Ok no_sections"
  using file_swap_unit_never_rendered [OF sample_Create] sample_Create by auto

text \<open>
  C35: with the shipped templates, every machine config that a reconciliation creates, whatever disturbs it,
  is the kubelet's: it has the fixed name, as labels the worker role and the one that the \<open>NodeSwap\<close> it
  read selects, no OS image and no extensions, and its configuration is the transpiled kubelet
  drop-in and slice unit as they are in the repository, whatever else the spec says.
\<close>

theorem created_config_from_shipped_files:
  assumes "re_fs re = shipped_fs" and "re_engine re = go_engine" and "rr_TemplateDir r = [''templates'']"
    and "Reconcile re api_server key r w = (res, r', w')"
    and "CreatedMachineConfig mc \<in> set (drop (length (cs_Writes w)) (cs_Writes w'))"
  shows "mc_Extensions mc = [] \<and> mc_OSImageURL mc = []
    \<and> (\<exists>ns k v. fst (api_GetNodeSwap key w) = Ok ns
        \<and> parseLabelSelector (sp_MachineConfigPoolSelector (ns_Spec ns)) = Ok (k, v)
        \<and> mc_Meta mc = new_meta ''99-swap-kubelet-cgroups''
            (Some [''machineconfiguration.openshift.io/role'' \<mapsto> ''worker'', k \<mapsto> v]))
    \<and> (\<exists>ign. TranspileCoreOSConfigToIgn (re_toolchain re) (re_converter re) [kubelet_dropin] [slice_unit] = Ok ign
        \<and> tc_jsonMarshal (re_toolchain re) ign = Ok (mc_Config mc))"
proof -
  obtain mcs sts where w': "cs_Writes w' = cs_Writes w @ mcs @ sts"
    and mcs: "\<forall>x\<in>set mcs. \<exists>ns mc. fst (api_GetNodeSwap key w) = Ok ns
         \<and> kubelet_config re (r\<lparr>rr_desiredNodeSwap := ns\<rparr>) mc \<and> x = CreatedMachineConfig mc"
    and sts: "\<forall>x\<in>set sts. \<exists>ns st. fst (api_GetNodeSwap key w) = Ok ns \<and> x = UpdatedStatus (key_of ns) st"
    using api.reconcile_writes [OF assms(4)] by auto
  have "CreatedMachineConfig mc \<in> set mcs" using assms(5) sts by (auto simp: w')
  then obtain ns where get: "fst (api_GetNodeSwap key w) = Ok ns"
    and kc: "kubelet_config re (r\<lparr>rr_desiredNodeSwap := ns\<rparr>) mc" using mcs by blast
  obtain k v mc' where sel: "parseLabelSelector (sp_MachineConfigPoolSelector (ns_Spec ns)) = Ok (k, v)"
    and gen: "GenerateMachineConfigForName re zeroRenderConfig ''worker'' ''99-swap-kubelet-cgroups''
      [''templates''] [''templates'', ''worker'', ''99-swap-kubelet-cgroups''] = Ok mc'"
    and mc: "mc = withLabel k v mc'"
    using kc assms(3) by (auto simp: kubelet_config_def)
  from gen show ?thesis
    by (rule GenerateMachineConfigForName_Ok)
      (use get sel in \<open>auto simp: mc withLabel_def assms(1,2) shipped_cgroups_sections keySortVals_def MachineConfigRoleLabelKey_def\<close>)
qed

definition shipped_renderer :: "(string, tmpl_node list) renderer" where
  "shipped_renderer =
     \<lparr>re_fs = shipped_fs, re_engine = go_engine, re_toolchain = sample_tc,
      re_converter = ignitionConverter converter_sources sample_tr\<rparr>"

lemma shipped_mc:
  "is_ok (GenerateMachineConfigForName shipped_renderer config ''worker'' ''99-swap-kubelet-cgroups''
      [''templates''] [''templates'', ''worker'', ''99-swap-kubelet-cgroups''])"
proof -
  have ne: "kubelet_dropin \<noteq> []" "slice_unit \<noteq> []"
    by (simp_all add: kubelet_dropin_def slice_unit_def text_lines_def)
  obtain ign where "TranspileCoreOSConfigToIgn sample_tc (ignitionConverter converter_sources sample_tr)
      [kubelet_dropin] [slice_unit] = Ok ign"
    unfolding transpile_Ok_iff [OF source_order_converter_sources]
    by (simp add: list_all2_Cons1 sample_tc_def snippet35_def ToIgn3_0_def fileSnippet_def unitSnippet_def
        upgrade_from_32_def sample_tr_def set_version_def ne)
  then show ?thesis
    by (simp add: GenerateMachineConfigForName_def shipped_renderer_def shipped_cgroups_sections keySortVals_def
        MachineConfigFromIgnConfig_def MachineConfigFromRawIgnConfig_def)
      (simp add: sample_tc_def)
qed

theorem created_config_from_shipped_files_witness:
  "\<exists>r' w' mc. Reconcile shipped_renderer api_server sample_key sample_reconciler (sample_cluster []) = (Ok (), r', w')
     \<and> CreatedMachineConfig mc \<in> set (cs_Writes w') \<and> mc_Extensions mc = []
     \<and> om_Name (mc_Meta mc) = ''99-swap-kubelet-cgroups''"
proof -
  have ns: "cs_NodeSwaps (sample_cluster []) sample_key = Some (sample_ns [])" and w: "cs_Writes (sample_cluster []) = []"
    and none: "cs_MachineConfigs (sample_cluster []) SwapKubeletCgroupsMCPrefix = None" by (simp_all add: sample_cluster_def)
  have dir: "rr_TemplateDir sample_reconciler = [''templates'']" by (simp add: sample_reconciler_def)
  have "healthy shipped_renderer sample_key [''templates''] (sample_cluster [])"
    using sample_healthy [of "[]"] shipped_mc [of zeroRenderConfig] by (simp add: healthy_def ns)
  from healthy_pass [OF this dir ns] obtain r' w' where
    run: "Reconcile shipped_renderer api_server sample_key sample_reconciler (sample_cluster []) = (Ok (), r', w')"
    and "creations (cs_Writes w') \<noteq> 0" using w none by auto
  then obtain x where "x \<in> set (cs_Writes w')" "case x of CreatedMachineConfig _ \<Rightarrow> True | UpdatedStatus _ _ \<Rightarrow> False"
    by (auto simp: creations_def filter_empty_conv simp del: split_paired_All)
  then obtain mc where mc: "CreatedMachineConfig mc \<in> set (cs_Writes w')" by (auto split: api_write.splits)
  have "re_fs shipped_renderer = shipped_fs" "re_engine shipped_renderer = go_engine" by (simp_all add: shipped_renderer_def)
  from created_config_from_shipped_files [OF this dir run, of mc] mc w
  have "mc_Extensions mc = []" "om_Name (mc_Meta mc) = ''99-swap-kubelet-cgroups''" by auto
  with run mc show ?thesis by blast
qed

end
